(* ===== verification/Ruby_Prelude.thy ===== *)
theory Ruby_Prelude
  imports Main "HOL-Library.Word" "HOL-Library.Multiset"
begin

text \<open>
  Shared vocabulary of the development: the machine types of the C++ sources, the way a
  failed \<open>assert\<close>, a \<open>panic\<close> or an undefined memory access is represented, and the generic
  list and word lemmas that the component theories use.
\<close>

unbundle bit_operations_syntax

section \<open>Machine types\<close>

text \<open>\<open>Tick\<close>, \<open>Cycles\<close>, \<open>Addr\<close> and \<open>physical_address_t\<close> are 64-bit unsigned integers
  (src/gem5-stable/src/base/types.hh and src/gem5-stable/src/mem/ruby/common/TypeDefines.hh).\<close>

type_synonym tick = "64 word"
type_synonym cycles = "64 word"
type_synonym addr = "64 word"
type_synonym u32 = "32 word"
type_synonym u64 = "64 word"
type_synonym byte = "8 word"

section \<open>Failures as values\<close>

text \<open>
  The simulator stops in three ways: a failed \<open>assert\<close>, a call of \<open>panic\<close> or \<open>fatal\<close>, and
  (without any check in the code) an access outside an array or through a null pointer, or a
  shift by at least the width of its operand, a division by zero, or a loop that does not end. Every
  one of them is a value of the type below, so that a partial operation returns
  \<open>Inl\<close> of the reason or \<open>Inr\<close> of its result.
\<close>

datatype ruby_error = AssertFailed | Panicked | OutOfBounds | NullDereference | UndefinedShift | DivisionByZero | NoReturn

type_synonym 'a result = "ruby_error + 'a"

definition ensure :: "bool \<Rightarrow> ruby_error \<Rightarrow> 'a result \<Rightarrow> 'a result" where
  "ensure b e k = (if b then k else Inl e)"

definition rbind :: "'a result \<Rightarrow> ('a \<Rightarrow> 'b result) \<Rightarrow> 'b result" where
  "rbind m f = (case m of Inl e \<Rightarrow> Inl e | Inr x \<Rightarrow> f x)"

definition rmap :: "('a \<Rightarrow> 'b) \<Rightarrow> 'a result \<Rightarrow> 'b result" where
  "rmap f m = rbind m (\<lambda>x. Inr (f x))"

definition is_ok :: "'a result \<Rightarrow> bool" where
  "is_ok m = (case m of Inl _ \<Rightarrow> False | Inr _ \<Rightarrow> True)"

text \<open>The check comes first: evaluation looks at the rest only where the check succeeds.\<close>

lemma ensure_code [code_unfold]: "ensure b e k = (if b then k else Inl e)"
  by (rule ensure_def)

named_theorems result_simps

lemma ensure_True [simp, result_simps]: "ensure True e k = k"
  by (simp add: ensure_def)

lemma ensure_False [simp, result_simps]: "ensure False e k = Inl e"
  by (simp add: ensure_def)

lemma ensure_eq_Inr [simp, result_simps]: "ensure b e k = Inr x \<longleftrightarrow> b \<and> k = Inr x"
  by (simp add: ensure_def)

lemma ensure_eq_Inl [result_simps]: "ensure b e k = Inl d \<longleftrightarrow> (if b then k = Inl d else d = e)"
  by (auto simp: ensure_def)

lemma ensure_twice: "ensure b e (rbind (ensure b d k) f) = ensure b e (rbind k f)"
  by (simp add: ensure_def)

lemma rbind_Inl [simp, result_simps]: "rbind (Inl e) f = Inl e"
  by (simp add: rbind_def)

lemma rbind_Inr [simp, result_simps]: "rbind (Inr x) f = f x"
  by (simp add: rbind_def)

lemma rbind_eq_Inr [simp, result_simps]: "rbind m f = Inr y \<longleftrightarrow> (\<exists>x. m = Inr x \<and> f x = Inr y)"
  by (cases m) simp_all

lemma rmap_simps [simp, result_simps]: "rmap f (Inl e) = Inl e" "rmap f (Inr x) = Inr (f x)"
  by (simp_all add: rmap_def)

lemma is_ok_Inl [simp, result_simps]: "is_ok (Inl e) = False"
  by (simp add: is_ok_def)

lemma is_ok_Inr [simp, result_simps]: "is_ok (Inr x) = True"
  by (simp add: is_ok_def)

lemma is_ok_iff: "is_ok m \<longleftrightarrow> (\<exists>x. m = Inr x)"
  by (cases m) simp_all

lemma is_ok_ensure [simp, result_simps]: "is_ok (ensure b e k) \<longleftrightarrow> b \<and> is_ok k"
  by (simp add: ensure_def)

text \<open>Access through a pointer and to the elements of an array or vector.\<close>

definition deref :: "'a option \<Rightarrow> 'a result" where
  "deref p = (case p of None \<Rightarrow> Inl NullDereference | Some x \<Rightarrow> Inr x)"

definition front :: "'a list \<Rightarrow> 'a result" where
  "front xs = (case xs of [] \<Rightarrow> Inl OutOfBounds | x # _ \<Rightarrow> Inr x)"

definition at_pos :: "'a list \<Rightarrow> nat \<Rightarrow> 'a result" where
  "at_pos xs i = ensure (i < length xs) OutOfBounds (Inr (xs ! i))"

definition set_pos :: "'a list \<Rightarrow> nat \<Rightarrow> 'a \<Rightarrow> 'a list result" where
  "set_pos xs i x = ensure (i < length xs) OutOfBounds (Inr (xs[i := x]))"

lemma deref_Some [simp]: "deref (Some x) = Inr x"
  by (simp add: deref_def)

lemma deref_eq_Inr: "deref p = Inr x \<longleftrightarrow> p = Some x"
  by (cases p) (simp_all add: deref_def)

lemma at_pos_in: "i < length xs \<Longrightarrow> at_pos xs i = Inr (xs ! i)"
  by (simp add: at_pos_def)

lemma at_pos_out: "length xs \<le> i \<Longrightarrow> at_pos xs i = Inl OutOfBounds"
  by (simp add: at_pos_def ensure_def)

lemma set_pos_in: "i < length xs \<Longrightarrow> set_pos xs i x = Inr (xs[i := x])"
  by (simp add: set_pos_def)

lemma set_pos_out: "length xs \<le> i \<Longrightarrow> set_pos xs i x = Inl OutOfBounds"
  by (simp add: set_pos_def ensure_def)

text \<open>A loop over a list whose body may fail: it stops at the first failure.\<close>

fun rfold :: "('s \<Rightarrow> 'x \<Rightarrow> 's result) \<Rightarrow> 's \<Rightarrow> 'x list \<Rightarrow> 's result" where
  "rfold f s [] = Inr s"
| "rfold f s (x # xs) = rbind (f s x) (\<lambda>s'. rfold f s' xs)"

fun rmap2 :: "('a \<Rightarrow> 'b \<Rightarrow> 'c result) \<Rightarrow> 'a list \<Rightarrow> 'b list \<Rightarrow> 'c list result" where
  "rmap2 f (x # xs) (y # ys) = rbind (f x y) (\<lambda>z. rbind (rmap2 f xs ys) (\<lambda>zs. Inr (z # zs)))"
| "rmap2 f _ _ = Inr []"

text \<open>A loop that stops with \<open>False\<close> at the first pair for which the test says so.\<close>

fun rall2 :: "('a \<Rightarrow> 'b \<Rightarrow> bool result) \<Rightarrow> 'a list \<Rightarrow> 'b list \<Rightarrow> bool result" where
  "rall2 f (x # xs) (y # ys) = rbind (f x y) (\<lambda>b. if b then rall2 f xs ys else Inr False)"
| "rall2 f _ _ = Inr True"

lemma all_less_Suc_conv: "(\<forall>i < Suc n. P i) \<longleftrightarrow> P 0 \<and> (\<forall>i < n. P (Suc i))"
  by (auto simp: less_Suc_eq_0_disj)

lemma rfold_append: "rfold f s (xs @ ys) = rbind (rfold f s xs) (\<lambda>s'. rfold f s' ys)"
  by (induction xs arbitrary: s) (simp_all add: rbind_def split: sum.split)

lemma rfold_invariant:
  assumes "I s" and "\<And>s x. I s \<Longrightarrow> x \<in> set xs \<Longrightarrow> \<exists>s'. f s x = Inr s' \<and> I s'"
  shows "\<exists>s'. rfold f s xs = Inr s' \<and> I s'"
  using assms
proof (induction xs arbitrary: s)
  case Nil
  then show ?case by simp
next
  case (Cons x xs)
  obtain s' where s': "f s x = Inr s'" "I s'" using Cons.prems by force
  have "\<exists>t. rfold f s' xs = Inr t \<and> I t"
    using s'(2) Cons.prems(2) by (intro Cons.IH) auto
  with s'(1) show ?case by simp
qed

lemma rmap2_Inr:
  assumes "length xs = length ys"
    and "\<And>i. i < length xs \<Longrightarrow> f (xs ! i) (ys ! i) = Inr (g (xs ! i) (ys ! i))"
  shows "rmap2 f xs ys = Inr (map2 g xs ys)"
  using assms
proof (induction xs ys rule: list_induct2)
  case Nil
  then show ?case by simp
next
  case (Cons x xs y ys)
  have "f x y = Inr (g x y)" using Cons.prems [of 0] by simp
  moreover have "rmap2 f xs ys = Inr (map2 g xs ys)"
    using Cons.prems [of "Suc _"] by (intro Cons.IH) auto
  ultimately show ?case by simp
qed

lemma rmap2_spec:
  assumes "length xs = length ys"
    and "\<And>i. i < length xs \<Longrightarrow> \<exists>z. f (xs ! i) (ys ! i) = Inr z \<and> R i z"
  shows "\<exists>zs. rmap2 f xs ys = Inr zs \<and> length zs = length xs \<and> (\<forall>i < length xs. R i (zs ! i))"
  using assms
proof (induction xs ys arbitrary: R rule: list_induct2)
  case Nil
  then show ?case by simp
next
  case (Cons x xs y ys)
  obtain z where z: "f x y = Inr z" "R 0 z" using Cons.prems [of 0] by auto
  moreover have "\<exists>zs. rmap2 f xs ys = Inr zs \<and> length zs = length xs \<and>
      (\<forall>i < length xs. R (Suc i) (zs ! i))"
    using Cons.prems [of "Suc _"] by (intro Cons.IH) auto
  ultimately show ?case by (auto simp: all_less_Suc_conv)
qed

lemma rall2_Inr:
  assumes "length xs = length ys"
    and "\<And>i. i < length xs \<Longrightarrow> f (xs ! i) (ys ! i) = Inr (P (xs ! i) (ys ! i))"
  shows "rall2 f xs ys = Inr (\<forall>i < length xs. P (xs ! i) (ys ! i))"
  using assms
proof (induction xs ys rule: list_induct2)
  case Nil
  then show ?case by simp
next
  case (Cons x xs y ys)
  have "f x y = Inr (P x y)" using Cons.prems [of 0] by simp
  moreover have "rall2 f xs ys = Inr (\<forall>i < length xs. P (xs ! i) (ys ! i))"
    using Cons.prems [of "Suc _"] by (intro Cons.IH) auto
  ultimately show ?case by (simp add: all_less_Suc_conv)
qed

lemma rfold_keeps:
  assumes "rfold f s xs = Inr s'" and "I s" and "\<And>s x s'. I s \<Longrightarrow> x \<in> set xs \<Longrightarrow> f s x = Inr s' \<Longrightarrow> I s'"
  shows "I s'"
  using assms
proof (induction xs arbitrary: s)
  case Nil
  then show ?case by simp
next
  case (Cons x xs)
  from Cons.prems(1) obtain s1 where s1: "f s x = Inr s1" "rfold f s1 xs = Inr s'" by auto
  have "I s1" by (rule Cons.prems(3) [OF Cons.prems(2) _ s1(1)]) simp
  show ?case
  proof (rule Cons.IH [OF s1(2) \<open>I s1\<close>])
    fix t y t' assume "I t" "y \<in> set xs" "f t y = Inr t'"
    then show "I t'" by (intro Cons.prems(3) [of t y t']) simp_all
  qed
qed

lemma rmap2_nth:
  assumes "rmap2 f xs ys = Inr zs" and "i < length zs"
  shows "i < length xs \<and> i < length ys \<and> f (xs ! i) (ys ! i) = Inr (zs ! i)"
  using assms
proof (induction f xs ys arbitrary: zs i rule: rmap2.induct)
  case (1 f x xs y ys)
  then show ?case by (cases i) auto
qed auto

section \<open>Lists\<close>

lemma mset_update_swap:
  assumes "i < length xs" and "j < length xs" and "i \<noteq> j"
  shows "mset (xs[i := xs ! j, j := v]) = mset (xs[i := v])"
proof -
  have "mset (xs[i := xs ! j, j := v]) = add_mset v (mset (xs[i := xs ! j]) - {#xs ! j#})"
    using assms by (simp add: mset_update)
  also have "\<dots> = add_mset v (add_mset (xs ! j) (mset xs - {#xs ! i#}) - {#xs ! j#})"
    using assms by (simp add: mset_update)
  also have "\<dots> = mset (xs[i := v])"
    using assms by (simp add: mset_update)
  finally show ?thesis .
qed

lemma butlast_append_last_mset:
  assumes "xs \<noteq> []"
  shows "mset xs = add_mset (last xs) (mset (butlast xs))"
  using assms by (cases xs rule: rev_cases) simp_all

lemma count_list_filter: "P x \<Longrightarrow> count_list (filter P xs) x = count_list xs x"
  by (induction xs) auto

lemma count_list_distinct: "distinct xs \<Longrightarrow> x \<in> set xs \<Longrightarrow> count_list xs x = 1"
  by (induction xs) (auto simp: count_list_0_iff)

section \<open>Words\<close>

lemma word_eq_iff_bit: "(v :: 'a::len word) = w \<longleftrightarrow> (\<forall>n < LENGTH('a). bit v n = bit w n)"
  by (auto intro: bit_word_eqI)

lemma word_drop_bit_unat: "unat (drop_bit n (w :: 'a::len word)) = unat w div 2 ^ n"
  by (metis drop_bit_eq_div unat_drop_bit_eq)

lemma word_mask_eq_NOT_push_bit: "NOT (push_bit n (- 1 :: 'a::len word)) = mask n"
  by (simp add: minus_exp_eq_not_mask push_bit_minus_one)

text \<open>64-bit arithmetic without wrap-around.\<close>

named_theorems u64_simps

lemma unat_add_u64 [u64_simps]: "unat a + unat b < 2 ^ 64 \<Longrightarrow> unat (a + b) = unat a + unat b" for a b :: u64
  by (simp add: unat_word_ariths)

lemma unat_mult_u64 [u64_simps]: "unat a * unat b < 2 ^ 64 \<Longrightarrow> unat (a * b) = unat a * unat b" for a b :: u64
  by (simp add: unat_word_ariths)

lemma unat_diff_u64 [u64_simps]: "b \<le> a \<Longrightarrow> unat (a - b) = unat a - unat b" for a b :: u64
  by (simp add: unat_sub)

lemma u64_pos: "0 < (a :: u64) \<longleftrightarrow> 0 < unat a"
  by (simp add: word_gt_0 unat_gt_0)

lemma u64_bounded: "unat (a :: u64) < 2 ^ 64"
  using unsigned_less [of a, where ?'a = nat] by simp

lemma u64_not_max: "(k :: u64) \<noteq> - 1 \<longleftrightarrow> unat k + 1 < 2 ^ 64"
proof -
  have "k = - 1 \<longleftrightarrow> unat k = unat (- 1 :: u64)" by (simp add: word_unat_eq_iff)
  moreover have "unat (- 1 :: u64) = 2 ^ 64 - 1"
    by (simp add: unsigned_minus_1_eq_mask mask_eq_exp_minus_1)
  ultimately show ?thesis using u64_bounded [of k] by simp linarith
qed

lemma u64_less_plus_1: "k \<noteq> - 1 \<Longrightarrow> k < k + 1" for k :: u64
  by (simp add: u64_not_max word_less_nat_alt unat_add_u64)

end
