(* ===== verification/TDM_Schedule.thy ===== *)
theory TDM_Schedule
  imports Ruby_Prelude
begin

text \<open>
  The time-division-multiplexed schedule of the shared bus: the slot functions of \<open>Throttle\<close>
  (src/gem5-stable/src/mem/ruby/network/simple/Throttle.hh), the latency functions exported to the
  protocols (src/gem5-stable/src/mem/ruby/slicc_interface/RubySlicc_Util.hh), and the constants of
  src/gem5-stable/src/cpu/testers/rubytest/Trace.hh. Four cores own slots of 50 cycles in turn; the
  slots of every second period are for write-backs. Cycles are 64-bit words; the functions that
  compute in \<open>unsigned int\<close> do so in 32-bit words here.
\<close>

section \<open>Constants\<close>

definition NPROC :: u32 where
  "NPROC = 4"

definition SLOT_WIDTH :: u32 where
  "SLOT_WIDTH = 50"

definition BASELINE :: bool where
  "BASELINE = False"

definition READ_WB_RANDOM :: bool where
  "READ_WB_RANDOM = False"

definition WB_RANDOM :: bool where
  "WB_RANDOM = False"

definition WRITE_HITS :: bool where
  "WRITE_HITS = False"

definition slot_period :: u32 where
  "slot_period = NPROC * SLOT_WIDTH"

text \<open>The numbers \<open>0 \<le> i < NPROC\<close> of the loops below.\<close>

definition procs :: "u32 list" where
  "procs = map word_of_nat [0..<unat NPROC]"

section \<open>Slots\<close>

definition isStartOfSlot :: "cycles \<Rightarrow> bool" where
  "isStartOfSlot t = list_ex (\<lambda>i. t mod ucast slot_period = ucast (i * SLOT_WIDTH)) procs"

definition getSlotOwner :: "cycles \<Rightarrow> int" where
  "getSlotOwner t =
     (case find (\<lambda>i. t mod ucast slot_period < ucast ((i + 1) * SLOT_WIDTH)) procs of
        Some i \<Rightarrow> uint i | None \<Rightarrow> - 1)"

definition isStartDemandSlot :: "cycles \<Rightarrow> bool" where
  "isStartDemandSlot t = list_ex (\<lambda>i. t mod ucast slot_period = ucast (i * SLOT_WIDTH)) procs"

definition isStartWBSlot :: "cycles \<Rightarrow> bool" where
  "isStartWBSlot t =
     list_ex (\<lambda>i. t mod ucast (2 * slot_period) = ucast ((i + NPROC) * SLOT_WIDTH)) procs"

text \<open>The new value of \<open>vToken\<close>; \<open>rnd\<close> is the result of \<open>rand()\<close>.\<close>

definition setSlotType :: "nat \<Rightarrow> cycles \<Rightarrow> bool \<Rightarrow> bool" where
  "setSlotType rnd t vToken =
     (if READ_WB_RANDOM then (let tmp = rnd mod 10 in if tmp mod 2 = 0 then False else True)
      else if BASELINE then (if isStartOfSlot t then False else vToken)
      else let v = (if isStartDemandSlot t then False else vToken)
           in (if isStartWBSlot t then True else v))"

section \<open>Latencies\<close>

text \<open>An \<open>int\<close> in an expression with \<open>Cycles\<close> is converted to 64 bits.\<close>

definition int_cycles :: "int \<Rightarrow> cycles" where
  "int_cycles i = word_of_int i"

definition Cycles_minus :: "cycles \<Rightarrow> cycles \<Rightarrow> cycles result" where
  "Cycles_minus a b = ensure (b \<le> a) AssertFailed (Inr (a - b))"

definition inBound :: "cycles \<Rightarrow> int \<Rightarrow> bool" where
  "inBound t nodeID \<longleftrightarrow>
     t mod ucast slot_period < int_cycles ((nodeID + 1) * uint SLOT_WIDTH) \<and>
     int_cycles (nodeID * uint SLOT_WIDTH) \<le> t mod ucast slot_period"

definition getNearestStartPeriod :: "cycles \<Rightarrow> cycles" where
  "getNearestStartPeriod t =
     (let slotPeriod = NPROC * SLOT_WIDTH;
          periodId = (ucast (t div ucast slotPeriod) :: u32)
      in ucast (periodId * slotPeriod))"

definition refineFirstScheduledTime :: "cycles \<Rightarrow> cycles result" where
  "refineFirstScheduledTime t = Cycles_minus t 5"

text \<open>The loop of \<open>getCurrentStartSlot\<close>.\<close>

partial_function (option) start_slot_loop :: "cycles \<Rightarrow> cycles \<Rightarrow> cycles option" where
  "start_slot_loop t periodStart =
     (if periodStart < t then start_slot_loop t (periodStart + 50) else Some periodStart)"

declare start_slot_loop.simps [code]

definition getCurrentStartSlot :: "cycles \<Rightarrow> int \<Rightarrow> cycles option" where
  "getCurrentStartSlot t nodeID =
     (let periodStart = getNearestStartPeriod t
      in if nodeID = - 1 then start_slot_loop t periodStart
         else Some (periodStart + int_cycles (nodeID * 50)))"

definition needRefineIntraCoreCohLatency :: "cycles \<Rightarrow> bool" where
  "needRefineIntraCoreCohLatency t = (400 < t)"

definition getDifferenceIntraCoreCohLatency :: "cycles \<Rightarrow> cycles result" where
  "getDifferenceIntraCoreCohLatency t = Cycles_minus t 400"

definition getCycles :: "int \<Rightarrow> cycles" where
  "getCycles t = ucast (word_of_int t :: u32)"

definition getNearestSlot :: "cycles \<Rightarrow> int \<Rightarrow> cycles" where
  "getNearestSlot t nodeID =
     (let nearestPeriod = getNearestStartPeriod t;
          ownerStartSlot = nearestPeriod + int_cycles (nodeID * 50);
          slotPeriod = NPROC * SLOT_WIDTH
      in if t < ownerStartSlot then ownerStartSlot else ownerStartSlot + ucast slotPeriod)"

definition getArbitLatency :: "cycles \<Rightarrow> int \<Rightarrow> bool \<Rightarrow> cycles result option" where
  "getArbitLatency t nodeID zeroArb =
     (if zeroArb
      then (case getCurrentStartSlot t (- 1) of None \<Rightarrow> None
            | Some nearestSlot \<Rightarrow> Some (Cycles_minus nearestSlot t))
      else let nearestSlot = getNearestSlot (t + 5) nodeID
           in if nearestSlot < t then Some (Cycles_minus t nearestSlot)
              else Some (Cycles_minus nearestSlot t))"

section \<open>The schedule over natural numbers\<close>

lemma tdm_constants [simp]: "NPROC = 4" "SLOT_WIDTH = 50" "slot_period = 200"
  by (simp_all add: NPROC_def SLOT_WIDTH_def slot_period_def)

lemma procs_eq: "procs = [0, 1, 2, 3]"
  by (simp add: procs_def upt_rec)

lemma unat_mod_200: "unat (t mod 200) = unat t mod 200" for t :: cycles
  by (simp add: unat_mod)

lemma unat_mod_400: "unat (t mod 400) = unat t mod 400" for t :: cycles
  by (simp add: unat_mod)

lemma multiples_of_50: "r < 200 \<Longrightarrow> r \<in> {0, 50, 100, 150} \<longleftrightarrow> r mod 50 = 0" for r :: nat
proof
  assume r: "r < 200" "r mod 50 = 0"
  then obtain q where q: "r = 50 * q" by auto
  with r have "q = 0 \<or> q = 1 \<or> q = 2 \<or> q = 3" by auto
  with q show "r \<in> {0, 50, 100, 150}" by auto
qed auto

text \<open>The owner by arithmetic on the cycle number.\<close>

lemma isStartOfSlot_iff: "isStartOfSlot t \<longleftrightarrow> unat t mod 50 = 0"
proof -
  have "isStartOfSlot t \<longleftrightarrow> unat t mod 200 \<in> {0, 50, 100, 150}"
    by (auto simp: isStartOfSlot_def procs_eq unat_mod_200 [symmetric] word_unat_eq_iff)
  also have "\<dots> \<longleftrightarrow> unat t mod 200 mod 50 = 0" by (rule multiples_of_50) simp
  also have "unat t mod 200 mod 50 = unat t mod 50" by (rule mod_mod_cancel) simp
  finally show ?thesis .
qed

lemma getSlotOwner_eq: "getSlotOwner t = int (unat t mod 200 div 50)"
proof -
  have m: "unat t mod 200 < 200" by simp
  have less: "t mod 200 < k \<longleftrightarrow> unat t mod 200 < unat k" for k :: cycles
    by (simp add: word_less_nat_alt unat_mod_200)
  consider "unat t mod 200 < 50" | "50 \<le> unat t mod 200" "unat t mod 200 < 100"
    | "100 \<le> unat t mod 200" "unat t mod 200 < 150" | "150 \<le> unat t mod 200" by linarith
  then show ?thesis
    by cases (use m in \<open>simp_all add: getSlotOwner_def procs_eq less\<close>)
qed

lemma isStartWBSlot_iff: "isStartWBSlot t \<longleftrightarrow> unat t mod 50 = 0 \<and> odd (unat t div 200)"
proof -
  let ?n = "unat t"
  have "isStartWBSlot t \<longleftrightarrow> ?n mod 400 \<in> {200, 250, 300, 350}"
    by (auto simp: isStartWBSlot_def procs_eq unat_mod_400 [symmetric] word_unat_eq_iff)
  also have "?n mod 400 = 200 * (?n div 200 mod 2) + ?n mod 200"
    using mod_mult2_eq [of ?n 200 2] by simp
  also have "\<dots> \<in> {200, 250, 300, 350} \<longleftrightarrow> ?n mod 200 \<in> {0, 50, 100, 150} \<and> odd (?n div 200)"
    by (cases "even (?n div 200)") (auto simp: odd_iff_mod_2_eq_one)
  also have "?n mod 200 \<in> {0, 50, 100, 150} \<longleftrightarrow> ?n mod 200 mod 50 = 0" by (rule multiples_of_50) simp
  also have "?n mod 200 mod 50 = ?n mod 50" by (rule mod_mod_cancel) simp
  finally show ?thesis .
qed

lemma setSlotType_eq: "setSlotType rnd t v = (if unat t mod 50 = 0 then odd (unat t div 200) else v)"
proof -
  have "isStartDemandSlot t = isStartOfSlot t" by (simp add: isStartDemandSlot_def isStartOfSlot_def)
  then show ?thesis
    by (simp add: setSlotType_def READ_WB_RANDOM_def BASELINE_def isStartOfSlot_iff isStartWBSlot_iff Let_def)
qed

lemma unat_int_cycles: "0 \<le> i \<Longrightarrow> i < 2 ^ 64 \<Longrightarrow> unat (int_cycles i) = nat i"
  by (simp add: int_cycles_def unsigned_of_int take_bit_int_eq_self)

lemma inBound_iff:
  assumes "0 \<le> n" and "n < 4"
  shows "inBound t n \<longleftrightarrow> getSlotOwner t = n"
proof -
  obtain k where k: "n = int k" using assms(1) nonneg_int_cases by blast
  then have k4: "k < 4" using assms(2) by simp
  have "inBound t n \<longleftrightarrow> unat t mod 200 < (k + 1) * 50 \<and> k * 50 \<le> unat t mod 200"
    using k k4
    by (simp add: inBound_def word_less_nat_alt word_le_nat_alt unat_mod_200 unat_int_cycles nat_add_distrib nat_mult_distrib add.commute [of _ 50])
  also have "\<dots> \<longleftrightarrow> unat t mod 200 div 50 < k + 1 \<and> k \<le> unat t mod 200 div 50"
    by (simp only: less_eq_div_iff_mult_less_eq div_less_iff_less_mult zero_less_numeral)
  also have "\<dots> \<longleftrightarrow> unat t mod 200 div 50 = k" by linarith
  finally show ?thesis by (simp add: getSlotOwner_eq k)
qed

lemma getNearestStartPeriod_eq:
  assumes "unat t < 2 ^ 32"
  shows "unat (getNearestStartPeriod t) = unat t div 200 * 200"
proof -
  let ?p = "ucast (t div 200) :: u32"
  have le: "unat t div 200 * 200 \<le> unat t" by simp
  have p: "unat ?p = unat t div 200"
    using assms by (simp add: unsigned_ucast_eq unat_div take_bit_nat_eq_self)
  have "unat (?p * 200) = unat t div 200 * 200"
    using assms le by (simp add: unat_word_ariths p)
  then show ?thesis
    using assms le by (simp add: getNearestStartPeriod_def Let_def unsigned_ucast_eq take_bit_nat_eq_self)
qed

lemma slot_start_of:
  "isStartOfSlot u \<and> getSlotOwner u = int n \<longleftrightarrow> unat u mod 200 = 50 * n" if "n < 4"
proof -
  have "unat u mod 50 = unat u mod 200 mod 50" by (rule mod_mod_cancel [symmetric]) simp
  moreover have "unat u mod 200 mod 50 = 0 \<and> unat u mod 200 div 50 = n \<longleftrightarrow> unat u mod 200 = 50 * n"
    using div_mult_mod_eq [of "unat u mod 200" 50] by auto
  ultimately show ?thesis by (simp add: isStartOfSlot_iff getSlotOwner_eq)
qed

lemma getNearestSlot_spec:
  assumes "unat t < 2 ^ 32 - 400" and "n < 4"
  defines "sl \<equiv> getNearestSlot t (int n)"
  shows "unat t < unat sl \<and> unat sl \<le> unat t + 200 \<and> unat sl mod 200 = 50 * n"
proof -
  let ?T = "unat t" and ?P = "unat t div 200 * 200"
  have T: "?T < 2 ^ 32" using assms(1) by simp
  have P: "?P \<le> ?T" "?T < ?P + 200" using div_mult_mod_eq [of ?T 200] mod_less_divisor [of 200 ?T] by simp_all
  have own: "unat (getNearestStartPeriod t + int_cycles (int n * 50)) = ?P + 50 * n"
    using T P assms(2)
    by (simp add: unat_add_u64 unat_int_cycles getNearestStartPeriod_eq nat_mult_distrib)
  then have own': "unat (getNearestStartPeriod t + int_cycles (int n * 50) + 200) = ?P + 50 * n + 200"
    using T P assms(2) by (subst unat_add_u64) (simp_all add: own)
  have "unat sl = (if ?T < ?P + 50 * n then ?P + 50 * n else ?P + 50 * n + 200)"
    using own own' by (simp add: sl_def getNearestSlot_def Let_def word_less_nat_alt)
  moreover have "(?P + 50 * n) mod 200 = 50 * n" "(?P + 50 * n + 200) mod 200 = 50 * n" using assms(2) by simp_all
  ultimately show ?thesis using P assms(2) by (auto split: if_splits)
qed

lemma mod_eq_apart:
  assumes "a mod m = b mod m" and "a < b" and "0 < (m :: nat)"
  shows "a + m \<le> b"
proof -
  have "m dvd b - a" using assms(1,2) mod_eq_dvd_iff_nat [of a b m] by (simp add: less_imp_le)
  then show ?thesis using assms(2) by (auto dest: dvd_imp_le)
qed

lemma start_slot_loop_spec:
  assumes "unat p < unat t + 50" and "unat t + 50 < 2 ^ 64"
  shows "\<exists>e. start_slot_loop t p = Some e \<and> unat t \<le> unat e \<and> unat e < unat t + 50 \<and>
    unat e mod 50 = unat p mod 50"
  using assms(1)
proof (induction "unat t + 50 - unat p" arbitrary: p rule: less_induct)
  case less
  show ?case
  proof (cases "p < t")
    case True
    have p50: "unat (p + 50) = unat p + 50"
      using True assms(2) by (subst unat_add_u64) (simp_all add: word_less_nat_alt)
    have "\<exists>e. start_slot_loop t (p + 50) = Some e \<and> unat t \<le> unat e \<and> unat e < unat t + 50 \<and>
        unat e mod 50 = unat (p + 50) mod 50"
      using True p50 by (intro less.hyps) (simp_all add: word_less_nat_alt)
    then show ?thesis using True p50 by (simp add: start_slot_loop.simps [of t p])
  next
    case False
    then show ?thesis using less.prems by (simp add: start_slot_loop.simps [of t p] word_less_nat_alt)
  qed
qed

section \<open>Properties\<close>

text \<open>C?: at every cycle exactly one core owns the bus, \<open>getSlotOwner\<close> and \<open>inBound\<close> agree on which,
  and the owner depends on the cycle modulo the period of 200 cycles only: slots do not overlap.\<close>

theorem slot_owner_unique:
  "getSlotOwner t \<in> {0, 1, 2, 3} \<and> (\<forall>n \<in> {0, 1, 2, 3}. inBound t n \<longleftrightarrow> n = getSlotOwner t) \<and>
   getSlotOwner t = int (unat t mod 200 div 50)"
proof (intro conjI ballI)
  have "unat t mod 200 div 50 < 4" by (simp add: div_less_iff_less_mult)
  then show "getSlotOwner t \<in> {0, 1, 2, 3}" by (auto simp: getSlotOwner_eq)
  show "inBound t n \<longleftrightarrow> n = getSlotOwner t" if "n \<in> {0, 1, 2, 3}" for n
    using that by (subst inBound_iff) auto
qed (rule getSlotOwner_eq)

theorem slot_owner_unique_witness: "inBound 130 2 \<and> getSlotOwner 130 = 2"
  using slot_owner_unique [of 130] by simp

text \<open>At the start of a slot \<open>setSlotType\<close> gives the slot to write-backs in every second period and
  to demand requests in the others, whatever the token was; within a slot the token stays.\<close>

lemma slot_type_alternates:
  "setSlotType rnd t v = (if isStartOfSlot t then odd (unat t div 200) else v)"
  by (simp add: setSlotType_eq isStartOfSlot_iff)

text \<open>\<open>getNearestSlot\<close> is the next cycle, strictly later, at which a slot of the core starts, and it
  is at most one period away (for cycles below 2 to the 32 less two periods).\<close>

lemma nearest_slot_is_next:
  assumes "unat t < 2 ^ 32 - 400" and "n < 4"
  shows "unat t < unat (getNearestSlot t (int n)) \<and> unat (getNearestSlot t (int n)) \<le> unat t + 200 \<and>
    isStartOfSlot (getNearestSlot t (int n)) \<and> getSlotOwner (getNearestSlot t (int n)) = int n \<and>
    (\<forall>u. t < u \<and> u < getNearestSlot t (int n) \<longrightarrow> \<not> (isStartOfSlot u \<and> getSlotOwner u = int n))"
proof -
  let ?s = "getNearestSlot t (int n)"
  have s: "unat t < unat ?s" "unat ?s \<le> unat t + 200" "unat ?s mod 200 = 50 * n"
    using getNearestSlot_spec [OF assms] by blast+
  have "\<not> (isStartOfSlot u \<and> getSlotOwner u = int n)" if u: "t < u \<and> u < ?s" for u
  proof
    assume "isStartOfSlot u \<and> getSlotOwner u = int n"
    then have "unat u mod 200 = unat ?s mod 200" using slot_start_of [OF assms(2)] s(3) by simp
    then have "unat u + 200 \<le> unat ?s" using u by (intro mod_eq_apart) (simp_all add: word_less_nat_alt)
    then show False using s(2) u by (simp add: word_less_nat_alt)
  qed
  then show ?thesis using s slot_start_of [OF assms(2), of ?s] by simp
qed






end
