(* ===== verification/Std_Heap.thy ===== *)
theory Std_Heap
  imports Ruby_Prelude
begin

text \<open>
  The heap algorithms of the C++ standard library that the message buffer calls on its queue,
  \<open>std::push_heap\<close> and \<open>std::pop_heap\<close>, with the sift loops of libstdc++ (the value moves towards
  the root, or a hole moves to a leaf and the value up from there). The comparison may fail:
  the one on message buffer nodes holds an assertion. The lemmas are proved once, in a locale for
  comparisons that order the elements by a key and fail on equal keys only.
\<close>

section \<open>The algorithms\<close>

definition heap_parent :: "nat \<Rightarrow> nat" where
  "heap_parent i = (i - 1) div 2"

lemma heap_parent_less: "0 < i \<Longrightarrow> heap_parent i < i"
  by (simp add: heap_parent_def)

text \<open>\<open>push_heap_loop cmp xs h v\<close> moves a hole at \<open>h\<close> up until \<open>v\<close> may stand there.\<close>

function push_heap_loop :: "('a \<Rightarrow> 'a \<Rightarrow> bool result) \<Rightarrow> 'a list \<Rightarrow> nat \<Rightarrow> 'a \<Rightarrow> 'a list result" where
  "push_heap_loop cmp xs h v =
     (if h = 0 then Inr (xs[h := v])
      else let p = heap_parent h
           in rbind (cmp (xs ! p) v) (\<lambda>b.
                if b then push_heap_loop cmp (xs[h := xs ! p]) p v else Inr (xs[h := v])))"
  by pat_completeness auto
termination by (relation "measure (\<lambda>(cmp, xs, h, v). h)") (auto simp: heap_parent_less)

declare push_heap_loop.simps [simp del]

definition push_heap :: "('a \<Rightarrow> 'a \<Rightarrow> bool result) \<Rightarrow> 'a list \<Rightarrow> 'a list result" where
  "push_heap cmp xs =
     (if xs = [] then Inr xs else push_heap_loop cmp xs (length xs - 1) (last xs))"

text \<open>\<open>adjust_loop cmp xs h len\<close> moves a hole at \<open>h\<close> down to a leaf, following the child that
  the comparison prefers, and returns the hole's last position.\<close>

function adjust_loop :: "('a \<Rightarrow> 'a \<Rightarrow> bool result) \<Rightarrow> 'a list \<Rightarrow> nat \<Rightarrow> nat \<Rightarrow> ('a list \<times> nat) result" where
  "adjust_loop cmp xs h len =
     (if h < (len - 1) div 2
      then let c = 2 * (h + 1)
           in rbind (cmp (xs ! c) (xs ! (c - 1))) (\<lambda>b.
                let c' = (if b then c - 1 else c) in adjust_loop cmp (xs[h := xs ! c']) c' len)
      else if even len \<and> 2 \<le> len \<and> h = (len - 2) div 2
      then Inr (xs[h := xs ! (2 * h + 1)], 2 * h + 1)
      else Inr (xs, h))"
  by pat_completeness auto
termination by (relation "measure (\<lambda>(cmp, xs, h, len). len - h)") (auto split: if_splits)

declare adjust_loop.simps [simp del]

definition adjust_heap :: "('a \<Rightarrow> 'a \<Rightarrow> bool result) \<Rightarrow> 'a list \<Rightarrow> 'a \<Rightarrow> 'a list result" where
  "adjust_heap cmp xs v = rbind (adjust_loop cmp xs 0 (length xs)) (\<lambda>(ys, h).
     push_heap_loop cmp ys h v)"

definition pop_heap :: "('a \<Rightarrow> 'a \<Rightarrow> bool result) \<Rightarrow> 'a list \<Rightarrow> 'a list result" where
  "pop_heap cmp xs =
     (if 1 < length xs
      then rbind (adjust_heap cmp (butlast xs) (last xs)) (\<lambda>ys. Inr (ys @ [hd xs]))
      else Inr xs)"

section \<open>Correctness for comparisons by a key\<close>

definition is_heap :: "('a \<Rightarrow> 'k::linorder) \<Rightarrow> 'a list \<Rightarrow> bool" where
  "is_heap key xs \<longleftrightarrow> (\<forall>i. 0 < i \<and> i < length xs \<longrightarrow> key (xs ! (heap_parent i)) \<le> key (xs ! i))"

text \<open>Every edge holds but the one above \<open>h\<close>, and the parent of \<open>h\<close> is below the children of \<open>h\<close>.\<close>

definition heap_but :: "('a \<Rightarrow> 'k::linorder) \<Rightarrow> 'a list \<Rightarrow> nat \<Rightarrow> bool" where
  "heap_but key zs h \<longleftrightarrow> (\<forall>i. 0 < i \<and> i < length zs \<longrightarrow>
     (i \<noteq> h \<longrightarrow> key (zs ! (heap_parent i)) \<le> key (zs ! i)) \<and>
     (0 < h \<and> heap_parent i = h \<longrightarrow> key (zs ! (heap_parent h)) \<le> key (zs ! i)))"

text \<open>Every edge holds but those at the hole \<open>h\<close>, whose parent is below its children.\<close>

definition heap_hole :: "('a \<Rightarrow> 'k::linorder) \<Rightarrow> 'a list \<Rightarrow> nat \<Rightarrow> bool" where
  "heap_hole key xs h \<longleftrightarrow> (\<forall>i. 0 < i \<and> i < length xs \<longrightarrow>
     (i \<noteq> h \<and> heap_parent i \<noteq> h \<longrightarrow> key (xs ! heap_parent i) \<le> key (xs ! i)) \<and>
     (0 < h \<and> heap_parent i = h \<longrightarrow> key (xs ! heap_parent h) \<le> key (xs ! i)))"

lemma heap_parent_iff: "0 < i \<Longrightarrow> heap_parent i = h \<longleftrightarrow> i = 2 * h + 1 \<or> i = 2 * h + 2"
  unfolding heap_parent_def by presburger

lemma heap_hole_down:
  assumes "heap_hole key xs h" and c: "0 < c" "c < length xs" "heap_parent c = h"
    and least: "\<And>i. 0 < i \<Longrightarrow> i < length xs \<Longrightarrow> heap_parent i = h \<Longrightarrow> key (xs ! c) \<le> key (xs ! i)"
  shows "heap_hole key (xs[h := xs ! c]) c"
  unfolding heap_hole_def
proof (intro allI impI conjI)
  have h: "h < c" "h < length xs" using heap_parent_less [OF c(1)] c by auto
  have edge: "key (xs ! heap_parent i) \<le> key (xs ! i)"
    if "0 < i" "i < length xs" "i \<noteq> h" "heap_parent i \<noteq> h" for i
    using assms(1) that by (simp add: heap_hole_def)
  fix i assume "0 < i \<and> i < length (xs[h := xs ! c])"
  then have i: "0 < i" "i < length xs" "heap_parent i < i" using heap_parent_less [of i] by auto
  show "key (xs[h := xs ! c] ! heap_parent i) \<le> key (xs[h := xs ! c] ! i)"
    if "i \<noteq> c \<and> heap_parent i \<noteq> c"
  proof -
    consider "i = h" | "i \<noteq> h" "heap_parent i = h" | "i \<noteq> h" "heap_parent i \<noteq> h" by blast
    then show ?thesis
    proof cases
      case 1
      then have "key (xs ! heap_parent h) \<le> key (xs ! c)" using assms(1) c i by (simp add: heap_hole_def)
      then show ?thesis using 1 i h by simp
    next
      case 2
      then show ?thesis using least [OF i(1,2)] h by simp
    next
      case 3
      then show ?thesis using edge [OF i(1,2)] by simp
    qed
  qed
  show "key (xs[h := xs ! c] ! heap_parent c) \<le> key (xs[h := xs ! c] ! i)" if "0 < c \<and> heap_parent i = c"
  proof -
    have "i \<noteq> h" "heap_parent i \<noteq> h" using that h i by auto
    then show ?thesis using edge [OF i(1,2)] c(3) that h by simp
  qed
qed

locale keyed_comparison =
  fixes cmp :: "'a \<Rightarrow> 'a \<Rightarrow> bool result" and key :: "'a \<Rightarrow> 'k::linorder"
  assumes cmp_key: "key a \<noteq> key b \<Longrightarrow> cmp a b = Inr (key b < key a)"
begin

abbreviation keys_distinct :: "'a list \<Rightarrow> bool" where
  "keys_distinct xs \<equiv> distinct (map key xs)"

lemma keys_neq: "keys_distinct xs \<Longrightarrow> i < length xs \<Longrightarrow> j < length xs \<Longrightarrow> i \<noteq> j \<Longrightarrow> key (xs ! i) \<noteq> key (xs ! j)"
  using nth_eq_iff_index_eq [of "map key xs" i j] by simp

lemma keys_distinct_mset: "mset xs = mset ys \<Longrightarrow> keys_distinct xs \<longleftrightarrow> keys_distinct ys"
  by (rule mset_eq_imp_distinct_iff) simp

lemma heap_but_up:
  assumes "heap_but key zs h" and "0 < h" and "h < length zs"
    and less: "key (zs ! h) < key (zs ! (heap_parent h))"
  shows "heap_but key (zs[h := zs ! (heap_parent h), heap_parent h := zs ! h]) (heap_parent h)"
proof -
  define p where "p = heap_parent h"
  have p: "p < h" "p < length zs" "p \<noteq> h" using assms(2,3) heap_parent_less [of h] by (auto simp: p_def)
  let ?zs = "zs[h := zs ! p, p := zs ! h]"
  have nth: "?zs ! i = (if i = p then zs ! h else if i = h then zs ! p else zs ! i)" if "i < length zs" for i
    using that by (simp add: nth_list_update)
  have edge: "key (zs ! heap_parent i) \<le> key (zs ! i)" if "0 < i" "i < length zs" "i \<noteq> h" for i
    using assms(1) that by (simp add: heap_but_def)
  have below: "key (zs ! p) \<le> key (zs ! i)" if "0 < i" "i < length zs" "heap_parent i = h" for i
    using assms(1,2) that by (simp add: heap_but_def p_def)
  have less': "key (zs ! h) \<le> key (zs ! p)" using less by (simp add: p_def)
  have "key (?zs ! heap_parent i) \<le> key (?zs ! i)" if i: "0 < i" "i < length zs" "i \<noteq> p" for i
  proof -
    have q: "heap_parent i < i" "heap_parent i < length zs" using heap_parent_less [OF i(1)] i(2) by auto
    consider "i = h" | "i \<noteq> h" "heap_parent i = h" | "i \<noteq> h" "heap_parent i = p" "p \<noteq> h"
      | "i \<noteq> h" "heap_parent i \<noteq> h" "heap_parent i \<noteq> p" using p by blast
    then show ?thesis
    proof cases
      case 1
      then show ?thesis using p less' assms(3) by (simp add: p_def [symmetric])
    next
      case 2
      then show ?thesis using below [OF i(1,2)] i p assms(3) by (simp add: nth)
    next
      case 3
      then show ?thesis using edge [OF i(1,2)] less' i q by (simp add: nth)
    next
      case 4
      then show ?thesis using edge [OF i(1,2)] i q by (simp add: nth)
    qed
  qed
  moreover have "key (?zs ! heap_parent p) \<le> key (?zs ! i)"
    if i: "0 < i" "i < length zs" "heap_parent i = p" "0 < p" for i
  proof -
    have q: "heap_parent p < p" using heap_parent_less [OF i(4)] .
    have top: "key (zs ! heap_parent p) \<le> key (zs ! p)" using edge [of p] i p by simp
    have "p \<noteq> i" using heap_parent_less [OF i(1)] i(3) by simp
    then show ?thesis
      using edge [OF i(1,2)] top i q p by (cases "i = h") (simp_all add: nth)
  qed
  ultimately show ?thesis unfolding heap_but_def p_def by (simp only: length_list_update) blast
qed

lemma heap_but_done:
  assumes "heap_but key zs h" and "0 < h \<longrightarrow> key (zs ! (heap_parent h)) \<le> key (zs ! h)"
  shows "is_heap key zs"
  unfolding is_heap_def
proof (intro allI impI)
  show "key (zs ! heap_parent i) \<le> key (zs ! i)" if "0 < i \<and> i < length zs" for i
    using assms that by (cases "i = h") (simp_all add: heap_but_def)
qed

lemma push_heap_loop_spec:
  assumes "h < length xs" and "keys_distinct (xs[h := v])" and "heap_but key (xs[h := v]) h"
  shows "\<exists>ys. push_heap_loop cmp xs h v = Inr ys \<and> mset ys = mset (xs[h := v]) \<and> is_heap key ys"
  using assms
proof (induction h arbitrary: xs rule: less_induct)
  case (less h)
  let ?p = "heap_parent h"
  show ?case
  proof (cases "h = 0")
    case True
    then show ?thesis using heap_but_done [OF less.prems(3)] by (simp add: push_heap_loop.simps)
  next
    case False
    then have p: "?p < h" "?p < length xs" using less.prems(1) heap_parent_less [of h] by auto
    have "key (xs ! ?p) \<noteq> key v"
      using keys_neq [OF less.prems(2), of ?p h] p less.prems(1) by simp
    then have cmp: "cmp (xs ! ?p) v = Inr (key v < key (xs ! ?p))" by (rule cmp_key)
    show ?thesis
    proof (cases "key v < key (xs ! ?p)")
      case True
      have swap: "(xs[h := xs ! ?p])[?p := v] = (xs[h := v])[h := xs[h := v] ! ?p, ?p := xs[h := v] ! h]"
        using p less.prems(1) by simp
      have m: "mset (xs[h := xs ! ?p, ?p := v]) = mset (xs[h := v])"
        using p less.prems(1) by (intro mset_update_swap) auto
      have "\<exists>ys. push_heap_loop cmp (xs[h := xs ! ?p]) ?p v = Inr ys \<and>
          mset ys = mset (xs[h := xs ! ?p, ?p := v]) \<and> is_heap key ys"
      proof (rule less.IH)
        show "heap_but key (xs[h := xs ! ?p, ?p := v]) ?p"
          unfolding swap using less.prems False True p
          by (intro heap_but_up) auto
        show "keys_distinct (xs[h := xs ! ?p, ?p := v])"
          using keys_distinct_mset [OF m] less.prems(2) by simp
      qed (use p in simp_all)
      then show ?thesis using m cmp True False by (simp add: push_heap_loop.simps [of cmp xs h] Let_def)
    next
      case no: False
      have "is_heap key (xs[h := v])"
        using no p less.prems(1) by (intro heap_but_done [OF less.prems(3)]) simp
      then show ?thesis using cmp no False by (simp add: push_heap_loop.simps [of cmp xs h] Let_def)
    qed
  qed
qed

lemma push_heap_spec:
  assumes "is_heap key xs" and "keys_distinct (xs @ [v])"
  shows "\<exists>ys. push_heap cmp (xs @ [v]) = Inr ys \<and> mset ys = add_mset v (mset xs) \<and> is_heap key ys"
proof -
  have "heap_but key ((xs @ [v])[length xs := v]) (length xs)"
    unfolding heap_but_def
  proof (intro allI impI conjI)
    fix i assume i: "0 < i \<and> i < length ((xs @ [v])[length xs := v])"
    then have "heap_parent i < length xs" using heap_parent_less [of i] by simp
    with i show "key ((xs @ [v])[length xs := v] ! heap_parent i) \<le> key ((xs @ [v])[length xs := v] ! i)"
      if "i \<noteq> length xs"
      using that assms(1) by (simp add: is_heap_def nth_append)
    with i \<open>heap_parent i < length xs\<close>
    show "key ((xs @ [v])[length xs := v] ! heap_parent (length xs)) \<le> key ((xs @ [v])[length xs := v] ! i)"
      if "0 < length xs \<and> heap_parent i = length xs"
      using that by simp
  qed
  then show ?thesis
    using push_heap_loop_spec [of "length xs" "xs @ [v]" v] assms(2) by (simp add: push_heap_def)
qed

lemma adjust_loop_spec:
  assumes "h < length xs" and "keys_distinct (xs[h := v])" and "heap_hole key xs h"
  shows "\<exists>ys k. adjust_loop cmp xs h (length xs) = Inr (ys, k) \<and> length ys = length xs \<and> k < length xs \<and>
    mset (ys[k := v]) = mset (xs[h := v]) \<and> heap_hole key ys k \<and> length xs \<le> 2 * k + 1"
  using assms
proof (induction "length xs - h" arbitrary: xs h rule: less_induct)
  case less
  let ?n = "length xs" and ?c = "2 * (h + 1)"
  have step: "heap_hole key (xs[h := xs ! c]) c" "mset (xs[h := xs ! c, c := v]) = mset (xs[h := v])"
    if "heap_parent c = h" "0 < c" "c < ?n"
      "\<forall>i. 0 < i \<and> i < ?n \<and> heap_parent i = h \<longrightarrow> key (xs ! c) \<le> key (xs ! i)" for c
  proof -
    show "heap_hole key (xs[h := xs ! c]) c" using heap_hole_down [OF less.prems(3)] that by blast
    have "h \<noteq> c" using heap_parent_less [of c] that by auto
    then show "mset (xs[h := xs ! c, c := v]) = mset (xs[h := v])"
      using that less.prems(1) by (intro mset_update_swap) auto
  qed
  have child: "i = 2 * h + 1 \<or> i = 2 * h + 2" if "0 < i \<and> i < ?n \<and> heap_parent i = h" for i
    using that heap_parent_iff [of i h] by simp
  consider (two) "h < (?n - 1) div 2" | (one) "\<not> h < (?n - 1) div 2" "even ?n" "2 \<le> ?n" "h = (?n - 2) div 2"
    | (leaf) "\<not> h < (?n - 1) div 2" "\<not> (even ?n \<and> 2 \<le> ?n \<and> h = (?n - 2) div 2)" by blast
  then show ?case
  proof cases
    case two
    then have c: "?c < ?n" "?c - 1 < ?n" by auto
    have "key (xs ! ?c) \<noteq> key (xs ! (?c - 1))"
      using keys_neq [OF less.prems(2), of ?c "?c - 1"] c by simp
    then have cmp: "cmp (xs ! ?c) (xs ! (?c - 1)) = Inr (key (xs ! (?c - 1)) < key (xs ! ?c))" by (rule cmp_key)
    define c where "c = (if key (xs ! (?c - 1)) < key (xs ! ?c) then ?c - 1 else ?c)"
    have pc: "heap_parent c = h" "0 < c" "c < ?n" "h < c" using c by (auto simp: c_def heap_parent_iff)
    have least: "\<forall>i. 0 < i \<and> i < ?n \<and> heap_parent i = h \<longrightarrow> key (xs ! c) \<le> key (xs ! i)"
    proof (intro allI impI)
      fix i assume "0 < i \<and> i < ?n \<and> heap_parent i = h"
      from child [OF this] show "key (xs ! c) \<le> key (xs ! i)" by (auto simp: c_def not_less)
    qed
    note st = step [OF pc(1-3) least]
    have "\<exists>ys k. adjust_loop cmp (xs[h := xs ! c]) c (length (xs[h := xs ! c])) = Inr (ys, k) \<and>
        length ys = length (xs[h := xs ! c]) \<and> k < length (xs[h := xs ! c]) \<and>
        mset (ys[k := v]) = mset (xs[h := xs ! c, c := v]) \<and> heap_hole key ys k \<and>
        length (xs[h := xs ! c]) \<le> 2 * k + 1"
    proof (rule less.hyps)
      show "length (xs[h := xs ! c]) - c < length xs - h" using pc by simp
      show "keys_distinct (xs[h := xs ! c, c := v])"
        using keys_distinct_mset [OF st(2)] less.prems(2) by simp
    qed (use pc st(1) in simp_all)
    moreover have "adjust_loop cmp xs h ?n = adjust_loop cmp (xs[h := xs ! c]) c ?n"
      using two cmp by (subst adjust_loop.simps) (simp add: Let_def c_def)
    ultimately show ?thesis by (simp add: st(2))
  next
    case one
    then have c: "2 * h + 1 < ?n" "?n = 2 * h + 2" by auto
    have least: "\<forall>i. 0 < i \<and> i < ?n \<and> heap_parent i = h \<longrightarrow> key (xs ! (2 * h + 1)) \<le> key (xs ! i)"
    proof (intro allI impI)
      fix i assume i: "0 < i \<and> i < ?n \<and> heap_parent i = h"
      from child [OF i] show "key (xs ! (2 * h + 1)) \<le> key (xs ! i)" using c(2) i by (elim disjE) simp_all
    qed
    have "heap_parent (2 * h + 1) = h" by (simp add: heap_parent_iff)
    note st = step [OF this _ c(1) least]
    have "adjust_loop cmp xs h ?n = Inr (xs[h := xs ! (2 * h + 1)], 2 * h + 1)"
      using one by (subst adjust_loop.simps) simp
    then show ?thesis using st c by simp
  next
    case leaf
    then have "?n \<le> 2 * h + 1" by (cases "even ?n") (auto elim!: evenE oddE)
    moreover have "adjust_loop cmp xs h ?n = Inr (xs, h)" using leaf by (subst adjust_loop.simps) auto
    ultimately show ?thesis using less.prems by simp
  qed
qed

lemma adjust_heap_spec:
  assumes "xs \<noteq> []" and "keys_distinct (xs[0 := v])" and "heap_hole key xs 0"
  shows "\<exists>ys. adjust_heap cmp xs v = Inr ys \<and> mset ys = mset (xs[0 := v]) \<and> is_heap key ys"
proof -
  obtain ys k where y: "adjust_loop cmp xs 0 (length xs) = Inr (ys, k)" "length ys = length xs"
    "k < length xs" "mset (ys[k := v]) = mset (xs[0 := v])" "heap_hole key ys k" "length xs \<le> 2 * k + 1"
    using adjust_loop_spec [of 0 xs v] assms by auto
  have "heap_but key (ys[k := v]) k"
    unfolding heap_but_def
  proof (intro allI impI conjI)
    fix i assume i: "0 < i \<and> i < length (ys[k := v])"
    then have nk: "heap_parent i \<noteq> k" using y(2,6) by (simp add: heap_parent_iff)
    show "key (ys[k := v] ! heap_parent i) \<le> key (ys[k := v] ! i)" if "i \<noteq> k"
      using i nk that y(5) by (simp add: heap_hole_def)
    show "key (ys[k := v] ! heap_parent k) \<le> key (ys[k := v] ! i)" if "0 < k \<and> heap_parent i = k"
      using nk that by simp
  qed
  moreover have "keys_distinct (ys[k := v])" using keys_distinct_mset [OF y(4)] assms(2) by simp
  ultimately show ?thesis
    using push_heap_loop_spec [of k ys v] y by (simp add: adjust_heap_def)
qed

lemma is_heap_butlast_hole: "is_heap key xs \<Longrightarrow> heap_hole key (butlast xs) 0"
  unfolding heap_hole_def
proof (intro allI impI conjI)
  fix i assume heap: "is_heap key xs" and "0 < i \<and> i < length (butlast xs)"
  then have i: "0 < i" "i < length xs - 1" "heap_parent i < length xs - 1"
    using heap_parent_less [of i] by auto
  then show "key (butlast xs ! heap_parent i) \<le> key (butlast xs ! i)"
    using heap by (simp add: nth_butlast is_heap_def)
qed simp

lemma pop_heap_spec:
  assumes "is_heap key xs" and "keys_distinct xs" and "xs \<noteq> []"
  shows "\<exists>ys. pop_heap cmp xs = Inr (ys @ [hd xs]) \<and> mset xs = add_mset (hd xs) (mset ys) \<and> is_heap key ys"
proof (cases "1 < length xs")
  case True
  obtain x ws where ws: "xs = x # ws" using assms(3) by (cases xs) auto
  then obtain ys z where xs: "xs = x # ys @ [z]" using True by (cases ws rule: rev_cases) auto
  have "heap_hole key (x # ys) 0" using is_heap_butlast_hole [OF assms(1)] by (simp add: xs butlast_append)
  then obtain zs where "adjust_heap cmp (x # ys) z = Inr zs" "mset zs = mset (z # ys)" "is_heap key zs"
    using adjust_heap_spec [of "x # ys" z] assms(2) by (auto simp: xs)
  then show ?thesis by (simp add: pop_heap_def xs butlast_append)
next
  case False
  then obtain x where "xs = [x]" using assms(3) by (cases xs) auto
  then show ?thesis by (intro exI [of _ "[]"]) (simp add: pop_heap_def is_heap_def)
qed

lemma heap_root_least:
  assumes "is_heap key xs" and "i < length xs"
  shows "key (hd xs) \<le> key (xs ! i)"
  using assms(2)
proof (induction i rule: less_induct)
  case (less i)
  show ?case
  proof (cases "i = 0")
    case True
    then show ?thesis using less.prems by (simp add: hd_conv_nth)
  next
    case False
    then have "heap_parent i < i" by (simp add: heap_parent_less)
    then have "key (hd xs) \<le> key (xs ! heap_parent i)" using less by simp
    also have "\<dots> \<le> key (xs ! i)" using assms(1) False less.prems by (simp add: is_heap_def)
    finally show ?thesis .
  qed
qed

end

section \<open>Any comparison\<close>

text \<open>The heap operations permute the vector, whatever the comparison answers.\<close>

lemma push_heap_loop_mset: "push_heap_loop cmp xs h v = Inr ys \<Longrightarrow> h < length xs \<Longrightarrow> mset ys = mset (xs[h := v])"
proof (induction h arbitrary: xs rule: less_induct)
  case (less h)
  show ?case
  proof (cases "h = 0")
    case True
    then show ?thesis using less.prems(1) by (simp add: push_heap_loop.simps)
  next
    case False
    then have p: "heap_parent h < h" "heap_parent h < length xs" using less.prems(2) heap_parent_less [of h] by auto
    obtain b where b: "cmp (xs ! heap_parent h) v = Inr b"
      using less.prems(1) False by (subst (asm) push_heap_loop.simps) (auto simp: Let_def)
    show ?thesis
    proof (cases b)
      case True
      then have "push_heap_loop cmp (xs[h := xs ! heap_parent h]) (heap_parent h) v = Inr ys"
        using less.prems(1) False b by (subst (asm) push_heap_loop.simps) (simp add: Let_def)
      from less.IH [OF p(1) this] p(2) have "mset ys = mset (xs[h := xs ! heap_parent h, heap_parent h := v])" by simp
      also have "\<dots> = mset (xs[h := v])" using p less.prems(2) by (intro mset_update_swap) auto
      finally show ?thesis .
    next
      case no: False
      then show ?thesis using less.prems(1) False b by (subst (asm) push_heap_loop.simps) (simp add: Let_def)
    qed
  qed
qed

lemma push_heap_mset: "push_heap cmp xs = Inr ys \<Longrightarrow> mset ys = mset xs"
  using push_heap_loop_mset [of cmp xs "length xs - 1" "last xs" ys]
  by (cases "xs = []") (simp_all add: push_heap_def last_conv_nth)

lemma adjust_loop_mset:
  assumes "adjust_loop cmp xs h len = Inr (ys, k)" and "h < length xs" and "len \<le> length xs"
  shows "k < length xs \<and> length ys = length xs \<and> mset (ys[k := v]) = mset (xs[h := v])"
  using assms
proof (induction "len - h" arbitrary: xs h rule: less_induct)
  case less
  consider (two) "h < (len - 1) div 2" | (one) "\<not> h < (len - 1) div 2" "even len \<and> 2 \<le> len \<and> h = (len - 2) div 2"
    | (leaf) "\<not> h < (len - 1) div 2" "\<not> (even len \<and> 2 \<le> len \<and> h = (len - 2) div 2)" by blast
  then show ?case
  proof cases
    case two
    let ?c = "2 * (h + 1)"
    obtain b where b: "cmp (xs ! ?c) (xs ! (?c - 1)) = Inr b"
      using less.prems(1) two by (subst (asm) adjust_loop.simps) (auto simp: Let_def)
    define c where "c = (if b then ?c - 1 else ?c)"
    have c: "h < c" "c < length xs" "c < len" using two less.prems(3) by (auto simp: c_def)
    have "adjust_loop cmp (xs[h := xs ! c]) c len = Inr (ys, k)"
      using less.prems(1) two b by (subst (asm) adjust_loop.simps) (auto simp: Let_def c_def split: if_splits)
    from less.hyps [OF _ this] c less.prems(3)
    have "k < length xs \<and> length ys = length xs \<and> mset (ys[k := v]) = mset (xs[h := xs ! c, c := v])" by auto
    moreover have "mset (xs[h := xs ! c, c := v]) = mset (xs[h := v])" using c by (intro mset_update_swap) auto
    ultimately show ?thesis by simp
  next
    case one
    then have c: "2 * h + 1 < len" by auto
    have "ys = xs[h := xs ! (2 * h + 1)]" "k = 2 * h + 1"
      using less.prems(1) one by (subst (asm) adjust_loop.simps; auto)+
    moreover have "mset (xs[h := xs ! (2 * h + 1), 2 * h + 1 := v]) = mset (xs[h := v])"
      using c less.prems(3) by (intro mset_update_swap) auto
    ultimately show ?thesis using c less.prems(3) by simp
  next
    case leaf
    then have "ys = xs" "k = h" using less.prems(1) by (subst (asm) adjust_loop.simps; auto)+
    then show ?thesis using less.prems(2) by simp
  qed
qed

lemma pop_heap_mset:
  assumes "pop_heap cmp xs = Inr ys" and "xs \<noteq> []"
  shows "ys \<noteq> []" and "mset xs = add_mset (hd xs) (mset (butlast ys))"
proof -
  have "ys \<noteq> [] \<and> mset xs = add_mset (hd xs) (mset (butlast ys))"
  proof (cases "1 < length xs")
    case True
    then obtain x zs l where xs: "xs = x # zs @ [l]" using assms(2) by (cases xs; cases "tl xs" rule: rev_cases) auto
    obtain zs' where zs': "adjust_heap cmp (x # zs) l = Inr zs'" "ys = zs' @ [x]"
      using assms(1) True by (auto simp: pop_heap_def xs butlast_append)
    obtain us k where us: "adjust_loop cmp (x # zs) 0 (length (x # zs)) = Inr (us, k)" "push_heap_loop cmp us k l = Inr zs'"
      using zs'(1) by (auto simp: adjust_heap_def)
    have a: "k < length (x # zs) \<and> length us = length (x # zs) \<and> mset (us[k := l]) = mset ((x # zs)[0 := l])"
      by (rule adjust_loop_mset [OF us(1)]) simp_all
    then have "mset zs' = mset (us[k := l])" using push_heap_loop_mset [OF us(2)] by simp
    then show ?thesis using a zs'(2) xs by simp
  next
    case False
    then obtain x where "xs = [x]" using assms(2) by (cases xs) auto
    then show ?thesis using assms(1) by (auto simp: pop_heap_def)
  qed
  then show "ys \<noteq> []" "mset xs = add_mset (hd xs) (mset (butlast ys))" by auto
qed

end
