(* ===== verification/Ruby_Address.thy ===== *)
theory Ruby_Address
  imports Ruby_Prelude
begin

text \<open>
  Addresses, block geometry and the integer helpers they rest on:
  src/gem5-stable/src/base/intmath.hh (\<open>leastSigBit\<close>, \<open>isPowerOf2\<close>, \<open>floorLog2\<close>), the static
  configuration of src/gem5-stable/src/mem/ruby/system/System.cc, and the class \<open>Address\<close> of
  src/gem5-stable/src/mem/ruby/common/Address.hh and Address.cc. The lemmas show that an address
  splits into its line address and its offset, that \<open>bitSelect\<close> reads the bits it names, and
  what \<open>bitRemove\<close> and \<open>makeNextStrideAddress\<close> do at the corners of their domains.
\<close>

unbundle bit_operations_syntax

section \<open>Integer helpers (base/intmath.hh)\<close>

definition leastSigBit :: "u32 \<Rightarrow> u32" where
  "leastSigBit n = n AND NOT (n - 1)"

definition isPowerOf2 :: "u32 \<Rightarrow> bool" where
  "isPowerOf2 n \<longleftrightarrow> n \<noteq> 0 \<and> leastSigBit n = n"

definition floorLog2 :: "u32 \<Rightarrow> nat result" where
  "floorLog2 x0 = ensure (0 < x0) AssertFailed (
     let (y1, x1) = (if x0 AND 0xffff0000 \<noteq> 0 then (16, drop_bit 16 x0) else (0, x0));
         (y2, x2) = (if x1 AND 0x0000ff00 \<noteq> 0 then (y1 + 8, drop_bit 8 x1) else (y1, x1));
         (y3, x3) = (if x2 AND 0x000000f0 \<noteq> 0 then (y2 + 4, drop_bit 4 x2) else (y2, x2));
         (y4, x4) = (if x3 AND 0x0000000c \<noteq> 0 then (y3 + 2, drop_bit 2 x3) else (y3, x3));
         y5 = (if x4 AND 0x00000002 \<noteq> 0 then y4 + 1 else y4)
     in Inr y5)"

section \<open>Static configuration (RubySystem)\<close>

record ruby_system =
  m_block_size_bytes :: u32
  m_block_size_bits :: nat
  m_memory_size_bits :: nat
  m_randomization :: bool
  m_warmup_enabled :: bool
  m_cooldown_enabled :: bool

definition RubySystem_new :: "u32 \<Rightarrow> nat \<Rightarrow> bool \<Rightarrow> ruby_system result" where
  "RubySystem_new block_size_bytes memory_size_bits randomization =
     ensure (isPowerOf2 block_size_bytes) AssertFailed (
     rbind (floorLog2 block_size_bytes) (\<lambda>bits.
     Inr \<lparr>m_block_size_bytes = block_size_bytes, m_block_size_bits = bits,
          m_memory_size_bits = memory_size_bits, m_randomization = randomization,
          m_warmup_enabled = False, m_cooldown_enabled = False\<rparr>))"

section \<open>The class Address\<close>

definition ADDRESS_WIDTH :: nat where
  "ADDRESS_WIDTH = 64"

text \<open>A shift by at least 64 is undefined in C++; the model returns \<open>UndefinedShift\<close> there.\<close>

definition bitSelect :: "addr \<Rightarrow> nat \<Rightarrow> nat \<Rightarrow> u64 result" where
  "bitSelect m_address small big =
     ensure (small \<le> big) AssertFailed (
     if ADDRESS_WIDTH - 1 \<le> big
     then ensure (small < 64) UndefinedShift (Inr (drop_bit small m_address))
     else (let mask = NOT (push_bit (big + 1) (- 1));
               partial = m_address AND mask
           in Inr (drop_bit small partial)))"

definition bitRemove :: "addr \<Rightarrow> nat \<Rightarrow> nat \<Rightarrow> u64 result" where
  "bitRemove m_address small big =
     ensure (small \<le> big) AssertFailed (Inr (
     if ADDRESS_WIDTH - 1 \<le> small then m_address
     else if ADDRESS_WIDTH - 1 \<le> big then m_address AND drop_bit small (- 1)
     else if small = 0 then m_address AND push_bit big (- 1)
     else (let lower_bits = m_address AND NOT (push_bit small (- 1));
               higher_bits = m_address AND push_bit (big + 1) (- 1);
               higher_bits' = drop_bit (big - small + 1) higher_bits
           in higher_bits' OR lower_bits)))"

definition maskLowOrderBits :: "addr \<Rightarrow> nat \<Rightarrow> u64" where
  "maskLowOrderBits m_address number =
     m_address AND (if ADDRESS_WIDTH - 1 \<le> number then - 1 else push_bit number (- 1))"

definition maskHighOrderBits :: "addr \<Rightarrow> nat \<Rightarrow> u64" where
  "maskHighOrderBits m_address number =
     m_address AND (if ADDRESS_WIDTH - 1 \<le> number then - 1 else drop_bit number (- 1))"

definition shiftLowOrderBits :: "addr \<Rightarrow> nat \<Rightarrow> u64 result" where
  "shiftLowOrderBits m_address number =
     ensure (number < 64) UndefinedShift (Inr (drop_bit number m_address))"

definition getLineAddress :: "ruby_system \<Rightarrow> addr \<Rightarrow> u64 result" where
  "getLineAddress rs a = bitSelect a (m_block_size_bits rs) ADDRESS_WIDTH"

text \<open>\<open>getBlockSizeBits() - 1\<close> is computed in \<open>uint32_t\<close>, so it wraps when the block has one byte.\<close>

definition getOffset :: "ruby_system \<Rightarrow> addr \<Rightarrow> u64 result" where
  "getOffset rs a =
     bitSelect a 0 (if m_block_size_bits rs = 0 then 2 ^ 32 - 1 else m_block_size_bits rs - 1)"

definition makeLineAddress :: "ruby_system \<Rightarrow> addr \<Rightarrow> addr" where
  "makeLineAddress rs a = maskLowOrderBits a (m_block_size_bits rs)"

text \<open>\<open>getBlockSizeBytes() * stride\<close> multiplies a \<open>uint32_t\<close> by an \<open>int\<close>: the product is a
  32-bit unsigned value, which is then zero-extended to 64 bits.\<close>

definition makeNextStrideAddress :: "ruby_system \<Rightarrow> addr \<Rightarrow> int \<Rightarrow> addr" where
  "makeNextStrideAddress rs a stride =
     maskLowOrderBits a (m_block_size_bits rs) + ucast (m_block_size_bytes rs * word_of_int stride)"

definition memoryModuleIndex :: "ruby_system \<Rightarrow> addr \<Rightarrow> int result" where
  "memoryModuleIndex rs a =
     rbind (bitSelect a (m_block_size_bits rs + m_memory_size_bits rs) ADDRESS_WIDTH) (\<lambda>w.
     ensure (0 \<le> sint w) AssertFailed (Inr (sint w)))"

definition setOffset :: "ruby_system \<Rightarrow> addr \<Rightarrow> int \<Rightarrow> addr" where
  "setOffset rs a off = makeLineAddress rs a OR word_of_int off"

definition line_address :: "ruby_system \<Rightarrow> addr \<Rightarrow> addr" where
  "line_address rs a = makeLineAddress rs a"

definition next_stride_address :: "ruby_system \<Rightarrow> addr \<Rightarrow> int \<Rightarrow> addr" where
  "next_stride_address rs a stride = makeNextStrideAddress rs a stride"

section \<open>Well-formed configurations\<close>

definition ruby_system_wf :: "ruby_system \<Rightarrow> bool" where
  "ruby_system_wf rs \<longleftrightarrow> m_block_size_bits rs < 32 \<and>
     unat (m_block_size_bytes rs) = 2 ^ m_block_size_bits rs"

text \<open>The configuration with the default 64-byte blocks of RubySystem.py.\<close>

definition ruby64 :: ruby_system where
  "ruby64 = \<lparr>m_block_size_bytes = 64, m_block_size_bits = 6, m_memory_size_bits = 32,
     m_randomization = False, m_warmup_enabled = False, m_cooldown_enabled = False\<rparr>"

lemma ruby64_wf [simp]: "ruby_system_wf ruby64"
  by (simp add: ruby64_def ruby_system_wf_def)

lemma ruby64_bits [simp]: "m_block_size_bits ruby64 = 6"
  by (simp add: ruby64_def)

lemma ruby64_bytes [simp]: "m_block_size_bytes ruby64 = 64"
  by (simp add: ruby64_def)

section \<open>The integer logarithm\<close>

definition floorLog2_inv :: "nat \<Rightarrow> nat \<Rightarrow> nat \<Rightarrow> nat \<Rightarrow> bool" where
  "floorLog2_inv n k y x \<longleftrightarrow> 0 < x \<and> x < 2 ^ k \<and> x = n div 2 ^ y"

lemma unat_less_power_iff_bit:
  "unat (x :: 'a::len word) < 2 ^ k \<longleftrightarrow> (\<forall>n. bit x n \<longrightarrow> n < k)"
proof -
  have "unat x < 2 ^ k \<longleftrightarrow> take_bit k (unat x) = unat x"
    by (simp add: take_bit_nat_eq_self_iff)
  also have "\<dots> \<longleftrightarrow> (\<forall>n. bit x n \<longrightarrow> n < k)"
    by (auto simp: bit_eq_iff bit_take_bit_iff bit_unsigned_iff dest: bit_imp_le_length)
  finally show ?thesis .
qed

lemma word_and_high_zero:
  fixes x :: "'a::len word"
  assumes bound: "unat x < 2 ^ (2 * k)"
  shows "x AND push_bit k (mask k) = 0 \<longleftrightarrow> unat x < 2 ^ k"
proof
  assume zero: "x AND push_bit k (mask k) = 0"
  have "n < k" if b: "bit x n" for n
  proof -
    have "n < 2 * k" using bound b by (simp add: unat_less_power_iff_bit)
    moreover have "n < LENGTH('a)" using b by (rule bit_imp_le_length)
    moreover have "\<not> bit (x AND push_bit k (mask k)) n" by (simp add: zero)
    ultimately show ?thesis using b by (auto simp: bit_simps)
  qed
  then show "unat x < 2 ^ k" by (simp add: unat_less_power_iff_bit)
next
  assume "unat x < 2 ^ k"
  then have "\<forall>n. bit x n \<longrightarrow> n < k" by (simp add: unat_less_power_iff_bit)
  then show "x AND push_bit k (mask k) = 0"
    by (intro bit_word_eqI) (auto simp: bit_simps)
qed

lemma floorLog2_step:
  fixes x :: "'a::len word"
  assumes inv: "floorLog2_inv n j y (unat x)" and j: "j = 2 * k" and m: "m = push_bit k (mask k)"
    and eq: "(y', x') = (if x AND m \<noteq> 0 then (y + k, drop_bit k x) else (y, x))"
  shows "floorLog2_inv n k y' (unat x')"
proof (cases "unat x < 2 ^ k")
  case True
  then have "x AND m = 0"
    using inv word_and_high_zero [of x k] by (simp add: floorLog2_inv_def j m)
  then show ?thesis using inv True eq by (simp add: floorLog2_inv_def)
next
  case False
  then have "x AND m \<noteq> 0"
    using inv word_and_high_zero [of x k] by (simp add: floorLog2_inv_def j m)
  then have eqs: "y' = y + k" "x' = drop_bit k x" using eq by simp_all
  have "0 < unat x div 2 ^ k" using False by (simp add: div_greater_zero_iff)
  moreover have "unat x div 2 ^ k < 2 ^ k"
    using inv by (simp add: floorLog2_inv_def j less_mult_imp_div_less mult_2 power_add)
  moreover have "unat x div 2 ^ k = n div 2 ^ y'"
    using inv by (simp add: eqs floorLog2_inv_def div_mult2_eq power_add)
  ultimately show ?thesis by (simp add: floorLog2_inv_def eqs word_drop_bit_unat)
qed

lemma floorLog2_inv_end:
  assumes "floorLog2_inv n 1 y x"
  shows "2 ^ y \<le> n \<and> n < 2 ^ (y + 1)"
proof -
  have "n div 2 ^ y = 1" using assms by (simp add: floorLog2_inv_def)
  then show ?thesis
    using mult_div_mod_eq [of "2 ^ y" n] mod_less_divisor [of "2 ^ y" n]
    by (simp del: mod_less_divisor)
qed

lemma pair_if_fst: "(p, q) = (if c then (a, b) else (a', b')) \<Longrightarrow> p = (if c then a else a')"
  by (simp split: if_splits)

lemma floorLog2_widths:
  "(32 :: nat) = 2 * 16" "(16 :: nat) = 2 * 8" "(8 :: nat) = 2 * 4" "(4 :: nat) = 2 * 2"
  "(2 :: nat) = 2 * 1"
  by simp_all

lemma floorLog2_masks:
  "(0xffff0000 :: u32) = push_bit 16 (mask 16)" "(0x0000ff00 :: u32) = push_bit 8 (mask 8)"
  "(0x000000f0 :: u32) = push_bit 4 (mask 4)" "(0x0000000c :: u32) = push_bit 2 (mask 2)"
  "(0x00000002 :: u32) = push_bit 1 (mask 1)"
  by (simp_all add: push_bit_eq_mult mask_eq_exp_minus_1)

lemma floorLog2_correct:
  assumes "0 < x"
  shows "\<exists>y. floorLog2 x = Inr y \<and> 2 ^ y \<le> unat x \<and> unat x < 2 ^ (y + 1)"
proof -
  obtain y1 x1 where s1:
    "(y1, x1) = (if x AND 0xffff0000 \<noteq> 0 then (0 + 16, drop_bit 16 x) else (0 :: nat, x))"
    by (rule that [OF prod.collapse])
  obtain y2 x2 where s2:
    "(y2, x2) = (if x1 AND 0x0000ff00 \<noteq> 0 then (y1 + 8, drop_bit 8 x1) else (y1, x1))"
    by (rule that [OF prod.collapse])
  obtain y3 x3 where s3:
    "(y3, x3) = (if x2 AND 0x000000f0 \<noteq> 0 then (y2 + 4, drop_bit 4 x2) else (y2, x2))"
    by (rule that [OF prod.collapse])
  obtain y4 x4 where s4:
    "(y4, x4) = (if x3 AND 0x0000000c \<noteq> 0 then (y3 + 2, drop_bit 2 x3) else (y3, x3))"
    by (rule that [OF prod.collapse])
  obtain y5 x5 where s5:
    "(y5, x5) = (if x4 AND 0x00000002 \<noteq> 0 then (y4 + 1, drop_bit 1 x4) else (y4, x4))"
    by (rule that [OF prod.collapse])
  have "floorLog2_inv (unat x) 32 0 (unat x)"
    using assms unsigned_less [of x, where ?'a = nat]
    by (simp add: floorLog2_inv_def unat_gt_0 word_neq_0_conv)
  note floorLog2_step [OF this floorLog2_widths(1) floorLog2_masks(1) s1]
  note floorLog2_step [OF this floorLog2_widths(2) floorLog2_masks(2) s2]
  note floorLog2_step [OF this floorLog2_widths(3) floorLog2_masks(3) s3]
  note floorLog2_step [OF this floorLog2_widths(4) floorLog2_masks(4) s4]
  note floorLog2_step [OF this floorLog2_widths(5) floorLog2_masks(5) s5]
  then have "2 ^ y5 \<le> unat x \<and> unat x < 2 ^ (y5 + 1)"
    by (rule floorLog2_inv_end)
  moreover have "y5 = (if x4 AND 2 \<noteq> 0 then y4 + 1 else y4)"
    by (rule pair_if_fst [OF s5])
  then have "floorLog2 x = Inr y5"
    by (simp only: floorLog2_def Let_def s1 [unfolded add_0, symmetric] s2 [symmetric]
        s3 [symmetric] s4 [symmetric] case_prod_conv ensure_def assms if_True)
  ultimately show ?thesis by (intro exI [of _ y5] conjI) simp_all
qed

lemma isPowerOf2_exp:
  assumes p: "isPowerOf2 n" and lo: "2 ^ y \<le> unat n" and hi: "unat n < 2 ^ (y + 1)"
  shows "unat n = 2 ^ y"
proof (rule ccontr)
  assume "unat n \<noteq> 2 ^ y"
  with lo have less: "2 ^ y < unat n" by simp
  have n0: "n \<noteq> 0" using p by (simp add: isPowerOf2_def)
  have pred: "unat (n - 1) = unat n - 1"
    using n0 by (simp add: unat_minus_one)
  have bit_at: "bit m y" if "2 ^ y \<le> unat m" "unat m < 2 ^ (y + 1)" for m :: u32
  proof -
    have "unat m div 2 ^ y = 1" using that by (simp add: div_nat_eqI)
    then have "bit (unat m) y" by (simp add: bit_iff_odd)
    then show ?thesis by (simp add: bit_unsigned_iff)
  qed
  have "bit n y" using lo hi by (rule bit_at)
  moreover have "bit (n - 1) y" using less hi by (intro bit_at) (simp_all add: pred)
  ultimately have "\<not> bit (n AND NOT (n - 1)) y" by (simp add: bit_simps)
  then show False using p \<open>bit n y\<close> by (simp add: isPowerOf2_def leastSigBit_def)
qed

lemma RubySystem_new_wf:
  assumes "RubySystem_new b ms r = Inr rs"
  shows "ruby_system_wf rs"
proof -
  have p: "isPowerOf2 b" using assms by (simp add: RubySystem_new_def)
  then have "0 < b" by (simp add: isPowerOf2_def word_neq_0_conv)
  then obtain y where y: "floorLog2 b = Inr y" "2 ^ y \<le> unat b" "unat b < 2 ^ (y + 1)"
    using floorLog2_correct by blast
  then have "unat b = 2 ^ y" using isPowerOf2_exp p by blast
  moreover have "y < 32"
  proof -
    have "(2::nat) ^ y < 2 ^ 32" using y(2) unsigned_less [of b, where ?'a = nat] by simp
    then show ?thesis by (rule power_less_imp_less_exp [rotated]) simp
  qed
  ultimately show ?thesis using assms y(1) p by (auto simp: RubySystem_new_def ruby_system_wf_def)
qed

lemma RubySystem_new_ok: "isPowerOf2 b \<Longrightarrow> is_ok (RubySystem_new b ms r)"
  using floorLog2_correct [of b]
  by (auto simp: RubySystem_new_def isPowerOf2_def word_neq_0_conv)

section \<open>Address arithmetic\<close>

lemma bit_maskLowOrderBits:
  "n < 63 \<Longrightarrow> bit (maskLowOrderBits a n) i \<longleftrightarrow> n \<le> i \<and> bit a i"
  by (auto simp: maskLowOrderBits_def ADDRESS_WIDTH_def bit_simps dest: bit_imp_le_length)

lemma bitSelect_Inr:
  assumes "small \<le> big" and "small < 64"
  shows "bitSelect a small big = Inr (drop_bit small (take_bit (big + 1) a))"
proof (cases "63 \<le> big")
  case True
  then have "take_bit (big + 1) a = a" by (intro bit_word_eqI) (auto simp: bit_simps)
  with True assms show ?thesis by (simp add: bitSelect_def ADDRESS_WIDTH_def)
next
  case False
  with assms show ?thesis
    by (simp add: bitSelect_def ADDRESS_WIDTH_def Let_def word_mask_eq_NOT_push_bit
        take_bit_eq_mask)
qed

lemma bitSelect_value:
  assumes "small \<le> big" and "small < 64"
  shows "\<exists>w. bitSelect a small big = Inr w \<and>
    unat w = (unat a div 2 ^ small) mod 2 ^ (big + 1 - small)"
proof -
  have "unat (drop_bit small (take_bit (big + 1) a)) = take_bit (big + 1) (unat a) div 2 ^ small"
    by (simp only: word_drop_bit_unat unsigned_take_bit_eq)
  also have "\<dots> = (unat a div 2 ^ small) mod 2 ^ (big + 1 - small)"
    by (simp only: take_bit_eq_mod div_exp_mod_exp_eq) (use assms in simp)
  finally show ?thesis using assms by (simp add: bitSelect_Inr)
qed

lemma getOffset_Inr:
  assumes "0 < m_block_size_bits rs"
  shows "getOffset rs a = Inr (take_bit (m_block_size_bits rs) a)"
  using assms by (simp add: getOffset_def bitSelect_Inr)

lemma bit_line_address:
  assumes "ruby_system_wf rs"
  shows "bit (line_address rs a) i \<longleftrightarrow> m_block_size_bits rs \<le> i \<and> bit a i"
  using assms
  by (simp add: line_address_def makeLineAddress_def bit_maskLowOrderBits ruby_system_wf_def)

lemma line_address_idem [simp]:
  "ruby_system_wf rs \<Longrightarrow> line_address rs (line_address rs a) = line_address rs a"
  by (intro bit_word_eqI) (auto simp: bit_line_address)

lemma line_address_split:
  assumes "ruby_system_wf rs"
  shows "line_address rs a + take_bit (m_block_size_bits rs) a = a"
proof -
  have "line_address rs a AND take_bit (m_block_size_bits rs) a = 0"
    using assms by (intro bit_word_eqI) (auto simp: bit_simps bit_line_address)
  then have "line_address rs a + take_bit (m_block_size_bits rs) a =
      line_address rs a OR take_bit (m_block_size_bits rs) a"
    by (rule disjunctive_add_eq_or)
  also have "\<dots> = a"
    using assms by (intro bit_word_eqI) (auto simp: bit_simps bit_line_address)
  finally show ?thesis .
qed

lemma line_address_eq_iff:
  assumes "ruby_system_wf rs"
  shows "line_address rs a = line_address rs b \<longleftrightarrow>
    unat a div 2 ^ m_block_size_bits rs = unat b div 2 ^ m_block_size_bits rs"
proof -
  let ?k = "m_block_size_bits rs"
  have "line_address rs a = line_address rs b \<longleftrightarrow> drop_bit ?k a = drop_bit ?k b"
  proof
    assume eq: "line_address rs a = line_address rs b"
    show "drop_bit ?k a = drop_bit ?k b"
    proof (rule bit_word_eqI)
      fix n
      show "bit (drop_bit ?k a) n = bit (drop_bit ?k b) n"
        using arg_cong [OF eq, of "\<lambda>w. bit w (?k + n)"] assms
        by (simp add: bit_drop_bit_eq bit_line_address)
    qed
  next
    assume eq: "drop_bit ?k a = drop_bit ?k b"
    show "line_address rs a = line_address rs b"
    proof (rule bit_word_eqI)
      fix n
      show "bit (line_address rs a) n = bit (line_address rs b) n"
        using arg_cong [OF eq, of "\<lambda>w. bit w (n - ?k)"] assms
        by (auto simp: bit_drop_bit_eq bit_line_address)
    qed
  qed
  also have "\<dots> \<longleftrightarrow> unat (drop_bit ?k a) = unat (drop_bit ?k b)"
    by (simp add: word_unat_eq_iff)
  finally show ?thesis by (simp add: word_drop_bit_unat)
qed

lemma setOffset_props:
  assumes wf: "ruby_system_wf rs" and pos: "0 < m_block_size_bits rs"
    and off: "0 \<le> off" "off < 2 ^ m_block_size_bits rs"
  shows "line_address rs (setOffset rs a off) = line_address rs a"
    and "getOffset rs (setOffset rs a off) = Inr (word_of_int off)"
proof -
  let ?k = "m_block_size_bits rs"
  have "take_bit ?k off = off" using off by (simp add: take_bit_int_eq_self)
  then have small: "bit (word_of_int off :: addr) i \<longleftrightarrow> i < ?k \<and> i < 64 \<and> bit off i" for i
    using bit_take_bit_iff [of ?k off i] by (auto simp: bit_word_of_int_iff)
  have line: "bit (makeLineAddress rs a) i \<longleftrightarrow> ?k \<le> i \<and> bit a i" for i
    using bit_line_address [OF wf, of a i] by (simp add: line_address_def)
  show "line_address rs (setOffset rs a off) = line_address rs a"
    using wf by (intro bit_word_eqI) (auto simp: bit_line_address setOffset_def bit_or_iff line small)
  show "getOffset rs (setOffset rs a off) = Inr (word_of_int off)"
    using pos
    by (auto simp: getOffset_Inr setOffset_def bit_or_iff bit_take_bit_iff line small intro!: bit_word_eqI)
qed

lemma bitRemove_bits:
  assumes "0 < small" and "small \<le> big" and "big < 63"
  shows "\<exists>w. bitRemove a small big = Inr w \<and>
    (\<forall>i. bit w i \<longleftrightarrow> bit a (if i < small then i else i + (big + 1 - small)))"
proof -
  have "Suc (big + i - small) = Suc (i + big) - small" if "\<not> i < small" for i
    using that assms by simp
  then show ?thesis
    using assms
    by (auto simp: bitRemove_def ADDRESS_WIDTH_def Let_def bit_simps dest: bit_imp_le_length)
qed

section \<open>Properties\<close>

text \<open>C22: with a well-formed configuration an address is the sum of its line address and its
  offset, the offset is below the block size, taking the line address is idempotent, and two
  addresses have the same line address exactly when they lie in the same block.\<close>

theorem line_address_partition:
  assumes "ruby_system_wf rs" and "0 < m_block_size_bits rs"
  shows "\<exists>off. getOffset rs a = Inr off \<and> line_address rs a + off = a
    \<and> unat off < 2 ^ m_block_size_bits rs
    \<and> line_address rs (line_address rs a) = line_address rs a
    \<and> (line_address rs a = line_address rs b \<longleftrightarrow>
        unat a div 2 ^ m_block_size_bits rs = unat b div 2 ^ m_block_size_bits rs)"
proof -
  have "unat (take_bit (m_block_size_bits rs) a) < 2 ^ m_block_size_bits rs"
    by (auto simp: unat_less_power_iff_bit bit_take_bit_iff)
  then show ?thesis
    using assms by (simp add: getOffset_Inr line_address_split line_address_eq_iff)
qed

theorem line_address_partition_witness:
  "\<exists>off. getOffset ruby64 0x1234 = Inr off \<and> line_address ruby64 0x1234 + off = 0x1234
    \<and> unat off < 64"
  using line_address_partition [of ruby64 "0x1234" 0] by auto

text \<open>A stride that is not negative moves to the line that many blocks further, as long as the
  distance fits 32 bits.\<close>

lemma next_stride_address_forward:
  assumes wf: "ruby_system_wf rs" and stride: "0 \<le> stride"
    and small: "stride * 2 ^ m_block_size_bits rs < 2 ^ 32"
  shows "next_stride_address rs a stride =
    line_address rs a + word_of_int (stride * 2 ^ m_block_size_bits rs)"
proof -
  let ?k = "m_block_size_bits rs"
  have bytes: "uint (m_block_size_bytes rs) = 2 ^ ?k"
    using wf by (simp add: ruby_system_wf_def uint_nat)
  have "uint (m_block_size_bytes rs * word_of_int stride) = stride * 2 ^ ?k mod 2 ^ 32"
    by (simp add: uint_word_ariths bytes unsigned_of_int take_bit_eq_mod mod_mult_right_eq
        mult.commute)
  also have "\<dots> = stride * 2 ^ ?k"
    using stride small by (intro mod_pos_pos_trivial) simp_all
  finally have "ucast (m_block_size_bytes rs * word_of_int stride) =
      (word_of_int (stride * 2 ^ ?k) :: addr)"
    by (simp only: ucast_eq)
  then show ?thesis
    by (simp only: next_stride_address_def makeNextStrideAddress_def line_address_def
        makeLineAddress_def)
qed

text \<open>A stride of -1 moves about 4 GiB forward instead of one block back: the product is a 32-bit
  unsigned number that is zero-extended to 64 bits.\<close>

lemma next_stride_address_backward:
  "next_stride_address ruby64 a (- 1) = line_address ruby64 a + 0xFFFFFFC0"
  by (simp add: next_stride_address_def makeNextStrideAddress_def line_address_def
      makeLineAddress_def)

text \<open>\<open>bitRemove\<close> does not remove the inclusive range at its corners: with \<open>small = 0\<close> it only
  clears the bits below \<open>big\<close> and leaves the others in place, and with \<open>big\<close> at the top of the word
  it keeps the low \<open>64 - small\<close> bits instead of the low \<open>small\<close> bits.\<close>

lemma bitRemove_corners:
  "bitRemove 0xFF 0 3 = Inr 0xF8" "bitRemove 0xFF 4 63 = Inr 0xFF" "bitRemove 0xFF 2 5 = Inr 0xF"
  by (code_simp, code_simp, code_simp)

end
