(* ===== verification/Ruby_Clock.thy ===== *)
theory Ruby_Clock
  imports Ruby_Prelude
begin

text \<open>
  Clocks and wakeups: \<open>ClockedObject\<close> (src/gem5-stable/src/sim/clocked_object.hh), which relates the
  global tick to the cycles of a component, and \<open>Consumer\<close>
  (src/gem5-stable/src/mem/ruby/common/Consumer.hh, Consumer.cc), which turns requests for a wakeup
  into events. The members \<open>tick\<close> and \<open>cycle\<close> of a clocked object are a cache that \<open>update\<close> moves
  forward; an operation takes the current tick of the simulation as its first argument.
\<close>

section \<open>Clocked objects\<close>

definition divCeil :: "u64 \<Rightarrow> u64 \<Rightarrow> u64" where
  "divCeil a b = (a + b - 1) div b"

record clocked_object =
  co_tick :: tick
  co_cycle :: cycles
  co_period :: tick

definition ClockedObject_update :: "tick \<Rightarrow> clocked_object \<Rightarrow> clocked_object" where
  "ClockedObject_update now o1 =
     (if now \<le> co_tick o1 then o1
      else let o2 = o1\<lparr>co_tick := co_tick o1 + co_period o1, co_cycle := co_cycle o1 + 1\<rparr>
           in if now \<le> co_tick o2 then o2
              else let elapsedCycles = divCeil (now - co_tick o2) (co_period o2)
                   in o2\<lparr>co_cycle := co_cycle o2 + elapsedCycles,
                         co_tick := co_tick o2 + elapsedCycles * co_period o2\<rparr>)"

definition ClockedObject_resetClock :: "tick \<Rightarrow> clocked_object \<Rightarrow> clocked_object" where
  "ClockedObject_resetClock now o1 =
     (let elapsedCycles = divCeil now (co_period o1)
      in o1\<lparr>co_cycle := elapsedCycles, co_tick := elapsedCycles * co_period o1\<rparr>)"

definition clockEdge :: "tick \<Rightarrow> clocked_object \<Rightarrow> cycles \<Rightarrow> tick" where
  "clockEdge now o1 c = co_tick (ClockedObject_update now o1) + co_period o1 * c"

definition curCycle :: "tick \<Rightarrow> clocked_object \<Rightarrow> cycles" where
  "curCycle now o1 = co_cycle (ClockedObject_update now o1)"

definition nextCycle :: "tick \<Rightarrow> clocked_object \<Rightarrow> tick" where
  "nextCycle now o1 = clockEdge now o1 1"

definition ticksToCycles :: "clocked_object \<Rightarrow> tick \<Rightarrow> cycles" where
  "ticksToCycles o1 t = divCeil t (co_period o1)"

section \<open>Consumers\<close>

text \<open>\<open>consumer_events\<close> are the ticks of the wakeup events this consumer has in the event queue.\<close>

record consumer =
  m_scheduled_wakeups :: "tick set"
  consumer_em :: clocked_object
  consumer_events :: "tick list"

definition alreadyScheduled :: "consumer \<Rightarrow> tick \<Rightarrow> bool" where
  "alreadyScheduled c t \<longleftrightarrow> t \<in> m_scheduled_wakeups c"

definition insertScheduledWakeupTime :: "consumer \<Rightarrow> tick \<Rightarrow> consumer" where
  "insertScheduledWakeupTime c t = c\<lparr>m_scheduled_wakeups := insert t (m_scheduled_wakeups c)\<rparr>"

text \<open>\<open>schedule\<close> of the event queue refuses an event in the past.\<close>

definition EventQueue_schedule :: "tick \<Rightarrow> consumer \<Rightarrow> tick \<Rightarrow> consumer result" where
  "EventQueue_schedule now c t = ensure (now \<le> t) AssertFailed (
     Inr (c\<lparr>consumer_events := consumer_events c @ [t]\<rparr>))"

definition scheduleEventAbsolute :: "tick \<Rightarrow> consumer \<Rightarrow> tick \<Rightarrow> consumer result" where
  "scheduleEventAbsolute now c evt_time =
     rbind (if \<not> alreadyScheduled c evt_time
            then rbind (EventQueue_schedule now c evt_time) (\<lambda>c'. Inr (insertScheduledWakeupTime c' evt_time))
            else Inr c)
       (\<lambda>c'. let t = clockEdge now (consumer_em c') 0
             in Inr (c'\<lparr>m_scheduled_wakeups := Set.filter (\<lambda>x. t \<le> x) (m_scheduled_wakeups c')\<rparr>))"

definition scheduleEvent :: "tick \<Rightarrow> consumer \<Rightarrow> cycles \<Rightarrow> consumer result" where
  "scheduleEvent now c timeDelta = scheduleEventAbsolute now c (clockEdge now (consumer_em c) timeDelta)"

section \<open>Clock edges\<close>

text \<open>The cached tick is the start of the cached cycle.\<close>

definition clocked_wf :: "clocked_object \<Rightarrow> bool" where
  "clocked_wf o1 \<longleftrightarrow> 0 < co_period o1 \<and> unat (co_tick o1) = unat (co_cycle o1) * unat (co_period o1)"

text \<open>\<open>fits now o1\<close>: the next edge after \<open>now\<close> is still representable.\<close>

definition fits :: "tick \<Rightarrow> clocked_object \<Rightarrow> bool" where
  "fits now o1 \<longleftrightarrow> unat now + unat (co_period o1) < 2 ^ 64"

lemma divCeil_unat:
  assumes "0 < b" and "unat a + unat b < 2 ^ 64"
  shows "unat (divCeil a b) = (unat a + unat b - 1) div unat b"
proof -
  have b: "1 \<le> unat b" using assms(1) by (simp add: u64_pos)
  have ab: "unat (a + b) = unat a + unat b" using assms(2) by (rule unat_add_u64)
  have "1 \<le> a + b" using b ab by (simp add: word_le_nat_alt)
  then have "unat (a + b - 1) = unat a + unat b - 1" by (simp add: u64_simps ab)
  then show ?thesis by (simp add: divCeil_def unat_div)
qed

lemma divCeil_bounds:
  assumes "0 < (b :: nat)"
  shows "a \<le> (a + b - 1) div b * b" and "(a + b - 1) div b * b < a + b"
proof -
  have "(a + b - 1) div b * b + (a + b - 1) mod b = a + b - 1" by (rule div_mult_mod_eq)
  moreover have "(a + b - 1) mod b < b" using assms by simp
  ultimately show "a \<le> (a + b - 1) div b * b" "(a + b - 1) div b * b < a + b" using assms by linarith+
qed

text \<open>The edge after an update is the first one at or after the current tick.\<close>

lemma ClockedObject_update_spec:
  assumes "clocked_wf o1" and "fits now o1"
  defines "o2 \<equiv> ClockedObject_update now o1"
  shows "clocked_wf o2 \<and> co_period o2 = co_period o1 \<and> now \<le> co_tick o2 \<and>
    (now \<le> co_tick o1 \<longrightarrow> o2 = o1) \<and>
    (co_tick o1 < now \<longrightarrow> unat (co_tick o2) < unat now + unat (co_period o1))"
proof (cases "now \<le> co_tick o1")
  case True
  then show ?thesis using assms(1) by (auto simp: o2_def ClockedObject_update_def)
next
  case late: False
  define T where "T = unat (co_tick o1)"
  define N where "N = unat now"
  define P where "P = unat (co_period o1)"
  define C where "C = unat (co_cycle o1)"
  note defs = T_def N_def P_def C_def
  have wf: "0 < P" "T = C * P" using assms(1) by (simp_all add: clocked_wf_def defs u64_pos)
  have N: "N + P < 2 ^ 64" using assms(2) by (simp add: fits_def defs)
  have TN: "T < N" using late by (simp add: word_le_nat_alt defs)
  let ?t1 = "co_tick o1 + co_period o1" and ?c1 = "co_cycle o1 + 1"
  have t1: "unat ?t1 = T + P" using N TN by (simp add: u64_simps defs)
  have "C \<le> T" using wf by simp
  then have c1: "unat ?c1 = C + 1" using N TN wf(1) by (subst unat_add_u64) (simp_all add: defs)
  have e1: "T + P = (C + 1) * P" using wf(2) by simp
  show ?thesis
  proof (cases "now \<le> ?t1")
    case True
    then show ?thesis using late t1 c1 e1 TN wf(1)
      by (simp add: o2_def ClockedObject_update_def Let_def clocked_wf_def defs u64_pos)
  next
    case False
    let ?e = "divCeil (now - ?t1) (co_period o1)"
    have t1N: "T + P < N" using False t1 by (simp add: word_le_nat_alt defs)
    have d: "unat (now - ?t1) = N - (T + P)" using False t1 by (simp add: u64_simps defs)
    define E where "E = (N - (T + P) + P - 1) div P"
    have e: "unat ?e = E"
      unfolding E_def using wf(1) N d by (subst divCeil_unat) (simp_all add: u64_pos defs)
    have EP: "N - (T + P) \<le> E * P" "E * P < N - (T + P) + P"
      unfolding E_def using divCeil_bounds [OF wf(1)] by auto
    have ep: "unat (?e * co_period o1) = E * P"
      using EP N by (subst unat_mult_u64) (simp_all add: e defs)
    have t2: "unat (?t1 + ?e * co_period o1) = T + P + E * P"
      using EP N t1N by (subst unat_add_u64) (simp_all add: t1 ep)
    have "E \<le> E * P" using wf(1) by simp
    then have "C + 1 + E < 2 ^ 64" using \<open>C \<le> T\<close> EP N t1N wf(1) by linarith
    then have c2: "unat (?c1 + ?e) = C + 1 + E" by (subst unat_add_u64) (simp_all add: c1 e)
    have "o2 = o1\<lparr>co_tick := ?t1 + ?e * co_period o1, co_cycle := ?c1 + ?e\<rparr>"
      using late False by (simp add: o2_def ClockedObject_update_def Let_def)
    moreover have "T + P + E * P = (C + 1 + E) * P" using e1 by (simp add: algebra_simps)
    moreover have "N \<le> T + P + E * P" "T + P + E * P < N + P" using EP t1N by linarith+
    ultimately show ?thesis
      using late t2 c2 wf(1) unfolding clocked_wf_def word_le_nat_alt u64_pos
      by (simp add: N_def [symmetric] P_def [symmetric])
  qed
qed

lemma clockEdge_0: "clockEdge now o1 0 = co_tick (ClockedObject_update now o1)"
  by (simp add: clockEdge_def)

lemma clockEdge_ge: "clocked_wf o1 \<Longrightarrow> fits now o1 \<Longrightarrow> now \<le> clockEdge now o1 0"
  using ClockedObject_update_spec [of o1 now] by (simp add: clockEdge_0)

text \<open>A component that starts at tick 0 with a clock period of 500 ticks.\<close>

definition clock500 :: clocked_object where
  "clock500 = \<lparr>co_tick = 0, co_cycle = 0, co_period = 500\<rparr>"

lemma clock500_wf [simp]: "clocked_wf clock500"
  by (simp add: clocked_wf_def clock500_def)

section \<open>Wakeups\<close>

definition consumer_inv :: "tick \<Rightarrow> consumer \<Rightarrow> bool" where
  "consumer_inv now c \<longleftrightarrow> (let e = clockEdge now (consumer_em c) 0
     in (\<forall>t. e \<le> t \<longrightarrow> (t \<in> m_scheduled_wakeups c \<longleftrightarrow> t \<in> set (consumer_events c))) \<and>
        distinct (filter (\<lambda>t. e \<le> t) (consumer_events c)))"

lemma consumer_inv_later:
  assumes "consumer_inv now c" and "clockEdge now (consumer_em c) 0 \<le> clockEdge now' (consumer_em c) 0"
  shows "consumer_inv now' c"
proof -
  let ?e = "clockEdge now (consumer_em c) 0" and ?e' = "clockEdge now' (consumer_em c) 0"
  have "filter (\<lambda>t. ?e' \<le> t) (consumer_events c) =
      filter (\<lambda>t. ?e' \<le> t) (filter (\<lambda>t. ?e \<le> t) (consumer_events c))"
    unfolding filter_filter using assms(2) by (intro filter_cong) auto
  then have "distinct (filter (\<lambda>t. ?e' \<le> t) (consumer_events c))"
    using assms(1) by (metis consumer_inv_def distinct_filter)
  then show ?thesis using assms by (auto simp: consumer_inv_def Let_def)
qed

lemma scheduleEventAbsolute_spec:
  assumes "consumer_inv now c" and "clockEdge now (consumer_em c) 0 \<le> t" and "now \<le> t"
  shows "\<exists>c'. scheduleEventAbsolute now c t = Inr c' \<and> consumer_inv now c' \<and> consumer_em c' = consumer_em c \<and>
    consumer_events c' = consumer_events c @ (if t \<in> set (consumer_events c) then [] else [t])"
proof (cases "t \<in> m_scheduled_wakeups c")
  case True
  then have "t \<in> set (consumer_events c)" using assms by (simp add: consumer_inv_def Let_def)
  then show ?thesis
    using True assms
    by (auto simp: scheduleEventAbsolute_def alreadyScheduled_def consumer_inv_def Let_def)
next
  case False
  then have "t \<notin> set (consumer_events c)" using assms by (simp add: consumer_inv_def Let_def)
  then show ?thesis
    using False assms
    by (auto simp: scheduleEventAbsolute_def alreadyScheduled_def EventQueue_schedule_def
        insertScheduledWakeupTime_def consumer_inv_def Let_def)
qed

section \<open>Properties\<close>

text \<open>After \<open>update\<close> the cached tick is the first clock edge at or after the current tick (it is
  less than one period ahead unless the cache was already ahead), it is the cached cycle times the
  period, and \<open>clockEdge\<close> and \<open>curCycle\<close> agree on it.\<close>

lemma clock_next_edge:
  assumes "clocked_wf o1" and "fits now o1"
  shows "now \<le> clockEdge now o1 0 \<and>
    unat (clockEdge now o1 0) = unat (curCycle now o1) * unat (co_period o1) \<and>
    (co_tick o1 < now \<longrightarrow> unat (clockEdge now o1 0) < unat now + unat (co_period o1)) \<and>
    (now \<le> co_tick o1 \<longrightarrow> clockEdge now o1 0 = co_tick o1)"
  using ClockedObject_update_spec [OF assms]
  by (auto simp: clockEdge_0 curCycle_def clocked_wf_def)



end
