(* ===== verification/Message_Buffer.thy ===== *)
theory Message_Buffer
  imports Std_Heap Ruby_Address Ruby_Clock "HOL-Library.Product_Lexorder"
begin

text \<open>
  The message buffers that connect controllers and switches: \<open>MessageBuffer\<close>
  (src/gem5-stable/src/mem/ruby/network/MessageBuffer.hh, MessageBuffer.cc), \<open>MessageBufferNode\<close> and
  the time stamps of \<open>Message\<close> (slicc_interface/Message.hh). A buffer is a heap of nodes ordered by
  arrival time and message number, and a map of stalled messages. A message pointer is modelled by
  the message it points to, with its payload as a type parameter: a message waits in one buffer at a
  time. The calls on the consumer (\<open>scheduleEventAbsolute\<close>, \<open>storeEventInfo\<close>) are returned as a list
  of requests. Debug output and printing are left out.
\<close>

section \<open>Messages and nodes\<close>

record 'm message =
  msg_time :: tick
  m_LastEnqueueTime :: tick
  m_DelayedTicks :: tick
  payload :: 'm

definition Message_new :: "tick \<Rightarrow> 'm \<Rightarrow> 'm message" where
  "Message_new curTime p = \<lparr>msg_time = curTime, m_LastEnqueueTime = curTime, m_DelayedTicks = 0, payload = p\<rparr>"

definition updateDelayedTicks :: "tick \<Rightarrow> 'm message \<Rightarrow> 'm message result" where
  "updateDelayedTicks curTime m = ensure (m_LastEnqueueTime m \<le> curTime) AssertFailed (
     let delta = curTime - m_LastEnqueueTime m in Inr (m\<lparr>m_DelayedTicks := m_DelayedTicks m + delta\<rparr>))"

definition setLastEnqueueTime :: "tick \<Rightarrow> 'm message \<Rightarrow> 'm message" where
  "setLastEnqueueTime t m = m\<lparr>m_LastEnqueueTime := t\<rparr>"

record 'm mb_node =
  m_time :: tick
  m_msg_counter :: u64
  m_msgptr :: "'m message"

definition node_greater :: "'m mb_node \<Rightarrow> 'm mb_node \<Rightarrow> bool result" where
  "node_greater n1 n2 =
     (if m_time n1 = m_time n2
      then ensure (m_msg_counter n1 \<noteq> m_msg_counter n2) AssertFailed (Inr (m_msg_counter n1 > m_msg_counter n2))
      else Inr (m_time n1 > m_time n2))"

definition node_less :: "'m mb_node \<Rightarrow> 'm mb_node \<Rightarrow> bool result" where
  "node_less n1 n2 =
     (if m_time n1 = m_time n2
      then ensure (m_msg_counter n1 \<noteq> m_msg_counter n2) AssertFailed (Inr (m_msg_counter n1 < m_msg_counter n2))
      else Inr (m_time n1 < m_time n2))"

section \<open>The buffer\<close>

text \<open>The compile-time switch \<open>RANDOM_RECV\<close> of src/gem5-stable/src/cpu/testers/rubytest/Trace.hh.\<close>

definition RANDOM_RECV :: bool where
  "RANDOM_RECV = False"

datatype consumer_call = ScheduleEventAbsolute tick | StoreEventInfo int

text \<open>\<open>m_stall_msg_map\<close> is the \<open>std::map\<close> as its list of entries in the order of the addresses;
  \<open>mb_msg_counter\<close> is the buffer's own \<open>m_msg_counter\<close>, and \<open>m_consumer\<close> says whether a consumer is
  connected.\<close>

record 'm message_buffer =
  m_recycle_latency :: cycles
  m_sender :: "clocked_object option"
  m_receiver :: "clocked_object option"
  m_consumer :: bool
  m_prio_heap :: "'m mb_node list"
  m_stall_msg_map :: "(addr \<times> 'm message list) list"
  m_max_size :: u32
  m_time_last_time_size_checked :: cycles
  m_size_last_time_size_checked :: u32
  m_time_last_time_enqueue :: cycles
  m_time_last_time_pop :: tick
  m_last_arrival_time :: tick
  m_size_at_cycle_start :: u32
  m_msgs_this_cycle :: u32
  m_not_avail_count :: u32
  mb_msg_counter :: u64
  m_priority_rank :: int
  m_strict_fifo :: bool
  m_ordering_set :: bool
  mb_randomization :: bool
  m_input_link_id :: int
  m_vnet_id :: int
  issuedOnce :: bool
  m_name :: string

definition MessageBuffer_new :: "string \<Rightarrow> 'm message_buffer" where
  "MessageBuffer_new name = \<lparr>m_recycle_latency = 0, m_sender = None, m_receiver = None, m_consumer = False,
     m_prio_heap = [], m_stall_msg_map = [], m_max_size = 0, m_time_last_time_size_checked = 0,
     m_size_last_time_size_checked = 0, m_time_last_time_enqueue = 0, m_time_last_time_pop = 0,
     m_last_arrival_time = 0, m_size_at_cycle_start = 0, m_msgs_this_cycle = 0, m_not_avail_count = 0,
     mb_msg_counter = 0, m_priority_rank = 0, m_strict_fifo = False, m_ordering_set = False,
     mb_randomization = False, m_input_link_id = 0, m_vnet_id = 0, issuedOnce = False, m_name = name\<rparr>"

definition heap_size :: "'m message_buffer \<Rightarrow> u32" where
  "heap_size b = word_of_nat (length (m_prio_heap b))"

definition MessageBuffer_setConsumer :: "'m message_buffer \<Rightarrow> 'm message_buffer result" where
  "MessageBuffer_setConsumer b = ensure (\<not> m_consumer b) Panicked (Inr (b\<lparr>m_consumer := True\<rparr>))"

definition MessageBuffer_setSender :: "'m message_buffer \<Rightarrow> clocked_object \<Rightarrow> 'm message_buffer result" where
  "MessageBuffer_setSender b o1 = ensure (m_sender b = None \<or> m_sender b = Some o1) AssertFailed (
     Inr (b\<lparr>m_sender := Some o1\<rparr>))"

definition MessageBuffer_setReceiver :: "'m message_buffer \<Rightarrow> clocked_object \<Rightarrow> 'm message_buffer result" where
  "MessageBuffer_setReceiver b o1 = ensure (m_receiver b = None \<or> m_receiver b = Some o1) AssertFailed (
     Inr (b\<lparr>m_receiver := Some o1\<rparr>))"

definition MessageBuffer_setOrdering :: "'m message_buffer \<Rightarrow> bool \<Rightarrow> 'm message_buffer" where
  "MessageBuffer_setOrdering b order = b\<lparr>m_strict_fifo := order, m_ordering_set := True\<rparr>"

definition setRecycleLatency :: "'m message_buffer \<Rightarrow> cycles \<Rightarrow> 'm message_buffer" where
  "setRecycleLatency b c = b\<lparr>m_recycle_latency := c\<rparr>"

definition setPriority :: "'m message_buffer \<Rightarrow> int \<Rightarrow> 'm message_buffer" where
  "setPriority b rank = b\<lparr>m_priority_rank := rank\<rparr>"

definition MessageBuffer_setDescription :: "'m message_buffer \<Rightarrow> string \<Rightarrow> 'm message_buffer" where
  "MessageBuffer_setDescription b name = b\<lparr>m_name := name\<rparr>"

definition MessageBuffer_resize :: "'m message_buffer \<Rightarrow> u32 \<Rightarrow> 'm message_buffer" where
  "MessageBuffer_resize b sz = b\<lparr>m_max_size := sz\<rparr>"

definition setRandomization :: "'m message_buffer \<Rightarrow> bool \<Rightarrow> 'm message_buffer" where
  "setRandomization b flag = b\<lparr>mb_randomization := flag\<rparr>"

definition setIncomingLink :: "'m message_buffer \<Rightarrow> int \<Rightarrow> 'm message_buffer" where
  "setIncomingLink b link_id = b\<lparr>m_input_link_id := link_id\<rparr>"

definition setVnet :: "'m message_buffer \<Rightarrow> int \<Rightarrow> 'm message_buffer" where
  "setVnet b net = b\<lparr>m_vnet_id := net\<rparr>"

definition MessageBuffer_getSize :: "tick \<Rightarrow> 'm message_buffer \<Rightarrow> (u32 \<times> 'm message_buffer) result" where
  "MessageBuffer_getSize now b = rbind (deref (m_receiver b)) (\<lambda>r.
     let b' = (if m_time_last_time_size_checked b \<noteq> curCycle now r
               then b\<lparr>m_time_last_time_size_checked := curCycle now r,
                      m_size_last_time_size_checked := heap_size b\<rparr>
               else b)
     in Inr (m_size_last_time_size_checked b', b'))"

definition areNSlotsAvailable :: "tick \<Rightarrow> 'm message_buffer \<Rightarrow> u32 \<Rightarrow> (bool \<times> 'm message_buffer) result" where
  "areNSlotsAvailable now b n =
     (if m_max_size b = 0 then Inr (True, b)
      else rbind (deref (m_sender b)) (\<lambda>s.
        let current_size =
              (if m_time_last_time_pop b < clockEdge now s 0 then heap_size b
               else if m_time_last_time_enqueue b < curCycle now s then m_size_at_cycle_start b
               else m_size_at_cycle_start b + m_msgs_this_cycle b)
        in if current_size + n \<le> m_max_size b then Inr (True, b)
           else Inr (False, b\<lparr>m_not_avail_count := m_not_avail_count b + 1\<rparr>)))"

definition MessageBuffer_peek :: "'m message_buffer \<Rightarrow> 'm message result" where
  "MessageBuffer_peek b = rbind (front (m_prio_heap b)) (\<lambda>n. Inr (m_msgptr n))"

definition MessageBuffer_isReady :: "tick \<Rightarrow> 'm message_buffer \<Rightarrow> bool result" where
  "MessageBuffer_isReady now b =
     (if m_prio_heap b = [] then Inr False
      else rbind (deref (m_receiver b)) (\<lambda>r. rbind (front (m_prio_heap b)) (\<lambda>n.
        Inr (m_time n \<le> clockEdge now r 0))))"

definition MessageBuffer_isReady_at :: "tick \<Rightarrow> 'm message_buffer \<Rightarrow> nat \<Rightarrow> bool result" where
  "MessageBuffer_isReady_at now b pos =
     (if m_prio_heap b = [] then Inr False
      else rbind (at_pos (m_prio_heap b) pos) (\<lambda>n. rbind (deref (m_receiver b)) (\<lambda>r.
        Inr (m_time n \<le> clockEdge now r 0))))"

definition peekMsgPtr :: "tick \<Rightarrow> 'm message_buffer \<Rightarrow> 'm message result" where
  "peekMsgPtr now b = rbind (MessageBuffer_isReady now b) (\<lambda>r. ensure r AssertFailed (
     rbind (front (m_prio_heap b)) (\<lambda>n. Inr (m_msgptr n))))"

definition peekMsgPtr_at :: "'m message_buffer \<Rightarrow> nat \<Rightarrow> 'm message result" where
  "peekMsgPtr_at b pos = rbind (at_pos (m_prio_heap b) pos) (\<lambda>n. Inr (m_msgptr n))"

text \<open>The three draws of the random number generator are arguments: from 0 to 3, from 0 to 7 and
  from 1 to 15.\<close>

definition random_time :: "cycles \<times> cycles \<times> cycles \<Rightarrow> cycles" where
  "random_time = (\<lambda>(r3, r7, r15). 1 + r3 + (if r7 = 0 then 100 + r15 else 0))"

text \<open>The arrival time and the updated \<open>m_last_arrival_time\<close>, before the checks.\<close>

definition arrival :: "ruby_system \<Rightarrow> 'm message_buffer \<Rightarrow> tick \<Rightarrow> tick \<Rightarrow> cycles \<Rightarrow>
    cycles \<times> cycles \<times> cycles \<Rightarrow> tick \<times> tick" where
  "arrival rs b current_time period delta rnd =
     (if \<not> m_randomization rs \<or> \<not> mb_randomization b
      then (current_time + delta * period, m_last_arrival_time b)
      else if m_strict_fifo b
      then let last = (if m_last_arrival_time b < current_time then current_time else m_last_arrival_time b)
           in (last + period, last)
      else (current_time + random_time rnd * period, m_last_arrival_time b))"

definition MessageBuffer_enqueue :: "tick \<Rightarrow> ruby_system \<Rightarrow> cycles \<times> cycles \<times> cycles \<Rightarrow> 'm message_buffer \<Rightarrow>
    'm message option \<Rightarrow> cycles \<Rightarrow> bool \<Rightarrow> ('m message_buffer \<times> consumer_call list) result" where
  "MessageBuffer_enqueue now rs rnd b message delta isRMWWrite =
     ensure (m_ordering_set b) AssertFailed (
     rbind (deref (m_sender b)) (\<lambda>s.
     let b1 = (if m_time_last_time_enqueue b < curCycle now s
               then b\<lparr>m_msgs_this_cycle := 0, m_time_last_time_enqueue := curCycle now s\<rparr> else b);
         b2 = b1\<lparr>mb_msg_counter := mb_msg_counter b1 + 1, m_msgs_this_cycle := m_msgs_this_cycle b1 + 1\<rparr>;
         current_time = clockEdge now s 0;
         (arrival_time, last) = arrival rs b2 current_time (co_period s) delta rnd
     in ensure (0 < delta) AssertFailed (
        ensure (current_time < arrival_time) AssertFailed (
        ensure (\<not> (m_strict_fifo b2 \<and> arrival_time < last)) Panicked (
        let b3 = b2\<lparr>m_last_arrival_time := (if \<not> m_warmup_enabled rs then arrival_time else last)\<rparr>
        in rbind (case message of None \<Rightarrow> Inl AssertFailed | Some m \<Rightarrow> Inr m) (\<lambda>m.
           ensure (m_LastEnqueueTime m \<le> clockEdge now s 0) AssertFailed (
           rbind (updateDelayedTicks (clockEdge now s 0) m) (\<lambda>m1.
           let m2 = setLastEnqueueTime arrival_time m1;
               thisNode = \<lparr>m_time = arrival_time, m_msg_counter = mb_msg_counter b3, m_msgptr = m2\<rparr>
           in rbind (if isRMWWrite then push_heap node_less (thisNode # m_prio_heap b3)
                     else push_heap node_greater (m_prio_heap b3 @ [thisNode])) (\<lambda>heap.
              ensure (m_consumer b3) AssertFailed (
                Inr (b3\<lparr>m_prio_heap := heap\<rparr>,
                     [ScheduleEventAbsolute arrival_time, StoreEventInfo (m_vnet_id b3)])))))))))))"

text \<open>The part that both versions of \<open>dequeue\<close> share: record the size before the first pop of the
  cycle.\<close>

definition record_pop :: "tick \<Rightarrow> 'm message_buffer \<Rightarrow> 'm message_buffer" where
  "record_pop edge b = (if m_time_last_time_pop b < edge
     then b\<lparr>m_size_at_cycle_start := heap_size b, m_time_last_time_pop := edge\<rparr> else b)"

text \<open>\<open>dequeue\<close> returns the cycle, the dequeued message with its updated delay (which other holders
  of the pointer see) and the buffer.\<close>

definition MessageBuffer_dequeue :: "tick \<Rightarrow> 'm message_buffer \<Rightarrow> (cycles \<times> 'm message \<times> 'm message_buffer) result" where
  "MessageBuffer_dequeue now b =
     rbind (front (m_prio_heap b)) (\<lambda>n. rbind (deref (m_receiver b)) (\<lambda>r.
     rbind (updateDelayedTicks (clockEdge now r 0) (m_msgptr n)) (\<lambda>m.
     let b1 = record_pop (clockEdge now r 0) b
     in rbind (if RANDOM_RECV then Inr (tl (m_prio_heap b1))
               else rbind (pop_heap node_greater (m_prio_heap b1)) (\<lambda>heap. Inr (butlast heap))) (\<lambda>heap.
        rbind (deref (m_sender b1)) (\<lambda>s.
          Inr (ticksToCycles s (clockEdge now s 0), m, b1\<lparr>m_prio_heap := heap\<rparr>))))))"

definition MessageBuffer_dequeue_at :: "tick \<Rightarrow> 'm message_buffer \<Rightarrow> nat \<Rightarrow> (cycles \<times> 'm message \<times> 'm message_buffer) result" where
  "MessageBuffer_dequeue_at now b pos =
     rbind (at_pos (m_prio_heap b) pos) (\<lambda>n. rbind (deref (m_receiver b)) (\<lambda>r.
     rbind (updateDelayedTicks (clockEdge now r 0) (m_msgptr n)) (\<lambda>m.
     let b1 = record_pop (clockEdge now r 0) b;
         heap = take pos (m_prio_heap b1) @ drop (pos + 1) (m_prio_heap b1)
     in rbind (deref (m_sender b1)) (\<lambda>s.
          Inr (ticksToCycles s (clockEdge now s 0), m, b1\<lparr>m_prio_heap := heap\<rparr>)))))"

definition MessageBuffer_getCurrentCycles :: "tick \<Rightarrow> 'm message_buffer \<Rightarrow> cycles result" where
  "MessageBuffer_getCurrentCycles now b = rbind (deref (m_sender b)) (\<lambda>s.
     Inr (ticksToCycles s (clockEdge now s 0)))"

definition erasePacket :: "'m message_buffer \<Rightarrow> nat \<Rightarrow> 'm message_buffer result" where
  "erasePacket b pos = ensure (pos < length (m_prio_heap b)) OutOfBounds (
     Inr (b\<lparr>m_prio_heap := take pos (m_prio_heap b) @ drop (pos + 1) (m_prio_heap b)\<rparr>))"

definition MessageBuffer_clear :: "'m message_buffer \<Rightarrow> 'm message_buffer" where
  "MessageBuffer_clear b = b\<lparr>m_prio_heap := [], mb_msg_counter := 0, m_time_last_time_enqueue := 0,
     m_time_last_time_pop := 0, m_size_at_cycle_start := 0, m_msgs_this_cycle := 0\<rparr>"

definition MessageBuffer_clearStats :: "'m message_buffer \<Rightarrow> 'm message_buffer" where
  "MessageBuffer_clearStats b = b\<lparr>m_not_avail_count := 0, mb_msg_counter := 0\<rparr>"

definition MessageBuffer_recycle :: "tick \<Rightarrow> 'm message_buffer \<Rightarrow> ('m message_buffer \<times> consumer_call list) result" where
  "MessageBuffer_recycle now b =
     rbind (front (m_prio_heap b)) (\<lambda>node.
     rbind (pop_heap node_greater (m_prio_heap b)) (\<lambda>heap.
     rbind (deref (m_receiver b)) (\<lambda>r.
     let t = clockEdge now r (m_recycle_latency b);
         node' = node\<lparr>m_time := t\<rparr>
     in rbind (push_heap node_greater (butlast heap @ [node'])) (\<lambda>heap'.
        ensure (m_consumer b) NullDereference (
          Inr (b\<lparr>m_prio_heap := heap'\<rparr>, [ScheduleEventAbsolute t]))))))"

definition delayHead :: "tick \<Rightarrow> ruby_system \<Rightarrow> cycles \<times> cycles \<times> cycles \<Rightarrow> 'm message_buffer \<Rightarrow>
    ('m message_buffer \<times> consumer_call list) result" where
  "delayHead now rs rnd b =
     rbind (front (m_prio_heap b)) (\<lambda>node.
     rbind (pop_heap node_greater (m_prio_heap b)) (\<lambda>heap.
       MessageBuffer_enqueue now rs rnd (b\<lparr>m_prio_heap := butlast heap\<rparr>) (Some (m_msgptr node)) 1 False))"

section \<open>Stalled messages\<close>

fun stall_append :: "addr \<Rightarrow> 'm message \<Rightarrow> (addr \<times> 'm message list) list \<Rightarrow> (addr \<times> 'm message list) list" where
  "stall_append a m [] = [(a, [m])]"
| "stall_append a m ((a', ms) # xs) =
     (if a = a' then (a', ms @ [m]) # xs
      else if a < a' then (a, [m]) # (a', ms) # xs
      else (a', ms) # stall_append a m xs)"

definition stall_erase :: "addr \<Rightarrow> (addr \<times> 'm message list) list \<Rightarrow> (addr \<times> 'm message list) list" where
  "stall_erase a xs = filter (\<lambda>(a', _). a' \<noteq> a) xs"

text \<open>One round of the loop of \<open>reanalyzeList\<close>: the position of the message that goes back next is
  the front, or with \<open>RANDOM_RECV\<close> the last but one where there are two.\<close>

definition reanalyze_pos :: "'m message list \<Rightarrow> nat" where
  "reanalyze_pos lt = (if RANDOM_RECV \<and> 1 < length lt then length lt - 2 else 0)"

function reanalyzeList :: "'m message_buffer \<Rightarrow> 'm message list \<Rightarrow> tick \<Rightarrow> ('m message_buffer \<times> consumer_call list) result" where
  "reanalyzeList b lt nextTick =
     (if lt = [] then Inr (b, [])
      else let c = mb_msg_counter b + 1;
               pos = reanalyze_pos lt;
               msgNode = \<lparr>m_time = nextTick, m_msg_counter = c, m_msgptr = lt ! pos\<rparr>;
               heap = m_prio_heap b @ [msgNode]
           in rbind (if RANDOM_RECV then Inr heap else push_heap node_greater heap) (\<lambda>heap'.
              ensure (m_consumer b) NullDereference (
              rbind (reanalyzeList (b\<lparr>mb_msg_counter := c, m_prio_heap := heap'\<rparr>)
                       (take pos lt @ drop (pos + 1) lt) nextTick) (\<lambda>(b', calls).
                Inr (b', ScheduleEventAbsolute nextTick # calls)))))"
  by pat_completeness auto
termination
  by (relation "measure (\<lambda>(b, lt, t). length lt)") (auto simp: reanalyze_pos_def RANDOM_RECV_def)

declare reanalyzeList.simps [simp del]

definition reanalyzeMessages :: "tick \<Rightarrow> 'm message_buffer \<Rightarrow> addr \<Rightarrow> ('m message_buffer \<times> consumer_call list) result" where
  "reanalyzeMessages now b a =
     (case map_of (m_stall_msg_map b) a of
        None \<Rightarrow> Inl AssertFailed
      | Some lt \<Rightarrow> rbind (deref (m_receiver b)) (\<lambda>r.
          rbind (reanalyzeList b lt (clockEdge now r 1)) (\<lambda>(b', calls).
            Inr (b'\<lparr>m_stall_msg_map := stall_erase a (m_stall_msg_map b')\<rparr>, calls))))"

definition reanalyzeAllMessages :: "tick \<Rightarrow> 'm message_buffer \<Rightarrow> ('m message_buffer \<times> consumer_call list) result" where
  "reanalyzeAllMessages now b = rbind (deref (m_receiver b)) (\<lambda>r.
     rbind (rfold (\<lambda>(b, calls) (a, lt). rbind (reanalyzeList b lt (clockEdge now r 1)) (\<lambda>(b', calls').
              Inr (b', calls @ calls'))) (b, []) (m_stall_msg_map b)) (\<lambda>(b', calls).
       Inr (b'\<lparr>m_stall_msg_map := []\<rparr>, calls)))"

definition stallMessage :: "tick \<Rightarrow> ruby_system \<Rightarrow> 'm message_buffer \<Rightarrow> addr \<Rightarrow> 'm message_buffer result" where
  "stallMessage now rs b a =
     rbind (getOffset rs a) (\<lambda>off. ensure (off = 0) AssertFailed (
     rbind (MessageBuffer_dequeue now b) (\<lambda>(c, m, b').
       Inr (b'\<lparr>m_stall_msg_map := stall_append a m (m_stall_msg_map b')\<rparr>))))"

section \<open>Functional accesses\<close>

text \<open>The virtual \<open>functionalRead\<close> and \<open>functionalWrite\<close> of the messages are parameters.\<close>

fun functionalRead_list :: "('m message \<Rightarrow> 'p \<Rightarrow> bool \<times> 'p) \<Rightarrow> 'm message list \<Rightarrow> 'p \<Rightarrow> bool \<times> 'p" where
  "functionalRead_list fr [] pkt = (False, pkt)"
| "functionalRead_list fr (m # ms) pkt =
     (let (ok, pkt') = fr m pkt in if ok then (True, pkt') else functionalRead_list fr ms pkt')"

definition buffered_messages :: "'m message_buffer \<Rightarrow> 'm message list" where
  "buffered_messages b = map m_msgptr (m_prio_heap b) @ concat (map snd (m_stall_msg_map b))"

definition MessageBuffer_functionalRead :: "('m message \<Rightarrow> 'p \<Rightarrow> bool \<times> 'p) \<Rightarrow> 'm message_buffer \<Rightarrow> 'p \<Rightarrow> bool \<times> 'p" where
  "MessageBuffer_functionalRead fr b pkt = functionalRead_list fr (buffered_messages b) pkt"

definition MessageBuffer_functionalWrite :: "('m message \<Rightarrow> bool \<times> 'm message) \<Rightarrow> 'm message_buffer \<Rightarrow> u32 \<times> 'm message_buffer" where
  "MessageBuffer_functionalWrite fw b =
     (word_of_nat (length (filter (\<lambda>m. fst (fw m)) (buffered_messages b))),
      b\<lparr>m_prio_heap := map (\<lambda>n. n\<lparr>m_msgptr := snd (fw (m_msgptr n))\<rparr>) (m_prio_heap b),
        m_stall_msg_map := map (\<lambda>(a, ms). (a, map (\<lambda>m. snd (fw m)) ms)) (m_stall_msg_map b)\<rparr>)"

section \<open>The heap order\<close>

definition node_key :: "'m mb_node \<Rightarrow> tick \<times> u64" where
  "node_key n = (m_time n, m_msg_counter n)"

interpretation ng: keyed_comparison node_greater node_key
  by unfold_locales (auto simp: node_greater_def node_key_def ensure_def)

text \<open>The invariant: the queue is a heap, and the message numbers are distinct and used up.\<close>

definition mb_inv :: "'m message_buffer \<Rightarrow> bool" where
  "mb_inv b \<longleftrightarrow> is_heap node_key (m_prio_heap b) \<and> distinct (map m_msg_counter (m_prio_heap b)) \<and>
     (\<forall>n \<in> set (m_prio_heap b). m_msg_counter n \<le> mb_msg_counter b)"

lemma mb_inv_cong:
  "m_prio_heap b = m_prio_heap b' \<Longrightarrow> mb_msg_counter b = mb_msg_counter b' \<Longrightarrow> mb_inv b \<longleftrightarrow> mb_inv b'"
  by (simp add: mb_inv_def)

lemma counters_keys_distinct: "distinct (map m_msg_counter xs) \<Longrightarrow> distinct (map node_key xs)"
  by (induction xs) (auto simp: node_key_def)

lemma distinct_map_mset: "mset xs = mset ys \<Longrightarrow> distinct (map f xs) \<longleftrightarrow> distinct (map f ys)"
  by (rule mset_eq_imp_distinct_iff) simp

text \<open>Pushing a node with a new number, and popping the first one.\<close>

lemma push_node:
  assumes "is_heap node_key xs" and "distinct (map m_msg_counter xs)"
    and "m_msg_counter n \<notin> m_msg_counter ` set xs"
  shows "\<exists>ys. push_heap node_greater (xs @ [n]) = Inr ys \<and> mset ys = add_mset n (mset xs) \<and>
    is_heap node_key ys \<and> distinct (map m_msg_counter ys) \<and> set ys = insert n (set xs)"
proof -
  have d: "distinct (map m_msg_counter (xs @ [n]))" using assms(2,3) by auto
  obtain ys where ys: "push_heap node_greater (xs @ [n]) = Inr ys" "mset ys = add_mset n (mset xs)"
    "is_heap node_key ys"
    using ng.push_heap_spec [OF assms(1), of n] counters_keys_distinct [OF d] by blast
  have "mset ys = mset (xs @ [n])" using ys(2) by simp
  then have "distinct (map m_msg_counter ys)" using d distinct_map_mset by blast
  moreover have "set ys = insert n (set xs)" using ys(2) by (metis set_mset_add_mset_insert set_mset_mset)
  ultimately show ?thesis using ys by blast
qed

lemma pop_node:
  assumes "is_heap node_key xs" and "distinct (map m_msg_counter xs)" and "xs \<noteq> []"
  shows "\<exists>ys. pop_heap node_greater xs = Inr (ys @ [hd xs]) \<and> mset xs = add_mset (hd xs) (mset ys) \<and>
    is_heap node_key ys \<and> distinct (map m_msg_counter ys) \<and> set ys = set xs - {hd xs} \<and>
    (\<forall>n \<in> set xs. node_key (hd xs) \<le> node_key n)"
proof -
  obtain ys where ys: "pop_heap node_greater xs = Inr (ys @ [hd xs])" "mset xs = add_mset (hd xs) (mset ys)"
    "is_heap node_key ys"
    using ng.pop_heap_spec [OF assms(1) counters_keys_distinct [OF assms(2)] assms(3)] by blast
  have m: "mset (hd xs # ys) = mset xs" using ys(2) by simp
  have d: "distinct (map m_msg_counter (hd xs # ys))" using distinct_map_mset [OF m] assms(2) by blast
  have st: "set xs = insert (hd xs) (set ys)" using ys(2) by (metis set_mset_add_mset_insert set_mset_mset)
  have "set ys = set xs - {hd xs}" using st d by auto
  moreover have "\<forall>n \<in> set xs. node_key (hd xs) \<le> node_key n"
    using ng.heap_root_least [OF assms(1)] by (metis in_set_conv_nth)
  ultimately show ?thesis using ys d by auto
qed

section \<open>Enqueue and dequeue\<close>

lemma arrival_frame [simp]:
  "arrival rs (b\<lparr>m_msgs_this_cycle := x\<rparr>) = arrival rs b"
  "arrival rs (b\<lparr>m_time_last_time_enqueue := c\<rparr>) = arrival rs b"
  "arrival rs (b\<lparr>mb_msg_counter := k\<rparr>) = arrival rs b"
  by (intro ext, simp add: arrival_def)+

lemma arrival_last: "arrival rs b t p d rnd = (arr, lst) \<Longrightarrow> m_last_arrival_time b \<le> lst"
  by (auto simp: arrival_def Let_def split: if_splits)

definition enq_node :: "'m message_buffer \<Rightarrow> tick \<Rightarrow> tick \<Rightarrow> 'm message \<Rightarrow> 'm mb_node" where
  "enq_node b edge arr m = \<lparr>m_time = arr, m_msg_counter = mb_msg_counter b + 1,
     m_msgptr = m\<lparr>m_DelayedTicks := m_DelayedTicks m + (edge - m_LastEnqueueTime m), m_LastEnqueueTime := arr\<rparr>\<rparr>"

text \<open>The buffer after an enqueue, apart from its heap.\<close>

definition enq_frame :: "ruby_system \<Rightarrow> cycles \<Rightarrow> tick \<Rightarrow> tick \<Rightarrow> 'm message_buffer \<Rightarrow> 'm message_buffer" where
  "enq_frame rs cyc arr lst b =
     (let b1 = (if m_time_last_time_enqueue b < cyc
                then b\<lparr>m_msgs_this_cycle := 0, m_time_last_time_enqueue := cyc\<rparr> else b)
      in b1\<lparr>mb_msg_counter := mb_msg_counter b1 + 1, m_msgs_this_cycle := m_msgs_this_cycle b1 + 1,
            m_last_arrival_time := (if \<not> m_warmup_enabled rs then arr else lst)\<rparr>)"

lemma enq_frame_simps [simp]:
  "m_prio_heap (enq_frame rs cyc arr lst b) = m_prio_heap b"
  "mb_msg_counter (enq_frame rs cyc arr lst b) = mb_msg_counter b + 1"
  "m_last_arrival_time (enq_frame rs cyc arr lst b) = (if \<not> m_warmup_enabled rs then arr else lst)"
  "m_consumer (enq_frame rs cyc arr lst b) = m_consumer b"
  "m_vnet_id (enq_frame rs cyc arr lst b) = m_vnet_id b"
  "m_strict_fifo (enq_frame rs cyc arr lst b) = m_strict_fifo b"
  "m_stall_msg_map (enq_frame rs cyc arr lst b) = m_stall_msg_map b"
  "m_sender (enq_frame rs cyc arr lst b) = m_sender b"
  "m_receiver (enq_frame rs cyc arr lst b) = m_receiver b"
  by (simp_all add: enq_frame_def Let_def)

text \<open>An enqueue of an ordinary message, as its checks and one heap operation.\<close>

lemma enqueue_eq:
  assumes "m_sender b = Some sd" and "arrival rs b (clockEdge now sd 0) (co_period sd) delta rnd = (arr, lst)"
  shows "MessageBuffer_enqueue now rs rnd b (Some m) delta False =
    ensure (m_ordering_set b) AssertFailed (ensure (0 < delta) AssertFailed (
    ensure (clockEdge now sd 0 < arr) AssertFailed (
    ensure (\<not> (m_strict_fifo b \<and> arr < lst)) Panicked (
    ensure (m_LastEnqueueTime m \<le> clockEdge now sd 0) AssertFailed (
    rbind (push_heap node_greater (m_prio_heap b @ [enq_node b (clockEdge now sd 0) arr m])) (\<lambda>heap.
    ensure (m_consumer b) AssertFailed (
      Inr ((enq_frame rs (curCycle now sd) arr lst b)\<lparr>m_prio_heap := heap\<rparr>,
           [ScheduleEventAbsolute arr, StoreEventInfo (m_vnet_id b)]))))))))"
  using assms
  by (cases "m_time_last_time_enqueue b < curCycle now sd"; cases "m_warmup_enabled rs")
     (simp_all add: MessageBuffer_enqueue_def deref_def Let_def updateDelayedTicks_def setLastEnqueueTime_def
        enq_node_def enq_frame_def ensure_twice)

text \<open>While the message number does not wrap around, the new node's number is new.\<close>

lemma new_counter:
  assumes "mb_inv b" and "mb_msg_counter b \<noteq> - 1"
  shows "mb_msg_counter b + 1 \<notin> m_msg_counter ` set (m_prio_heap b)"
    and "n \<in> set (m_prio_heap b) \<Longrightarrow> m_msg_counter n < mb_msg_counter b + 1"
proof -
  have less: "m_msg_counter n < mb_msg_counter b + 1" if "n \<in> set (m_prio_heap b)" for n
    using assms that u64_less_plus_1 [OF assms(2)] by (auto simp: mb_inv_def intro: le_less_trans)
  then show "n \<in> set (m_prio_heap b) \<Longrightarrow> m_msg_counter n < mb_msg_counter b + 1" .
  show "mb_msg_counter b + 1 \<notin> m_msg_counter ` set (m_prio_heap b)" using less by force
qed

lemma push_new_node:
  assumes "mb_inv b" and "mb_msg_counter b \<noteq> - 1" and "m_msg_counter n = mb_msg_counter b + 1"
  shows "\<exists>heap. push_heap node_greater (m_prio_heap b @ [n]) = Inr heap \<and>
    mset heap = add_mset n (mset (m_prio_heap b)) \<and> set heap = insert n (set (m_prio_heap b)) \<and>
    (\<forall>b'. m_prio_heap b' = heap \<and> mb_msg_counter b' = mb_msg_counter b + 1 \<longrightarrow> mb_inv b')"
proof -
  have "is_heap node_key (m_prio_heap b)" "distinct (map m_msg_counter (m_prio_heap b))"
    using assms(1) by (simp_all add: mb_inv_def)
  from push_node [OF this, of n] new_counter(1) [OF assms(1,2)] assms(3)
  obtain heap where h: "push_heap node_greater (m_prio_heap b @ [n]) = Inr heap"
    "mset heap = add_mset n (mset (m_prio_heap b))" "is_heap node_key heap"
    "distinct (map m_msg_counter heap)" "set heap = insert n (set (m_prio_heap b))" by auto
  moreover have "\<forall>n \<in> set heap. m_msg_counter n \<le> mb_msg_counter b + 1"
    using h(5) assms(3) new_counter(2) [OF assms(1,2)] by (auto intro: less_imp_le)
  ultimately show ?thesis by (auto simp: mb_inv_def)
qed

lemma enqueue_spec:
  assumes "mb_inv b" and "mb_msg_counter b \<noteq> - 1" and "m_sender b = Some sd"
    and "arrival rs b (clockEdge now sd 0) (co_period sd) delta rnd = (arr, lst)"
    and "m_ordering_set b" "m_consumer b" "0 < delta" "clockEdge now sd 0 < arr"
    and "m_strict_fifo b \<longrightarrow> lst \<le> arr" "m_LastEnqueueTime m \<le> clockEdge now sd 0"
  shows "\<exists>b'. MessageBuffer_enqueue now rs rnd b (Some m) delta False =
      Inr (b', [ScheduleEventAbsolute arr, StoreEventInfo (m_vnet_id b)]) \<and> mb_inv b' \<and>
    mset (m_prio_heap b') = add_mset (enq_node b (clockEdge now sd 0) arr m) (mset (m_prio_heap b)) \<and>
    m_stall_msg_map b' = m_stall_msg_map b"
proof -
  let ?n = "enq_node b (clockEdge now sd 0) arr m"
  obtain heap where h: "push_heap node_greater (m_prio_heap b @ [?n]) = Inr heap"
    "mset heap = add_mset ?n (mset (m_prio_heap b))"
    "\<forall>b'. m_prio_heap b' = heap \<and> mb_msg_counter b' = mb_msg_counter b + 1 \<longrightarrow> mb_inv b'"
    using push_new_node [OF assms(1,2), of ?n] by (auto simp: enq_node_def)
  let ?b' = "(enq_frame rs (curCycle now sd) arr lst b)\<lparr>m_prio_heap := heap\<rparr>"
  have "mb_inv ?b'" using h(3) by simp
  then show ?thesis
    using h(1,2) assms(5-) enqueue_eq [OF assms(3,4)] by (auto simp: not_less)
qed

text \<open>Conversely, an enqueue that returns has passed every check.\<close>

lemma enqueue_success:
  assumes "MessageBuffer_enqueue now rs rnd b (Some m) delta False = Inr (b', calls)"
    and "mb_inv b" and "mb_msg_counter b \<noteq> - 1"
  shows "\<exists>sd arr lst. m_sender b = Some sd \<and>
    arrival rs b (clockEdge now sd 0) (co_period sd) delta rnd = (arr, lst) \<and> clockEdge now sd 0 < arr \<and>
    (m_strict_fifo b \<longrightarrow> lst \<le> arr) \<and> calls = [ScheduleEventAbsolute arr, StoreEventInfo (m_vnet_id b)] \<and>
    mb_inv b' \<and> mset (m_prio_heap b') = add_mset (enq_node b (clockEdge now sd 0) arr m) (mset (m_prio_heap b)) \<and>
    b' = (enq_frame rs (curCycle now sd) arr lst b)\<lparr>m_prio_heap := m_prio_heap b'\<rparr>"
proof -
  obtain sd where sd: "m_sender b = Some sd"
    using assms(1) by (cases "m_sender b") (simp_all add: MessageBuffer_enqueue_def deref_def ensure_def split: if_splits)
  obtain arr lst where arr: "arrival rs b (clockEdge now sd 0) (co_period sd) delta rnd = (arr, lst)"
    by (cases "arrival rs b (clockEdge now sd 0) (co_period sd) delta rnd")
  let ?n = "enq_node b (clockEdge now sd 0) arr m"
  obtain heap where h: "push_heap node_greater (m_prio_heap b @ [?n]) = Inr heap"
    "mset heap = add_mset ?n (mset (m_prio_heap b))"
    "\<forall>b'. m_prio_heap b' = heap \<and> mb_msg_counter b' = mb_msg_counter b + 1 \<longrightarrow> mb_inv b'"
    using push_new_node [OF assms(2,3), of ?n] by (auto simp: enq_node_def)
  then show ?thesis
    using assms(1) sd arr by (auto simp: enqueue_eq [OF sd arr] not_less)
qed

lemma record_pop_simps [simp]:
  "m_prio_heap (record_pop e b) = m_prio_heap b" "mb_msg_counter (record_pop e b) = mb_msg_counter b"
  "m_sender (record_pop e b) = m_sender b" "m_receiver (record_pop e b) = m_receiver b"
  "m_stall_msg_map (record_pop e b) = m_stall_msg_map b" "m_strict_fifo (record_pop e b) = m_strict_fifo b"
  "m_last_arrival_time (record_pop e b) = m_last_arrival_time b" "m_consumer (record_pop e b) = m_consumer b"
  by (simp_all add: record_pop_def)

lemma dequeue_eq:
  assumes "mb_inv b" and "m_prio_heap b \<noteq> []" and "m_receiver b = Some r" and "m_sender b = Some sd"
  shows "\<exists>heap. mset (m_prio_heap b) = add_mset (hd (m_prio_heap b)) (mset heap) \<and>
    set heap = set (m_prio_heap b) - {hd (m_prio_heap b)} \<and>
    (\<forall>n \<in> set (m_prio_heap b). node_key (hd (m_prio_heap b)) \<le> node_key n) \<and>
    (\<forall>b'. m_prio_heap b' = heap \<and> mb_msg_counter b' = mb_msg_counter b \<longrightarrow> mb_inv b') \<and>
    MessageBuffer_dequeue now b = rbind (updateDelayedTicks (clockEdge now r 0) (m_msgptr (hd (m_prio_heap b)))) (\<lambda>m.
      Inr (ticksToCycles sd (clockEdge now sd 0), m, (record_pop (clockEdge now r 0) b)\<lparr>m_prio_heap := heap\<rparr>))"
proof -
  have inv: "is_heap node_key (m_prio_heap b)" "distinct (map m_msg_counter (m_prio_heap b))"
    "\<forall>n \<in> set (m_prio_heap b). m_msg_counter n \<le> mb_msg_counter b"
    using assms(1) by (simp_all add: mb_inv_def)
  obtain heap where h: "pop_heap node_greater (m_prio_heap b) = Inr (heap @ [hd (m_prio_heap b)])"
    "mset (m_prio_heap b) = add_mset (hd (m_prio_heap b)) (mset heap)" "is_heap node_key heap"
    "distinct (map m_msg_counter heap)" "set heap = set (m_prio_heap b) - {hd (m_prio_heap b)}"
    "\<forall>n \<in> set (m_prio_heap b). node_key (hd (m_prio_heap b)) \<le> node_key n"
    using pop_node [OF inv(1,2) assms(2)] by blast
  have "front (m_prio_heap b) = Inr (hd (m_prio_heap b))" using assms(2) by (cases "m_prio_heap b") (simp_all add: front_def)
  then have "MessageBuffer_dequeue now b = rbind (updateDelayedTicks (clockEdge now r 0) (m_msgptr (hd (m_prio_heap b)))) (\<lambda>m.
      Inr (ticksToCycles sd (clockEdge now sd 0), m, (record_pop (clockEdge now r 0) b)\<lparr>m_prio_heap := heap\<rparr>))"
    using assms(3,4) h(1) by (simp add: MessageBuffer_dequeue_def deref_def RANDOM_RECV_def Let_def)
  moreover have "\<forall>b'. m_prio_heap b' = heap \<and> mb_msg_counter b' = mb_msg_counter b \<longrightarrow> mb_inv b'"
    using h inv(3) by (auto simp: mb_inv_def)
  ultimately show ?thesis using h(2,5,6) by blast
qed

section \<open>First in, first out\<close>

text \<open>A run of enqueues and dequeues, with the dequeued values in order.\<close>

datatype ('x, 'y) buffer_op = Enq 'x | Deq 'y

fun buffer_run :: "('x \<Rightarrow> 'b \<Rightarrow> 'b result) \<Rightarrow> ('y \<Rightarrow> 'b \<Rightarrow> ('v \<times> 'b) result) \<Rightarrow> ('x, 'y) buffer_op list \<Rightarrow> 'b \<Rightarrow>
    ('v list \<times> 'b) result" where
  "buffer_run enq deq [] b = Inr ([], b)"
| "buffer_run enq deq (Enq x # ops) b = rbind (enq x b) (\<lambda>b'. buffer_run enq deq ops b')"
| "buffer_run enq deq (Deq y # ops) b = rbind (deq y b) (\<lambda>(v, b'). rbind (buffer_run enq deq ops b') (\<lambda>(vs, b'').
     Inr (v # vs, b'')))"

fun enqueued :: "('x, 'y) buffer_op list \<Rightarrow> 'x list" where
  "enqueued [] = []"
| "enqueued (Enq x # ops) = x # enqueued ops"
| "enqueued (Deq y # ops) = enqueued ops"

text \<open>The contract of a buffer with a budget of enqueues: an enqueue appends to the contents, a
  dequeue takes the first value.\<close>

locale fifo_buffer =
  fixes invar :: "'b \<Rightarrow> bool" and contents :: "'b \<Rightarrow> 'v list" and budget :: "'b \<Rightarrow> nat"
    and admissible :: "'x \<Rightarrow> bool" and val :: "'x \<Rightarrow> 'v"
    and enq :: "'x \<Rightarrow> 'b \<Rightarrow> 'b result" and deq :: "'y \<Rightarrow> 'b \<Rightarrow> ('v \<times> 'b) result"
  assumes enq_contents: "invar b \<Longrightarrow> 0 < budget b \<Longrightarrow> admissible x \<Longrightarrow> enq x b = Inr b' \<Longrightarrow>
      invar b' \<and> contents b' = contents b @ [val x] \<and> budget b = Suc (budget b')"
    and deq_contents: "invar b \<Longrightarrow> deq y b = Inr (v, b') \<Longrightarrow>
      invar b' \<and> contents b = v # contents b' \<and> budget b' = budget b"
begin

lemma run_fifo:
  assumes "invar b" and "\<forall>x \<in> set (enqueued ops). admissible x" and "length (enqueued ops) \<le> budget b"
    and "buffer_run enq deq ops b = Inr (out, b')"
  shows "invar b' \<and> contents b @ map val (enqueued ops) = out @ contents b'"
  using assms
proof (induction ops arbitrary: b out)
  case Nil
  then show ?case by simp
next
  case (Cons op ops)
  show ?case
  proof (cases op)
    case (Enq x)
    then obtain b1 where b1: "enq x b = Inr b1" "buffer_run enq deq ops b1 = Inr (out, b')"
      using Cons.prems(4) by auto
    have "invar b1 \<and> contents b1 = contents b @ [val x] \<and> budget b = Suc (budget b1)"
      using enq_contents [OF Cons.prems(1) _ _ b1(1)] Cons.prems(2,3) Enq by simp
    then show ?thesis using Cons.IH [OF _ _ _ b1(2)] Cons.prems(2,3) Enq by simp
  next
    case (Deq y)
    then obtain v b1 vs where b1: "deq y b = Inr (v, b1)" "buffer_run enq deq ops b1 = Inr (vs, b')" "out = v # vs"
      using Cons.prems(4) by auto
    have "invar b1 \<and> contents b = v # contents b1 \<and> budget b1 = budget b"
      using deq_contents [OF Cons.prems(1) b1(1)] .
    then show ?thesis using Cons.IH [OF _ _ _ b1(2)] Cons.prems(2,3) Deq b1(3) by simp
  qed
qed

end

definition fifo_inv :: "'m message_buffer \<Rightarrow> bool" where
  "fifo_inv b \<longleftrightarrow> mb_inv b \<and> m_strict_fifo b \<and> (\<forall>n \<in> set (m_prio_heap b). m_time n \<le> m_last_arrival_time b)"

definition mb_contents :: "'m message_buffer \<Rightarrow> 'm list" where
  "mb_contents b = map (\<lambda>n. payload (m_msgptr n)) (sort_key node_key (m_prio_heap b))"

definition mb_budget :: "'m message_buffer \<Rightarrow> nat" where
  "mb_budget b = 2 ^ 64 - 1 - unat (mb_msg_counter b)"

definition fifo_enq :: "tick \<times> ruby_system \<times> (cycles \<times> cycles \<times> cycles) \<times> 'm message \<times> cycles \<Rightarrow>
    'm message_buffer \<Rightarrow> 'm message_buffer result" where
  "fifo_enq = (\<lambda>(now, rs, rnd, m, delta) b. rmap fst (MessageBuffer_enqueue now rs rnd b (Some m) delta False))"

definition fifo_deq :: "tick \<Rightarrow> 'm message_buffer \<Rightarrow> ('m \<times> 'm message_buffer) result" where
  "fifo_deq now b = rmap (\<lambda>(c, m, b'). (payload m, b')) (MessageBuffer_dequeue now b)"

lemma sort_key_snoc:
  assumes "mset ys = add_mset n (mset xs)" and "distinct (map f ys)" and "\<forall>x \<in> set xs. f x \<le> f n"
  shows "sort_key f ys = sort_key f xs @ [n]"
proof (rule sort_key_inj_key_eq)
  show "mset ys = mset (sort_key f xs @ [n])" using assms(1) by simp
  show "inj_on f (set ys)" using assms(2) by (simp add: distinct_map)
  show "sorted (map f (sort_key f xs @ [n]))" using assms(3) by (simp add: sorted_append)
qed

lemma sort_key_cons:
  assumes "mset ys = add_mset n (mset xs)" and "distinct (map f ys)" and "\<forall>x \<in> set xs. f n \<le> f x"
  shows "sort_key f ys = n # sort_key f xs"
proof (rule sort_key_inj_key_eq)
  show "mset ys = mset (n # sort_key f xs)" using assms(1) by simp
  show "inj_on f (set ys)" using assms(2) by (simp add: distinct_map)
  show "sorted (map f (n # sort_key f xs))" using assms(3) by simp
qed

lemma mb_inv_keys: "mb_inv b \<Longrightarrow> distinct (map node_key (m_prio_heap b))"
  by (simp add: mb_inv_def counters_keys_distinct)

lemma fifo_enq_contents:
  assumes "fifo_inv b" and "mb_msg_counter b \<noteq> - 1" and "\<not> m_warmup_enabled rs"
    and "MessageBuffer_enqueue now rs rnd b (Some m) delta False = Inr (b', calls)"
  shows "fifo_inv b' \<and> mb_contents b' = mb_contents b @ [payload m] \<and>
    mb_msg_counter b' = mb_msg_counter b + 1"
proof -
  have inv: "mb_inv b" "m_strict_fifo b" "\<forall>n \<in> set (m_prio_heap b). m_time n \<le> m_last_arrival_time b"
    using assms(1) by (simp_all add: fifo_inv_def)
  obtain sd arr lst where e: "arrival rs b (clockEdge now sd 0) (co_period sd) delta rnd = (arr, lst)" "lst \<le> arr"
    "mb_inv b'" "mset (m_prio_heap b') = add_mset (enq_node b (clockEdge now sd 0) arr m) (mset (m_prio_heap b))"
    "b' = (enq_frame rs (curCycle now sd) arr lst b)\<lparr>m_prio_heap := m_prio_heap b'\<rparr>"
    using enqueue_success [OF assms(4) inv(1) assms(2)] inv(2) by blast
  let ?n = "enq_node b (clockEdge now sd 0) arr m"
  have frame: "m_strict_fifo b'" "m_last_arrival_time b' = arr" "mb_msg_counter b' = mb_msg_counter b + 1"
    using inv(2) assms(3) by (subst e(5), simp)+
  have old: "m_time n \<le> arr" if "n \<in> set (m_prio_heap b)" for n
    using inv(3) that arrival_last [OF e(1)] e(2) by (meson order_trans)
  have st: "set (m_prio_heap b') = insert ?n (set (m_prio_heap b))"
    using e(4) by (metis set_mset_add_mset_insert set_mset_mset)
  have "\<forall>n \<in> set (m_prio_heap b). node_key n \<le> node_key ?n"
    using old new_counter(2) [OF inv(1) assms(2)] by (auto simp: node_key_def enq_node_def less_imp_le)
  then have "sort_key node_key (m_prio_heap b') = sort_key node_key (m_prio_heap b) @ [?n]"
    using sort_key_snoc [OF e(4) mb_inv_keys [OF e(3)]] by blast
  moreover have "fifo_inv b'" using e(3) frame st old by (auto simp: fifo_inv_def enq_node_def)
  ultimately show ?thesis using frame by (simp add: mb_contents_def enq_node_def)
qed

lemma dequeue_needs:
  assumes "MessageBuffer_dequeue now b = Inr (c, m, b')"
  shows "m_prio_heap b \<noteq> []" "\<exists>r sd. m_receiver b = Some r \<and> m_sender b = Some sd"
  using assms
  by (auto simp: MessageBuffer_dequeue_def front_def deref_def Let_def split: list.splits option.splits)

lemma dequeue_success:
  assumes "mb_inv b" and "MessageBuffer_dequeue now b = Inr (c, m, b')"
  shows "\<exists>r sd. m_receiver b = Some r \<and> m_sender b = Some sd \<and> m_prio_heap b \<noteq> [] \<and>
    updateDelayedTicks (clockEdge now r 0) (m_msgptr (hd (m_prio_heap b))) = Inr m \<and> mb_inv b' \<and>
    mset (m_prio_heap b) = add_mset (hd (m_prio_heap b)) (mset (m_prio_heap b')) \<and>
    set (m_prio_heap b') = set (m_prio_heap b) - {hd (m_prio_heap b)} \<and>
    (\<forall>n \<in> set (m_prio_heap b). node_key (hd (m_prio_heap b)) \<le> node_key n) \<and>
    b' = (record_pop (clockEdge now r 0) b)\<lparr>m_prio_heap := m_prio_heap b'\<rparr>"
proof -
  obtain r sd where rs: "m_receiver b = Some r" "m_sender b = Some sd" using dequeue_needs [OF assms(2)] by blast
  show ?thesis
    using dequeue_eq [OF assms(1) dequeue_needs(1) [OF assms(2)] rs, of now] assms(2) rs dequeue_needs(1) [OF assms(2)]
    by (elim exE conjE) auto
qed

lemma updateDelayedTicks_payload: "updateDelayedTicks t m = Inr m' \<Longrightarrow> payload m' = payload m"
  by (auto simp: updateDelayedTicks_def Let_def)

lemma fifo_deq_contents:
  assumes "fifo_inv b" and "MessageBuffer_dequeue now b = Inr (c, m, b')"
  shows "fifo_inv b' \<and> mb_contents b = payload m # mb_contents b' \<and> mb_msg_counter b' = mb_msg_counter b"
proof -
  have inv: "mb_inv b" "m_strict_fifo b" "\<forall>n \<in> set (m_prio_heap b). m_time n \<le> m_last_arrival_time b"
    using assms(1) by (simp_all add: fifo_inv_def)
  obtain r where d: "updateDelayedTicks (clockEdge now r 0) (m_msgptr (hd (m_prio_heap b))) = Inr m" "mb_inv b'"
    "mset (m_prio_heap b) = add_mset (hd (m_prio_heap b)) (mset (m_prio_heap b'))"
    "set (m_prio_heap b') = set (m_prio_heap b) - {hd (m_prio_heap b)}"
    "\<forall>n \<in> set (m_prio_heap b). node_key (hd (m_prio_heap b)) \<le> node_key n"
    "b' = (record_pop (clockEdge now r 0) b)\<lparr>m_prio_heap := m_prio_heap b'\<rparr>"
    using dequeue_success [OF inv(1) assms(2)] by blast
  have frame: "m_strict_fifo b'" "m_last_arrival_time b' = m_last_arrival_time b" "mb_msg_counter b' = mb_msg_counter b"
    using inv(2) by (subst d(6), simp)+
  have "sort_key node_key (m_prio_heap b) = hd (m_prio_heap b) # sort_key node_key (m_prio_heap b')"
    using sort_key_cons [OF d(3) mb_inv_keys [OF inv(1)]] d(4,5) by auto
  then show ?thesis
    using d frame inv(3) updateDelayedTicks_payload [OF d(1)] by (simp add: mb_contents_def fifo_inv_def)
qed

interpretation mbq: fifo_buffer fifo_inv mb_contents mb_budget
  "\<lambda>(now, rs, rnd, m, delta). \<not> m_warmup_enabled rs" "\<lambda>(now, rs, rnd, m, delta). payload m" fifo_enq fifo_deq
proof unfold_locales
  fix b b' :: "'m message_buffer" and x
  assume inv: "fifo_inv b" and budget: "0 < mb_budget b"
    and x: "case x of (now, rs, rnd, m, delta) \<Rightarrow> \<not> m_warmup_enabled rs" and enq: "fifo_enq x b = Inr b'"
  obtain now rs rnd m delta where xd: "x = (now, rs, rnd, m, delta)" by (cases x)
  obtain calls where e: "MessageBuffer_enqueue now rs rnd b (Some m) delta False = Inr (b', calls)"
    using enq by (cases "MessageBuffer_enqueue now rs rnd b (Some m) delta False")
      (auto simp: fifo_enq_def xd)
  have max: "mb_msg_counter b \<noteq> - 1" using budget by (simp add: mb_budget_def u64_not_max)
  note c = fifo_enq_contents [OF inv max _ e]
  have "mb_budget b = Suc (mb_budget b')"
    using c x xd max by (simp add: mb_budget_def u64_not_max unat_add_u64)
  then show "fifo_inv b' \<and> mb_contents b' = mb_contents b @ [case x of (now, rs, rnd, m, delta) \<Rightarrow> payload m] \<and>
      mb_budget b = Suc (mb_budget b')"
    using c x xd by simp
next
  fix b b' :: "'m message_buffer" and y v
  assume inv: "fifo_inv b" and deq: "fifo_deq y b = Inr (v, b')"
  obtain c m where e: "MessageBuffer_dequeue y b = Inr (c, m, b')" "v = payload m"
    using deq by (cases "MessageBuffer_dequeue y b") (auto simp: fifo_deq_def)
  then show "fifo_inv b' \<and> mb_contents b = v # mb_contents b' \<and> mb_budget b' = mb_budget b"
    using fifo_deq_contents [OF inv e(1)] by (simp add: mb_budget_def)
qed

section \<open>Recycling, stalling and reanalyzing\<close>

lemma recycle_spec:
  fixes now :: tick and b :: "'m message_buffer" and r :: clocked_object
  assumes "mb_inv b" and "m_prio_heap b \<noteq> []" and "m_receiver b = Some r" and "m_consumer b"
  defines "t \<equiv> clockEdge now r (m_recycle_latency b)"
  shows "\<exists>b'. MessageBuffer_recycle now b = Inr (b', [ScheduleEventAbsolute t]) \<and> mb_inv b' \<and>
    mset (m_prio_heap b') = add_mset ((hd (m_prio_heap b))\<lparr>m_time := t\<rparr>) (mset (m_prio_heap b) - {#hd (m_prio_heap b)#})"
proof -
  let ?n = "hd (m_prio_heap b)" and ?n' = "(hd (m_prio_heap b))\<lparr>m_time := t\<rparr>"
  have inv: "is_heap node_key (m_prio_heap b)" "distinct (map m_msg_counter (m_prio_heap b))"
    "\<forall>n \<in> set (m_prio_heap b). m_msg_counter n \<le> mb_msg_counter b"
    using assms(1) by (simp_all add: mb_inv_def)
  obtain heap where h: "pop_heap node_greater (m_prio_heap b) = Inr (heap @ [?n])"
    "mset (m_prio_heap b) = add_mset ?n (mset heap)" "is_heap node_key heap"
    "distinct (map m_msg_counter heap)" "set heap = set (m_prio_heap b) - {?n}"
    using pop_node [OF inv(1,2) assms(2)] by blast
  have "mset (?n # heap) = mset (m_prio_heap b)" using h(2) by simp
  then have "distinct (map m_msg_counter (?n # heap))" using distinct_map_mset inv(2) by blast
  then have "m_msg_counter ?n' \<notin> m_msg_counter ` set heap" by simp
  from push_node [OF h(3,4) this] obtain ys where ys: "push_heap node_greater (heap @ [?n']) = Inr ys"
    "mset ys = add_mset ?n' (mset heap)" "is_heap node_key ys" "distinct (map m_msg_counter ys)"
    "set ys = insert ?n' (set heap)" by blast
  have "front (m_prio_heap b) = Inr ?n" using assms(2) by (cases "m_prio_heap b") (simp_all add: front_def)
  then have "MessageBuffer_recycle now b = Inr (b\<lparr>m_prio_heap := ys\<rparr>, [ScheduleEventAbsolute t])"
    using h(1) ys(1) assms(3,4) by (simp add: MessageBuffer_recycle_def deref_def t_def Let_def)
  moreover have "mb_inv (b\<lparr>m_prio_heap := ys\<rparr>)"
    using ys(3-5) h(5) inv(3) assms(2) by (auto simp: mb_inv_def)
  ultimately show ?thesis using ys(2) h(2) by simp
qed

lemma reanalyzeList_spec:
  assumes "mb_inv b" and "m_consumer b" and "length lt \<le> mb_budget b"
  shows "\<exists>heap k. reanalyzeList b lt t = Inr (b\<lparr>m_prio_heap := heap, mb_msg_counter := k\<rparr>, replicate (length lt) (ScheduleEventAbsolute t)) \<and>
    mb_inv (b\<lparr>m_prio_heap := heap, mb_msg_counter := k\<rparr>) \<and>
    mset (map m_msgptr heap) = mset (map m_msgptr (m_prio_heap b)) + mset lt \<and>
    unat k = unat (mb_msg_counter b) + length lt"
  using assms
proof (induction lt arbitrary: b)
  case Nil
  show ?case
    by (rule exI [of _ "m_prio_heap b"], rule exI [of _ "mb_msg_counter b"]) (simp add: Nil reanalyzeList.simps)
next
  case (Cons m lt)
  let ?n = "\<lparr>m_time = t, m_msg_counter = mb_msg_counter b + 1, m_msgptr = m\<rparr>"
  have max: "mb_msg_counter b \<noteq> - 1" using Cons.prems(3) by (simp add: mb_budget_def u64_not_max)
  obtain heap where h: "push_heap node_greater (m_prio_heap b @ [?n]) = Inr heap"
    "mset heap = add_mset ?n (mset (m_prio_heap b))"
    "\<forall>b'. m_prio_heap b' = heap \<and> mb_msg_counter b' = mb_msg_counter b + 1 \<longrightarrow> mb_inv b'"
    using push_new_node [OF Cons.prems(1) max, of ?n] by auto
  let ?b = "b\<lparr>mb_msg_counter := mb_msg_counter b + 1, m_prio_heap := heap\<rparr>"
  have k: "unat (mb_msg_counter b + 1) = unat (mb_msg_counter b) + 1"
    using max by (simp add: u64_not_max unat_add_u64)
  have "mb_inv ?b" "m_consumer ?b" "length lt \<le> mb_budget ?b"
    using h(3) Cons.prems(2,3) k by (simp_all add: mb_budget_def)
  from Cons.IH [OF this] obtain heap' k' where
    r: "reanalyzeList ?b lt t = Inr (?b\<lparr>m_prio_heap := heap', mb_msg_counter := k'\<rparr>, replicate (length lt) (ScheduleEventAbsolute t))"
    "mb_inv (?b\<lparr>m_prio_heap := heap', mb_msg_counter := k'\<rparr>)"
    "mset (map m_msgptr heap') = mset (map m_msgptr (m_prio_heap ?b)) + mset lt" "unat k' = unat (mb_msg_counter ?b) + length lt"
    by blast
  have "reanalyzeList b (m # lt) t = Inr (b\<lparr>m_prio_heap := heap', mb_msg_counter := k'\<rparr>, replicate (length (m # lt)) (ScheduleEventAbsolute t))"
    using h(1) r(1) Cons.prems(2)
    by (subst reanalyzeList.simps) (simp add: Let_def reanalyze_pos_def RANDOM_RECV_def)
  moreover have "mset (map m_msgptr heap) = add_mset m (mset (map m_msgptr (m_prio_heap b)))"
    using h(2) by simp
  ultimately show ?case using r(2-4) k
    by (intro exI [of _ heap'] exI [of _ k']) simp
qed

definition stall_wf :: "(addr \<times> 'm message list) list \<Rightarrow> bool" where
  "stall_wf xs \<longleftrightarrow> sorted_wrt (<) (map fst xs)"

lemma stall_append_keys: "fst ` set (stall_append a m xs) = insert a (fst ` set xs)"
proof (induction xs)
  case (Cons x xs)
  then show ?case by (cases x) (simp add: insert_commute)
qed simp

lemma stall_append_wf: "stall_wf xs \<Longrightarrow> stall_wf (stall_append a m xs)"
proof (induction xs)
  case Nil
  then show ?case by (simp add: stall_wf_def)
next
  case (Cons x xs)
  obtain a' ms where x: "x = (a', ms)" by (cases x)
  have IH: "sorted_wrt (<) (map fst (stall_append a m xs))" using Cons by (simp add: stall_wf_def)
  have keys: "\<forall>k \<in> fst ` set xs. a' < k" using Cons.prems by (auto simp: stall_wf_def x)
  have "\<forall>k \<in> fst ` set (stall_append a m xs). a' < k" if "a' < a"
    using that keys unfolding stall_append_keys by simp
  then show ?case
    using Cons.prems IH keys by (auto simp: stall_wf_def x intro: less_trans)
qed

lemma stall_append_mset:
  "mset (concat (map snd (stall_append a m xs))) = add_mset m (mset (concat (map snd xs)))"
  by (induction xs) auto

lemma stall_erase_mset:
  assumes "stall_wf xs" and "map_of xs a = Some lt"
  shows "mset (concat (map snd xs)) = mset lt + mset (concat (map snd (stall_erase a xs)))"
  using assms
proof (induction xs)
  case Nil
  then show ?case by simp
next
  case (Cons x xs)
  obtain a' ms where x: "x = (a', ms)" by (cases x)
  show ?case
  proof (cases "a' = a")
    case True
    have "a \<notin> fst ` set xs" using Cons.prems(1) True by (auto simp: stall_wf_def x)
    then have "stall_erase a xs = xs" by (force simp: stall_erase_def filter_id_conv)
    then show ?thesis using True Cons.prems(2) by (simp add: x stall_erase_def)
  next
    case False
    then show ?thesis using Cons by (simp add: x stall_erase_def stall_wf_def)
  qed
qed

lemma stall_erase_wf: "stall_wf xs \<Longrightarrow> stall_wf (stall_erase a xs)"
  unfolding stall_wf_def stall_erase_def by (simp add: sorted_wrt_map sorted_wrt_filter)

lemma stall_erase_map_of: "map_of (stall_erase a xs) a = None"
  by (auto simp: stall_erase_def map_of_eq_None_iff)

definition all_payloads :: "'m message_buffer \<Rightarrow> 'm multiset" where
  "all_payloads b = mset (map payload (buffered_messages b))"

lemma stallMessage_spec:
  assumes "mb_inv b" and "stall_wf (m_stall_msg_map b)" and "stallMessage now rs b a = Inr b'"
  shows "mb_inv b' \<and> stall_wf (m_stall_msg_map b') \<and> all_payloads b' = all_payloads b \<and>
    length (m_prio_heap b) = Suc (length (m_prio_heap b'))"
proof -
  obtain c m b1 where d: "MessageBuffer_dequeue now b = Inr (c, m, b1)"
    "b' = b1\<lparr>m_stall_msg_map := stall_append a m (m_stall_msg_map b1)\<rparr>"
    using assms(3) by (auto simp: stallMessage_def)
  obtain r where q: "updateDelayedTicks (clockEdge now r 0) (m_msgptr (hd (m_prio_heap b))) = Inr m" "mb_inv b1"
    "mset (m_prio_heap b) = add_mset (hd (m_prio_heap b)) (mset (m_prio_heap b1))"
    "b1 = (record_pop (clockEdge now r 0) b)\<lparr>m_prio_heap := m_prio_heap b1\<rparr>"
    using dequeue_success [OF assms(1) d(1)] by blast
  have map1: "m_stall_msg_map b1 = m_stall_msg_map b" by (subst q(4)) simp
  have "image_mset (\<lambda>n. payload (m_msgptr n)) (mset (m_prio_heap b)) =
      add_mset (payload m) (image_mset (\<lambda>n. payload (m_msgptr n)) (mset (m_prio_heap b1)))"
    using arg_cong [OF q(3), of "image_mset (\<lambda>n. payload (m_msgptr n))"] updateDelayedTicks_payload [OF q(1)] by simp
  moreover have "image_mset payload (mset (concat (map snd (stall_append a m (m_stall_msg_map b))))) =
      add_mset (payload m) (image_mset payload (mset (concat (map snd (m_stall_msg_map b)))))"
    unfolding stall_append_mset by simp
  ultimately have "all_payloads b' = all_payloads b"
    by (simp add: all_payloads_def buffered_messages_def d(2) map1 image_mset.compositionality comp_def
        del: mset_concat)
  moreover have "length (m_prio_heap b) = Suc (length (m_prio_heap b1))"
    using arg_cong [OF q(3), of size] by simp
  moreover have "mb_inv b'" using q(2) by (simp add: d(2) mb_inv_def)
  ultimately show ?thesis using assms(2) by (simp add: d(2) map1 stall_append_wf)
qed

lemma reanalyzeMessages_spec:
  assumes "mb_inv b" and "m_consumer b" and "stall_wf (m_stall_msg_map b)" and "m_receiver b = Some r"
    and "map_of (m_stall_msg_map b) a = Some lt" and "length lt \<le> mb_budget b"
  shows "\<exists>b'. reanalyzeMessages now b a = Inr (b', replicate (length lt) (ScheduleEventAbsolute (clockEdge now r 1))) \<and>
    mb_inv b' \<and> stall_wf (m_stall_msg_map b') \<and> map_of (m_stall_msg_map b') a = None \<and>
    all_payloads b' = all_payloads b \<and> length (m_prio_heap b') = length (m_prio_heap b) + length lt"
proof -
  obtain heap k where h: "reanalyzeList b lt (clockEdge now r 1) =
      Inr (b\<lparr>m_prio_heap := heap, mb_msg_counter := k\<rparr>, replicate (length lt) (ScheduleEventAbsolute (clockEdge now r 1)))"
    "mb_inv (b\<lparr>m_prio_heap := heap, mb_msg_counter := k\<rparr>)"
    "mset (map m_msgptr heap) = mset (map m_msgptr (m_prio_heap b)) + mset lt"
    using reanalyzeList_spec [OF assms(1,2,6)] by blast
  let ?b = "b\<lparr>m_prio_heap := heap, mb_msg_counter := k, m_stall_msg_map := stall_erase a (m_stall_msg_map b)\<rparr>"
  have "reanalyzeMessages now b a = Inr (?b, replicate (length lt) (ScheduleEventAbsolute (clockEdge now r 1)))"
    using h(1) assms(4,5) by (simp add: reanalyzeMessages_def deref_def)
  moreover have "mb_inv ?b" using h(2) by (simp add: mb_inv_def)
  moreover have "mset (buffered_messages ?b) = mset (buffered_messages b)"
    using h(3) stall_erase_mset [OF assms(3,5)] by (simp add: buffered_messages_def)
  then have "all_payloads ?b = all_payloads b" by (simp add: all_payloads_def)
  moreover have "length heap = length (m_prio_heap b) + length lt"
    using arg_cong [OF h(3), of size] by simp
  ultimately show ?thesis
    by (intro exI [of _ ?b]) (simp add: stall_erase_wf assms(3) stall_erase_map_of)
qed

section \<open>Messages move one by one\<close>

lemma enqueue_moves:
  assumes "MessageBuffer_enqueue now rs rnd b (Some m) delta False = Inr (b', calls)"
  shows "\<exists>n. mset (m_prio_heap b') = add_mset n (mset (m_prio_heap b)) \<and> payload (m_msgptr n) = payload m \<and>
    calls = [ScheduleEventAbsolute (m_time n), StoreEventInfo (m_vnet_id b)] \<and> m_vnet_id b' = m_vnet_id b"
proof -
  obtain sd where sd: "m_sender b = Some sd"
    using assms by (cases "m_sender b") (simp_all add: MessageBuffer_enqueue_def deref_def ensure_def split: if_splits)
  obtain arr lst where arr: "arrival rs b (clockEdge now sd 0) (co_period sd) delta rnd = (arr, lst)"
    by (cases "arrival rs b (clockEdge now sd 0) (co_period sd) delta rnd")
  let ?n = "enq_node b (clockEdge now sd 0) arr m"
  obtain heap where "push_heap node_greater (m_prio_heap b @ [?n]) = Inr heap"
    "b' = (enq_frame rs (curCycle now sd) arr lst b)\<lparr>m_prio_heap := heap\<rparr>"
    "calls = [ScheduleEventAbsolute arr, StoreEventInfo (m_vnet_id b)]"
    using assms by (auto simp: enqueue_eq [OF sd arr])
  then show ?thesis using push_heap_mset by (intro exI [of _ ?n]) (fastforce simp: enq_node_def)
qed

lemma dequeue_moves:
  assumes "MessageBuffer_dequeue now b = Inr (c, m, b')"
  shows "m_prio_heap b \<noteq> []" and "mset (m_prio_heap b) = add_mset (hd (m_prio_heap b)) (mset (m_prio_heap b'))"
    and "payload m = payload (m_msgptr (hd (m_prio_heap b)))" and "m_vnet_id b' = m_vnet_id b"
proof -
  show ne: "m_prio_heap b \<noteq> []" by (rule dequeue_needs [OF assms])
  obtain r where d: "updateDelayedTicks (clockEdge now r 0) (m_msgptr (hd (m_prio_heap b))) = Inr m"
    "\<exists>h. pop_heap node_greater (m_prio_heap b) = Inr h \<and> b' = (record_pop (clockEdge now r 0) b)\<lparr>m_prio_heap := butlast h\<rparr>"
    using assms ne
    by (auto simp: MessageBuffer_dequeue_def front_def deref_def RANDOM_RECV_def Let_def split: list.splits option.splits)
  then obtain h where h: "pop_heap node_greater (m_prio_heap b) = Inr h"
    "b' = (record_pop (clockEdge now r 0) b)\<lparr>m_prio_heap := butlast h\<rparr>" by blast
  show "mset (m_prio_heap b) = add_mset (hd (m_prio_heap b)) (mset (m_prio_heap b'))"
    using pop_heap_mset(2) [OF h(1) ne] h(2) by simp
  show "payload m = payload (m_msgptr (hd (m_prio_heap b)))" by (rule updateDelayedTicks_payload [OF d(1)])
  show "m_vnet_id b' = m_vnet_id b" by (simp add: h(2) record_pop_def)
qed

section \<open>Properties\<close>

text \<open>Two buffers for the witnesses: an empty first-in first-out buffer between components with a
  clock period of 500 ticks, and an unordered one that holds three messages.\<close>

definition mb_fifo :: "nat message_buffer" where
  "mb_fifo = (MessageBuffer_new ''buffer'')\<lparr>m_sender := Some clock500, m_receiver := Some clock500, m_consumer := True,
     m_strict_fifo := True, m_ordering_set := True\<rparr>"

definition mb_three :: "nat message_buffer" where
  "mb_three = mb_fifo\<lparr>m_strict_fifo := False, mb_msg_counter := 3, m_prio_heap := [
     \<lparr>m_time = 10, m_msg_counter = 1, m_msgptr = Message_new 0 1\<rparr>,
     \<lparr>m_time = 20, m_msg_counter = 2, m_msgptr = Message_new 0 2\<rparr>,
     \<lparr>m_time = 9000, m_msg_counter = 3, m_msgptr = Message_new 0 3\<rparr>]\<rparr>"

lemma mb_fifo_inv [simp]: "fifo_inv mb_fifo"
  by (simp add: fifo_inv_def mb_inv_def is_heap_def mb_fifo_def MessageBuffer_new_def)

lemma mb_three_inv [simp]: "mb_inv mb_three"
  by (auto simp: mb_inv_def is_heap_def mb_three_def heap_parent_def node_key_def less_Suc_eq)

text \<open>C2: in a strictly ordered buffer, whatever the interleaving of enqueues and dequeues, their times
  and the random numbers, the messages that come out followed by those still waiting are exactly the
  messages that waited at the start followed by those that went in, in this order (outside of cache
  warmup, and as long as the 64-bit message number does not wrap around).\<close>

theorem message_buffer_fifo:
  assumes "fifo_inv b" and "\<forall>(now, rs, rnd, m, delta) \<in> set (enqueued ops). \<not> m_warmup_enabled rs"
    and "length (enqueued ops) \<le> mb_budget b" and "buffer_run fifo_enq fifo_deq ops b = Inr (out, b')"
  shows "fifo_inv b' \<and>
    mb_contents b @ map (\<lambda>(now, rs, rnd, m, delta). payload m) (enqueued ops) = out @ mb_contents b'"
  by (rule mbq.run_fifo) (use assms in auto)

theorem message_buffer_fifo_witness:
  "\<exists>b'. buffer_run fifo_enq fifo_deq [Enq (0, ruby64, (0, 0, 0), Message_new 0 7, 1),
       Enq (0, ruby64, (0, 0, 0), Message_new 0 8, 1), Deq 500] mb_fifo = Inr ([7], b') \<and> mb_contents b' = [8]"
proof -
  let ?ops = "[Enq (0, ruby64, (0, 0, 0), Message_new 0 7, 1), Enq (0, ruby64, (0, 0, 0), Message_new 0 8, 1), Deq 500]"
  have "rmap fst (buffer_run fifo_enq fifo_deq ?ops mb_fifo) = Inr [7]" by code_simp
  then obtain b' where r: "buffer_run fifo_enq fifo_deq ?ops mb_fifo = Inr ([7], b')"
    by (cases "buffer_run fifo_enq fifo_deq ?ops mb_fifo") auto
  have "mb_contents mb_fifo @ map (\<lambda>(now, rs, rnd, m, delta). payload m) (enqueued ?ops) = [7] @ mb_contents b'"
    using message_buffer_fifo [OF mb_fifo_inv _ _ r]
    by (simp add: ruby64_def mb_budget_def mb_fifo_def MessageBuffer_new_def)
  then have "mb_contents b' = [8]"
    by (simp add: mb_contents_def mb_fifo_def MessageBuffer_new_def Message_new_def)
  with r show ?thesis by blast
qed

text \<open>An enqueue of an ordinary message whose arrival time lies in the future keeps the heap
  invariant, adds exactly one node with the computed arrival time and a new message number, and asks
  the consumer for a wakeup at the arrival time.\<close>

lemma enqueue_adds_message:
  assumes "mb_inv b" and "mb_msg_counter b \<noteq> - 1" and "m_sender b = Some sd"
    and "arrival rs b (clockEdge now sd 0) (co_period sd) delta rnd = (arr, lst)"
    and "m_ordering_set b" "m_consumer b" "0 < delta" "clockEdge now sd 0 < arr"
    and "m_strict_fifo b \<longrightarrow> lst \<le> arr" "m_LastEnqueueTime m \<le> clockEdge now sd 0"
  shows "\<exists>b'. MessageBuffer_enqueue now rs rnd b (Some m) delta False =
      Inr (b', [ScheduleEventAbsolute arr, StoreEventInfo (m_vnet_id b)]) \<and> mb_inv b' \<and>
    mset (m_prio_heap b') = add_mset (enq_node b (clockEdge now sd 0) arr m) (mset (m_prio_heap b)) \<and>
    m_stall_msg_map b' = m_stall_msg_map b"
  using enqueue_spec [OF assms] .

text \<open>A dequeue that returns removes a node with the least arrival time and, among those, the least
  message number, hands out its message with the waiting time added to the delay, and keeps the
  invariant; it returns only at or after the time that the message was stamped with.\<close>

lemma dequeue_takes_earliest:
  assumes "mb_inv b" and "MessageBuffer_dequeue now b = Inr (c, m, b')"
  shows "mb_inv b' \<and> (\<exists>n r. m_receiver b = Some r \<and>
    mset (m_prio_heap b) = add_mset n (mset (m_prio_heap b')) \<and>
    (\<forall>n' \<in> set (m_prio_heap b). m_time n < m_time n' \<or>
       m_time n = m_time n' \<and> m_msg_counter n \<le> m_msg_counter n') \<and>
    m_LastEnqueueTime (m_msgptr n) \<le> clockEdge now r 0 \<and>
    m = (m_msgptr n)\<lparr>m_DelayedTicks := m_DelayedTicks (m_msgptr n) + (clockEdge now r 0 - m_LastEnqueueTime (m_msgptr n))\<rparr>)"
proof -
  obtain r sd where d: "m_receiver b = Some r"
    "updateDelayedTicks (clockEdge now r 0) (m_msgptr (hd (m_prio_heap b))) = Inr m" "mb_inv b'"
    "mset (m_prio_heap b) = add_mset (hd (m_prio_heap b)) (mset (m_prio_heap b'))"
    "\<forall>n \<in> set (m_prio_heap b). node_key (hd (m_prio_heap b)) \<le> node_key n"
    using dequeue_success [OF assms] by blast
  then show ?thesis
    by (auto simp: updateDelayedTicks_def node_key_def Let_def order_less_le)
qed

text \<open>C19: stalling moves the first message to the entry of its address, reanalyzing an address moves all
  of its messages back and asks for one wakeup each at the receiver's next clock edge; no message is
  lost or duplicated, the heap invariant stays, and the entry is gone afterwards.\<close>

theorem stall_reanalyze_keeps_messages:
  assumes "mb_inv b" and "stall_wf (m_stall_msg_map b)"
    and "stallMessage now rs b a = Inr b'" and "m_consumer b'" and "m_receiver b' = Some r"
    and "map_of (m_stall_msg_map b') a = Some lt" and "length lt \<le> mb_budget b'"
  shows "\<exists>b''. reanalyzeMessages later b' a = Inr (b'', replicate (length lt) (ScheduleEventAbsolute (clockEdge later r 1))) \<and>
    mb_inv b'' \<and> stall_wf (m_stall_msg_map b'') \<and> map_of (m_stall_msg_map b'') a = None \<and>
    all_payloads b' = all_payloads b \<and> all_payloads b'' = all_payloads b \<and>
    length (m_prio_heap b) = length (m_prio_heap b') + 1 \<and>
    length (m_prio_heap b'') = length (m_prio_heap b') + length lt"
  using stallMessage_spec [OF assms(1-3)] reanalyzeMessages_spec [of b' r a lt later] assms(4-7)
  by auto

theorem stall_reanalyze_keeps_messages_witness:
  "\<exists>b' b'' calls. stallMessage 500 ruby64 mb_three 64 = Inr b' \<and> reanalyzeMessages 500 b' 64 = Inr (b'', calls) \<and>
     all_payloads b'' = all_payloads mb_three"
proof -
  have "rmap (\<lambda>b. (m_consumer b, m_receiver b, map snd (m_stall_msg_map b), map fst (m_stall_msg_map b), mb_msg_counter b))
      (stallMessage 500 ruby64 mb_three 64) =
    Inr (True, Some clock500, [[(Message_new 0 1)\<lparr>m_DelayedTicks := 500\<rparr>]], [64], 3)" by code_simp
  then obtain b' where b': "stallMessage 500 ruby64 mb_three 64 = Inr b'" "m_consumer b'" "m_receiver b' = Some clock500"
    "m_stall_msg_map b' = [(64, [(Message_new 0 1)\<lparr>m_DelayedTicks := 500\<rparr>])]" "mb_msg_counter b' = 3"
    by (cases "stallMessage 500 ruby64 mb_three 64") (auto simp: map_eq_Cons_conv)
  have "stall_wf (m_stall_msg_map mb_three)"
    by (simp add: stall_wf_def mb_three_def mb_fifo_def MessageBuffer_new_def)
  from stall_reanalyze_keeps_messages [OF mb_three_inv this b'(1-3), of _ 500] show ?thesis
    using b'(1,4,5) by (auto simp: mb_budget_def)
qed


text \<open>Resetting the message number while messages wait lets two nodes carry the same number, which the
  comparison refuses when their times agree.\<close>

lemma clearStats_duplicates_number:
  "MessageBuffer_enqueue 0 ruby64 (0, 0, 0)
     (MessageBuffer_clearStats (mb_three\<lparr>m_prio_heap := [\<lparr>m_time = 1000, m_msg_counter = 1, m_msgptr = Message_new 0 1\<rparr>]\<rparr>))
     (Some (Message_new 0 4)) 2 False = Inl AssertFailed"
  by code_simp

text \<open>\<open>areNSlotsAvailable\<close> on a buffer of bounded size: with no pop in the current cycle, a positive
  answer means that \<open>n\<close> more messages fit, and the answer leaves the buffer as it is but for its
  statistics.\<close>

lemma slots_available_fit:
  assumes "areNSlotsAvailable now b n = Inr (avail, b')" and "m_max_size b \<noteq> 0" and "m_sender b = Some sd"
    and "m_time_last_time_pop b < clockEdge now sd 0"
    and "length (m_prio_heap b) + unat n < 2 ^ 32"
  shows "(avail \<longleftrightarrow> length (m_prio_heap b) + unat n \<le> unat (m_max_size b)) \<and>
    (avail \<longrightarrow> b' = b) \<and> m_prio_heap b' = m_prio_heap b"
proof -
  have "unat (heap_size b + n) = length (m_prio_heap b) + unat n"
    using assms(5) by (simp add: heap_size_def unat_word_ariths unat_of_nat)
  then show ?thesis
    using assms by (auto simp: areNSlotsAvailable_def deref_def Let_def word_le_nat_alt split: if_splits)
qed

end
