(* ===== verification/Node_Set.thy ===== *)
theory Node_Set
  imports Ruby_Prelude
begin

text \<open>
  The bit set of node numbers, class \<open>Set\<close> of src/gem5-stable/src/mem/ruby/common/Set.hh and
  Set.cc, on which destination lists of network messages are built. The word array is a list of
  \<open>m_nArrayLen\<close> 64-bit words; an access outside of it is \<open>OutOfBounds\<close> (the word that the class
  keeps in place for a set of size 0 is never initialised, so an access to it counts as one too). The lemmas show that
  a set of fewer than 32 nodes implements finite sets of node numbers, and what happens from 32
  nodes on, where the constants \<open>LONG_BITS\<close> and \<open>INDEX_SHIFT\<close> no longer agree with the word size.
\<close>

unbundle bit_operations_syntax

section \<open>Data\<close>

text \<open>\<open>std::numeric_limits<unsigned long>::digits\<close> is 64 on the 64-bit hosts the simulator runs
  on: an unsigned type has no sign bit to leave out.\<close>

definition ulong_digits :: nat where
  "ulong_digits = 64"

definition LONG_BITS :: nat where
  "LONG_BITS = ulong_digits + 1"

definition INDEX_SHIFT :: nat where
  "INDEX_SHIFT = (if LONG_BITS = 64 then 6 else 5)"

definition INDEX_MASK :: nat where
  "INDEX_MASK = 2 ^ INDEX_SHIFT - 1"

record node_set =
  m_nSize :: nat
  m_p_nArray :: "u64 list"

abbreviation m_nArrayLen :: "node_set \<Rightarrow> nat" where
  "m_nArrayLen s \<equiv> length (m_p_nArray s)"

section \<open>Operations\<close>

definition Set_empty_ctor :: node_set where
  "Set_empty_ctor = \<lparr>m_nSize = 0, m_p_nArray = []\<rparr>"

definition Set_setSize :: "node_set \<Rightarrow> nat \<Rightarrow> node_set" where
  "Set_setSize s sz = s\<lparr>m_nSize := sz,
     m_p_nArray := replicate ((sz + LONG_BITS - 1) div LONG_BITS) 0\<rparr>"

definition Set_new :: "nat \<Rightarrow> node_set" where
  "Set_new sz = (if 0 < sz then Set_setSize Set_empty_ctor sz else Set_empty_ctor)"

definition Set_add :: "node_set \<Rightarrow> nat \<Rightarrow> node_set result" where
  "Set_add s index =
     (let w = drop_bit INDEX_SHIFT index
      in ensure (w < m_nArrayLen s) OutOfBounds (
         Inr (s\<lparr>m_p_nArray := (m_p_nArray s)[w := m_p_nArray s ! w OR push_bit (index AND INDEX_MASK) 1]\<rparr>)))"

definition Set_remove :: "node_set \<Rightarrow> nat \<Rightarrow> node_set result" where
  "Set_remove s index =
     (let w = drop_bit INDEX_SHIFT index
      in ensure (w < m_nArrayLen s) OutOfBounds (
         Inr (s\<lparr>m_p_nArray := (m_p_nArray s)[w := m_p_nArray s ! w AND NOT (push_bit (index AND INDEX_MASK) 1)]\<rparr>)))"

definition Set_isElement :: "node_set \<Rightarrow> nat \<Rightarrow> bool result" where
  "Set_isElement s element =
     (let w = drop_bit INDEX_SHIFT element
      in ensure (w < m_nArrayLen s) OutOfBounds (
         Inr (m_p_nArray s ! w AND push_bit (element AND INDEX_MASK) 1 \<noteq> 0)))"

definition Set_elementAt :: "node_set \<Rightarrow> nat \<Rightarrow> nat result" where
  "Set_elementAt s index = rbind (Set_isElement s index) (\<lambda>b. Inr (if b then 1 else 0))"

definition Set_clear :: "node_set \<Rightarrow> node_set" where
  "Set_clear s = s\<lparr>m_p_nArray := map (\<lambda>_. 0) (m_p_nArray s)\<rparr>"

definition Set_addSet :: "node_set \<Rightarrow> node_set \<Rightarrow> node_set result" where
  "Set_addSet s t = ensure (m_nSize s = m_nSize t) AssertFailed (
     Inr (s\<lparr>m_p_nArray := map2 (OR) (m_p_nArray s) (m_p_nArray t)\<rparr>))"

definition Set_removeSet :: "node_set \<Rightarrow> node_set \<Rightarrow> node_set result" where
  "Set_removeSet s t = ensure (m_nSize s = m_nSize t) AssertFailed (
     Inr (s\<lparr>m_p_nArray := map2 (\<lambda>a b. a AND NOT b) (m_p_nArray s) (m_p_nArray t)\<rparr>))"

text \<open>The loop of \<open>clearExcess\<close> over \<open>j\<close>: the mask starts at \<open>0x7FFFFFFFFFFFFFFF\<close> and loses its top
  bit in every round.\<close>

fun clearExcess_loop :: "nat \<Rightarrow> u64 \<Rightarrow> u64 \<Rightarrow> u64" where
  "clearExcess_loop 0 msk w = w"
| "clearExcess_loop (Suc n) msk w = clearExcess_loop n (drop_bit 1 msk) (w AND msk)"

definition Set_clearExcess :: "node_set \<Rightarrow> node_set" where
  "Set_clearExcess s =
     (if m_nSize s mod LONG_BITS \<noteq> 0
      then let l = m_nArrayLen s - 1
           in s\<lparr>m_p_nArray := (m_p_nArray s)[l :=
                clearExcess_loop (64 - (m_nSize s AND INDEX_MASK)) 0x7FFFFFFFFFFFFFFF (m_p_nArray s ! l)]\<rparr>
      else s)"

definition Set_broadcast :: "node_set \<Rightarrow> node_set" where
  "Set_broadcast s = Set_clearExcess (s\<lparr>m_p_nArray := map (\<lambda>_. - 1) (m_p_nArray s)\<rparr>)"

fun count_loop :: "nat \<Rightarrow> u64 \<Rightarrow> u64 \<Rightarrow> nat" where
  "count_loop 0 msk w = 0"
| "count_loop (Suc n) msk w = (if w AND msk \<noteq> 0 then 1 else 0) + count_loop n (push_bit 1 msk) w"

definition Set_count :: "node_set \<Rightarrow> nat" where
  "Set_count s = sum_list (map (count_loop LONG_BITS 1) (m_p_nArray s))"

definition Set_isEqual :: "node_set \<Rightarrow> node_set \<Rightarrow> bool result" where
  "Set_isEqual s t = ensure (m_nSize s = m_nSize t) AssertFailed (
     Inr (list_all2 (=) (m_p_nArray s) (m_p_nArray t)))"

text \<open>\<open>smallest_bit n j x\<close> runs the inner loop of \<open>smallestElement\<close> from \<open>j\<close> for \<open>n\<close> rounds.\<close>

fun smallest_bit :: "nat \<Rightarrow> nat \<Rightarrow> u64 \<Rightarrow> nat option" where
  "smallest_bit 0 j x = None"
| "smallest_bit (Suc n) j x = (if x AND 1 \<noteq> 0 then Some j else smallest_bit n (j + 1) (drop_bit 1 x))"

fun smallest_loop :: "nat \<Rightarrow> u64 list \<Rightarrow> nat result" where
  "smallest_loop i [] = Inl Panicked"
| "smallest_loop i (x # xs) =
     (if x \<noteq> 0
      then (case smallest_bit LONG_BITS 0 x of Some j \<Rightarrow> Inr (LONG_BITS * i + j) | None \<Rightarrow> Inl Panicked)
      else smallest_loop (i + 1) xs)"

definition Set_smallestElement :: "node_set \<Rightarrow> nat result" where
  "Set_smallestElement s = ensure (0 < Set_count s) AssertFailed (smallest_loop 0 (m_p_nArray s))"

fun all_bits_loop :: "nat \<Rightarrow> u64 \<Rightarrow> u64 \<Rightarrow> bool" where
  "all_bits_loop 0 msk w = True"
| "all_bits_loop (Suc n) msk w = (msk AND w \<noteq> 0 \<and> all_bits_loop n (push_bit 1 msk) w)"

definition Set_isBroadcast :: "node_set \<Rightarrow> bool" where
  "Set_isBroadcast s =
     (let full = (if m_nSize s mod LONG_BITS = 0 then m_nArrayLen s else m_nArrayLen s - 1)
      in list_all (\<lambda>w. w = - 1) (take full (m_p_nArray s))
         \<and> all_bits_loop (m_nSize s mod LONG_BITS) 1 (m_p_nArray s ! (m_nArrayLen s - 1)))"

definition Set_isEmpty :: "node_set \<Rightarrow> bool" where
  "Set_isEmpty s = list_all (\<lambda>w. w = 0) (m_p_nArray s)"

definition Set_OR :: "node_set \<Rightarrow> node_set \<Rightarrow> node_set result" where
  "Set_OR s t = ensure (m_nSize s = m_nSize t) AssertFailed (
     Inr ((Set_new (m_nSize s))\<lparr>m_p_nArray := map2 (OR) (m_p_nArray s) (m_p_nArray t)\<rparr>))"

definition Set_AND :: "node_set \<Rightarrow> node_set \<Rightarrow> node_set result" where
  "Set_AND s t = ensure (m_nSize s = m_nSize t) AssertFailed (
     Inr ((Set_new (m_nSize s))\<lparr>m_p_nArray := map2 (AND) (m_p_nArray s) (m_p_nArray t)\<rparr>))"

fun intersection_loop :: "u64 list \<Rightarrow> u64 list \<Rightarrow> bool result" where
  "intersection_loop [] bs = Inr True"
| "intersection_loop (a # as) [] = Inl OutOfBounds"
| "intersection_loop (a # as) (b # bs) = (if a AND b \<noteq> 0 then Inr False else intersection_loop as bs)"

definition Set_intersectionIsEmpty :: "node_set \<Rightarrow> node_set \<Rightarrow> bool result" where
  "Set_intersectionIsEmpty s t = intersection_loop (m_p_nArray s) (m_p_nArray t)"

definition Set_isSuperset :: "node_set \<Rightarrow> node_set \<Rightarrow> bool result" where
  "Set_isSuperset s test = ensure (m_nSize s = m_nSize test) AssertFailed (
     Inr (list_all2 (\<lambda>a t. (t AND a) OR NOT t = - 1) (m_p_nArray s) (m_p_nArray test)))"

definition Set_isSubset :: "node_set \<Rightarrow> node_set \<Rightarrow> bool result" where
  "Set_isSubset s test = Set_isSuperset test s"

definition Set_assign :: "node_set \<Rightarrow> node_set \<Rightarrow> node_set" where
  "Set_assign s obj = (Set_setSize s (m_nSize obj))\<lparr>m_p_nArray := m_p_nArray obj\<rparr>"
section \<open>Sets of fewer than 32 nodes\<close>

text \<open>The abstraction: the node numbers whose bit is set in the only word of the array.\<close>

definition elems :: "node_set \<Rightarrow> nat set" where
  "elems s = {i. m_p_nArray s \<noteq> [] \<and> bit (m_p_nArray s ! 0) i}"

definition node_set_wf :: "node_set \<Rightarrow> bool" where
  "node_set_wf s \<longleftrightarrow> m_nSize s < 32 \<and> m_nArrayLen s = (if m_nSize s = 0 then 0 else 1) \<and>
     elems s \<subseteq> {..<m_nSize s}"

lemma Set_constants [simp]: "LONG_BITS = 65" "INDEX_SHIFT = 5" "INDEX_MASK = 31"
  by (simp_all add: LONG_BITS_def ulong_digits_def INDEX_SHIFT_def INDEX_MASK_def)

lemma node_set_wf_oneE:
  assumes "node_set_wf s" and "0 < m_nSize s"
  obtains n w where "s = \<lparr>m_nSize = n, m_p_nArray = [w]\<rparr>" "0 < n" "n < 32"
    "\<forall>i. bit w i \<longrightarrow> i < n"
proof (rule that [of "m_nSize s" "m_p_nArray s ! 0"])
  show "s = \<lparr>m_nSize = m_nSize s, m_p_nArray = [m_p_nArray s ! 0]\<rparr>"
    using assms by (cases s) (auto simp: node_set_wf_def length_Suc_conv)
qed (use assms in \<open>auto simp: node_set_wf_def elems_def\<close>)

lemma node_set_wfE:
  assumes "node_set_wf s"
  obtains (none) "s = \<lparr>m_nSize = 0, m_p_nArray = []\<rparr>"
  | (one) n w where "s = \<lparr>m_nSize = n, m_p_nArray = [w]\<rparr>" "0 < n" "n < 32"
    "\<forall>i. bit w i \<longrightarrow> i < n"
proof (cases "m_nSize s = 0")
  case True
  then show ?thesis using assms none by (cases s) (simp add: node_set_wf_def)
next
  case False
  then show ?thesis using assms one by (auto elim: node_set_wf_oneE)
qed

lemma node_set_wfI:
  "0 < n \<Longrightarrow> n < 32 \<Longrightarrow> (\<forall>i. bit w i \<longrightarrow> i < n) \<Longrightarrow>
    node_set_wf \<lparr>m_nSize = n, m_p_nArray = [w]\<rparr>"
  by (auto simp: node_set_wf_def elems_def)

lemma node_set_wf_none [simp]: "node_set_wf \<lparr>m_nSize = 0, m_p_nArray = []\<rparr>"
  by (simp add: node_set_wf_def elems_def)

lemma elems_single [simp]:
  "elems \<lparr>m_nSize = n, m_p_nArray = [w]\<rparr> = {i. bit w i}"
  "elems \<lparr>m_nSize = n, m_p_nArray = []\<rparr> = {}"
  by (simp_all add: elems_def)

lemma elems_finite [simp]: "node_set_wf s \<Longrightarrow> finite (elems s)"
  by (auto simp: node_set_wf_def intro: finite_subset)

lemma index_low [simp]:
  assumes "i < 32"
  shows "drop_bit 5 i = (0 :: nat)" and "i AND 31 = (i :: nat)"
proof -
  show "drop_bit 5 i = 0" using assms by (simp add: drop_bit_eq_div)
  have "i AND mask 5 = i" using assms by (simp add: take_bit_eq_mask [symmetric] take_bit_nat_eq_self)
  then show "i AND 31 = i" by (simp add: mask_eq_exp_minus_1)
qed

lemma Set_new_spec:
  assumes "0 < n" "n < 32"
  shows "node_set_wf (Set_new n)" "m_nSize (Set_new n) = n" "elems (Set_new n) = {}"
proof -
  have "(64 + n) div 65 = 1" using assms by (intro div_nat_eqI) simp_all
  then have "Set_new n = \<lparr>m_nSize = n, m_p_nArray = [0]\<rparr>"
    using assms by (simp add: Set_new_def Set_setSize_def Set_empty_ctor_def)
  then show "node_set_wf (Set_new n)" "m_nSize (Set_new n) = n" "elems (Set_new n) = {}"
    using assms by (auto intro!: node_set_wfI)
qed

lemma Set_add_spec:
  assumes "node_set_wf s" and "i < m_nSize s"
  shows "\<exists>s'. Set_add s i = Inr s' \<and> node_set_wf s' \<and> m_nSize s' = m_nSize s \<and>
    elems s' = insert i (elems s)"
proof -
  obtain n w where s: "s = \<lparr>m_nSize = n, m_p_nArray = [w]\<rparr>" and n: "0 < n" "n < 32"
    and w: "\<forall>i. bit w i \<longrightarrow> i < n"
    using assms by (auto elim: node_set_wf_oneE)
  have "i < 64" "i < 32" using assms(2) n s by simp_all
  then show ?thesis
    using assms(2) n w
    by (auto simp: s Set_add_def bit_simps Let_def intro!: node_set_wfI split: if_splits)
qed

lemma Set_remove_spec:
  assumes "node_set_wf s" and "i < m_nSize s"
  shows "\<exists>s'. Set_remove s i = Inr s' \<and> node_set_wf s' \<and> m_nSize s' = m_nSize s \<and>
    elems s' = elems s - {i}"
proof -
  obtain n w where s: "s = \<lparr>m_nSize = n, m_p_nArray = [w]\<rparr>" and n: "0 < n" "n < 32"
    and w: "\<forall>i. bit w i \<longrightarrow> i < n"
    using assms by (auto elim: node_set_wf_oneE)
  have "i < 32" using assms(2) n s by simp
  then show ?thesis
    using assms(2) n w
    by (auto simp: s Set_remove_def bit_simps Let_def intro!: node_set_wfI
        dest: bit_imp_le_length split: if_splits)
qed

lemma Set_isElement_spec:
  assumes "node_set_wf s" and "i < m_nSize s"
  shows "Set_isElement s i = Inr (i \<in> elems s)"
proof -
  obtain n w where s: "s = \<lparr>m_nSize = n, m_p_nArray = [w]\<rparr>" and n: "0 < n" "n < 32"
    and w: "\<forall>i. bit w i \<longrightarrow> i < n"
    using assms by (auto elim: node_set_wf_oneE)
  have "i < 32" using assms(2) n s by simp
  then show ?thesis by (simp add: s Set_isElement_def Let_def and_exp_eq_0_iff_not_bit)
qed

lemma Set_clear_spec:
  assumes "node_set_wf s"
  shows "node_set_wf (Set_clear s)" "m_nSize (Set_clear s) = m_nSize s" "elems (Set_clear s) = {}"
  using assms by (auto elim!: node_set_wfE simp: Set_clear_def intro!: node_set_wfI)

lemma Set_addSet_spec:
  assumes "node_set_wf s" "node_set_wf t" "m_nSize s = m_nSize t"
  shows "\<exists>s'. Set_addSet s t = Inr s' \<and> node_set_wf s' \<and> m_nSize s' = m_nSize s \<and>
    elems s' = elems s \<union> elems t"
  using assms by (auto elim!: node_set_wfE simp: Set_addSet_def bit_simps intro!: node_set_wfI)

lemma Set_removeSet_spec:
  assumes "node_set_wf s" "node_set_wf t" "m_nSize s = m_nSize t"
  shows "\<exists>s'. Set_removeSet s t = Inr s' \<and> node_set_wf s' \<and> m_nSize s' = m_nSize s \<and>
    elems s' = elems s - elems t"
  using assms
  by (auto elim!: node_set_wfE simp: Set_removeSet_def bit_simps intro!: node_set_wfI
      dest: bit_imp_le_length)

lemma Set_OR_spec:
  assumes "node_set_wf s" "node_set_wf t" "m_nSize s = m_nSize t"
  shows "\<exists>s'. Set_OR s t = Inr s' \<and> node_set_wf s' \<and> m_nSize s' = m_nSize s \<and>
    elems s' = elems s \<union> elems t"
  using assms
  by (auto elim!: node_set_wfE simp: Set_OR_def bit_simps Set_new_def Set_setSize_def
      Set_empty_ctor_def intro!: node_set_wfI)

lemma Set_AND_spec:
  assumes "node_set_wf s" "node_set_wf t" "m_nSize s = m_nSize t"
  shows "\<exists>s'. Set_AND s t = Inr s' \<and> node_set_wf s' \<and> m_nSize s' = m_nSize s \<and>
    elems s' = elems s \<inter> elems t"
  using assms
  by (auto elim!: node_set_wfE simp: Set_AND_def bit_simps Set_new_def Set_setSize_def
      Set_empty_ctor_def intro!: node_set_wfI)

lemma Set_isEqual_spec:
  assumes "node_set_wf s" "node_set_wf t" "m_nSize s = m_nSize t"
  shows "Set_isEqual s t = Inr (elems s = elems t)"
  using assms
  by (auto elim!: node_set_wfE simp: Set_isEqual_def set_eq_iff word_eq_iff_bit)

lemma Set_isSuperset_spec:
  assumes "node_set_wf s" "node_set_wf t" "m_nSize s = m_nSize t"
  shows "Set_isSuperset s t = Inr (elems t \<subseteq> elems s)"
proof -
  have "(v AND u) OR NOT v = - 1 \<longleftrightarrow> (\<forall>i. bit v i \<longrightarrow> bit u i)" for u v :: u64
    using bit_imp_le_length [of v] by (auto simp: word_eq_iff_bit bit_simps)
  then show ?thesis using assms by (auto elim!: node_set_wfE simp: Set_isSuperset_def)
qed

lemma Set_intersectionIsEmpty_spec:
  assumes "node_set_wf s" "node_set_wf t" "m_nSize s = m_nSize t"
  shows "Set_intersectionIsEmpty s t = Inr (elems s \<inter> elems t = {})"
proof -
  have "v AND u = 0 \<longleftrightarrow> (\<forall>i. bit v i \<longrightarrow> \<not> bit u i)" for u v :: u64
    using bit_imp_le_length [of v] by (auto simp: word_eq_iff_bit bit_simps)
  then show ?thesis using assms by (auto elim!: node_set_wfE simp: Set_intersectionIsEmpty_def)
qed

lemma Set_isEmpty_spec:
  assumes "node_set_wf s"
  shows "Set_isEmpty s \<longleftrightarrow> elems s = {}"
  using assms
  by (auto elim!: node_set_wfE simp: Set_isEmpty_def bit_eq_iff)


subsection \<open>The loops\<close>

lemma clearExcess_loop_eq:
  assumes "n \<le> k" and "0 < n" and "k < 64"
  shows "clearExcess_loop n (mask k) w = w AND mask (k + 1 - n)"
  using assms
proof (induction n arbitrary: k w)
  case 0
  then show ?case by simp
next
  case (Suc n)
  have shift: "drop_bit 1 (mask k) = (mask (k - 1) :: u64)"
    using Suc.prems by (intro bit_word_eqI) (auto simp: bit_simps)
  show ?case
  proof (cases "n = 0")
    case True
    then show ?thesis by simp
  next
    case False
    have "clearExcess_loop n (mask (k - 1)) (w AND mask k) = (w AND mask k) AND mask (k - 1 + 1 - n)"
      using Suc.prems False by (intro Suc.IH) simp_all
    also have "\<dots> = w AND mask (k - n)"
      using Suc.prems False by (intro bit_word_eqI) (auto simp: bit_simps)
    finally show ?thesis using shift Suc.prems by simp
  qed
qed

lemma Set_broadcast_spec:
  assumes "node_set_wf s"
  shows "node_set_wf (Set_broadcast s) \<and> m_nSize (Set_broadcast s) = m_nSize s \<and>
    elems (Set_broadcast s) = {..<m_nSize s}"
  using assms
proof (cases rule: node_set_wfE)
  case none
  then show ?thesis
    by (simp add: Set_broadcast_def Set_clearExcess_def)
next
  case (one n w)
  note s = one(1) and n = one(2,3)
  have "clearExcess_loop (64 - n) (mask 63) (- 1) = - 1 AND (mask (63 + 1 - (64 - n)) :: u64)"
    using n by (intro clearExcess_loop_eq) simp_all
  also have "\<dots> = mask n" using n by simp
  finally have "Set_broadcast s = \<lparr>m_nSize = n, m_p_nArray = [mask n]\<rparr>"
    using n by (simp add: Set_broadcast_def Set_clearExcess_def s Let_def mask_eq_exp_minus_1)
  then show ?thesis
    using n by (auto simp: s bit_simps intro!: node_set_wfI)
qed

lemma count_loop_eq:
  "count_loop n (push_bit k 1) w = card {i. k \<le> i \<and> i < k + n \<and> bit (w :: u64) i}"
proof (induction n arbitrary: k)
  case 0
  then show ?case by simp
next
  case (Suc n)
  have split: "{i. k \<le> i \<and> i < k + Suc n \<and> bit w i} =
      {i. Suc k \<le> i \<and> i < Suc k + n \<and> bit w i} \<union> (if bit w k then {k} else {})"
  proof (rule set_eqI)
    show "i \<in> {i. k \<le> i \<and> i < k + Suc n \<and> bit w i} \<longleftrightarrow>
        i \<in> {i. Suc k \<le> i \<and> i < Suc k + n \<and> bit w i} \<union> (if bit w k then {k} else {})" for i
      by (cases "i = k") auto
  qed
  have "push_bit 1 (push_bit k (1 :: u64)) = push_bit (Suc k) 1"
    by (simp only: push_bit_push_bit plus_1_eq_Suc)
  then have "count_loop (Suc n) (push_bit k 1) w =
      (if bit w k then 1 else 0) + count_loop n (push_bit (Suc k) 1) w"
    by (simp only: count_loop.simps bit_iff_and_push_bit_not_eq_0 [symmetric])
  also have "\<dots> = card {i. k \<le> i \<and> i < k + Suc n \<and> bit w i}"
    unfolding split Suc.IH by (subst card_Un_disjoint) auto
  finally show ?case .
qed

lemma Set_count_spec:
  assumes "node_set_wf s"
  shows "Set_count s = card (elems s)"
  using assms
proof (cases rule: node_set_wfE)
  case none
  then show ?thesis by (simp add: Set_count_def)
next
  case (one n w)
  note s = one(1) and n = one(2,3) and w = one(4)
  have "{i. i < 65 \<and> bit w i} = {i. bit w i}" using w n by force
  then show ?thesis
    using count_loop_eq [of 65 0 w] by (simp add: s Set_count_def)
qed

lemma smallest_bit_eq:
  assumes "bit x k" and "\<And>i. i < k \<Longrightarrow> \<not> bit x i" and "k < n"
  shows "smallest_bit n j x = Some (j + k)"
  using assms
proof (induction n arbitrary: j x k)
  case 0
  then show ?case by simp
next
  case (Suc n)
  show ?case
  proof (cases k)
    case 0
    then show ?thesis using Suc.prems(1) by (simp add: and_one_eq bit_0 odd_iff_mod_2_eq_one)
  next
    case (Suc k')
    have "\<not> bit x 0" using Suc.prems(2) [of 0] Suc by simp
    then have "smallest_bit (Suc n) j x = smallest_bit n (j + 1) (drop_bit 1 x)"
      by (simp add: and_one_eq bit_0 even_iff_mod_2_eq_zero)
    also have "\<dots> = Some (j + 1 + k')"
      using Suc.prems Suc by (intro Suc.IH) (auto simp: bit_drop_bit_eq)
    finally show ?thesis using Suc by simp
  qed
qed

lemma Set_smallestElement_spec:
  assumes "node_set_wf s" and "elems s \<noteq> {}"
  shows "Set_smallestElement s = Inr (Min (elems s))"
proof -
  obtain n w where s: "s = \<lparr>m_nSize = n, m_p_nArray = [w]\<rparr>" and n: "0 < n" "n < 32"
    and w: "\<forall>i. bit w i \<longrightarrow> i < n"
    using assms by (auto elim: node_set_wfE)
  have fin: "finite (elems s)" using assms(1) by simp
  let ?m = "Min (elems s)"
  have m: "bit w ?m" using Min_in [OF fin assms(2)] by (simp add: s)
  have "smallest_bit 65 0 w = Some (0 + ?m)"
  proof (rule smallest_bit_eq)
    show "\<not> bit w i" if "i < ?m" for i
    proof
      assume "bit w i"
      then have "?m \<le> i" using fin by (intro Min_le) (simp_all add: s)
      with that show False by simp
    qed
    show "?m < 65" using w m n by fastforce
  qed (rule m)
  moreover have "w \<noteq> 0" using m by auto
  moreover have "0 < Set_count s"
    using assms fin by (simp add: Set_count_spec card_gt_0_iff)
  ultimately show ?thesis by (simp add: Set_smallestElement_def s)
qed

lemma all_bits_loop_eq:
  "all_bits_loop n (push_bit k 1) w \<longleftrightarrow> (\<forall>i. k \<le> i \<and> i < k + n \<longrightarrow> bit (w :: u64) i)"
proof (induction n arbitrary: k)
  case 0
  then show ?case by auto
next
  case (Suc n)
  have "push_bit 1 (push_bit k (1 :: u64)) = push_bit (Suc k) 1"
    by (simp only: push_bit_push_bit plus_1_eq_Suc)
  then have "all_bits_loop (Suc n) (push_bit k 1) w \<longleftrightarrow>
      bit w k \<and> all_bits_loop n (push_bit (Suc k) 1) w"
    by (simp only: all_bits_loop.simps bit_iff_and_push_bit_not_eq_0 [symmetric]
        and.commute [of "push_bit k 1"])
  also have "\<dots> \<longleftrightarrow> (\<forall>i. k \<le> i \<and> i < k + Suc n \<longrightarrow> bit w i)"
    unfolding Suc.IH by (auto simp: Suc_le_eq) (metis le_neq_implies_less)
  finally show ?case .
qed

lemma Set_isBroadcast_spec:
  assumes "node_set_wf s"
  shows "Set_isBroadcast s \<longleftrightarrow> elems s = {..<m_nSize s}"
  using assms
proof (cases rule: node_set_wfE)
  case none
  then show ?thesis by (simp add: Set_isBroadcast_def)
next
  case (one n w)
  note s = one(1) and n = one(2,3) and w = one(4)
  then show ?thesis
    using all_bits_loop_eq [of n 0 w] by (auto simp: Set_isBroadcast_def s)
qed
section \<open>The interface that destination lists use\<close>

text \<open>What \<open>NetDest\<close> relies on: sets of numbers below a capacity, with failing operations. The
  lemmas of the locale are about sequences of operations.\<close>

locale bounded_set =
  fixes invar :: "'s \<Rightarrow> bool" and cap :: "'s \<Rightarrow> nat" and elts :: "'s \<Rightarrow> nat set"
    and insrt :: "'s \<Rightarrow> nat \<Rightarrow> 's result" and delete :: "'s \<Rightarrow> nat \<Rightarrow> 's result"
    and memb :: "'s \<Rightarrow> nat \<Rightarrow> bool result"
    and union :: "'s \<Rightarrow> 's \<Rightarrow> 's result" and diff :: "'s \<Rightarrow> 's \<Rightarrow> 's result"
  assumes elts_bounded: "invar s \<Longrightarrow> elts s \<subseteq> {..<cap s}"
    and insrt_spec: "invar s \<Longrightarrow> i < cap s \<Longrightarrow>
      \<exists>s'. insrt s i = Inr s' \<and> invar s' \<and> cap s' = cap s \<and> elts s' = insert i (elts s)"
    and delete_spec: "invar s \<Longrightarrow> i < cap s \<Longrightarrow>
      \<exists>s'. delete s i = Inr s' \<and> invar s' \<and> cap s' = cap s \<and> elts s' = elts s - {i}"
    and memb_spec: "invar s \<Longrightarrow> i < cap s \<Longrightarrow> memb s i = Inr (i \<in> elts s)"
    and union_spec: "invar s \<Longrightarrow> invar t \<Longrightarrow> cap s = cap t \<Longrightarrow>
      \<exists>s'. union s t = Inr s' \<and> invar s' \<and> cap s' = cap s \<and> elts s' = elts s \<union> elts t"
    and diff_spec: "invar s \<Longrightarrow> invar t \<Longrightarrow> cap s = cap t \<Longrightarrow>
      \<exists>s'. diff s t = Inr s' \<and> invar s' \<and> cap s' = cap s \<and> elts s' = elts s - elts t"
begin

lemma insrt_all:
  assumes "invar s" and "set xs \<subseteq> {..<cap s}"
  shows "\<exists>s'. rfold insrt s xs = Inr s' \<and> invar s' \<and> cap s' = cap s \<and> elts s' = elts s \<union> set xs"
  using assms
proof (induction xs arbitrary: s)
  case Nil
  then show ?case by simp
next
  case (Cons x xs)
  then obtain s' where s': "insrt s x = Inr s'" "invar s'" "cap s' = cap s"
    "elts s' = insert x (elts s)" using insrt_spec [of s x] by auto
  then show ?case using Cons.IH [of s'] Cons.prems by auto
qed

lemma delete_all:
  assumes "invar s" and "set xs \<subseteq> {..<cap s}"
  shows "\<exists>s'. rfold delete s xs = Inr s' \<and> invar s' \<and> cap s' = cap s \<and> elts s' = elts s - set xs"
  using assms
proof (induction xs arbitrary: s)
  case Nil
  then show ?case by simp
next
  case (Cons x xs)
  then obtain s' where s': "delete s x = Inr s'" "invar s'" "cap s' = cap s"
    "elts s' = elts s - {x}" using delete_spec [of s x] by auto
  then show ?case using Cons.IH [of s'] Cons.prems by auto
qed

lemma insrt_range:
  assumes "invar s"
  shows "\<exists>s'. rfold insrt s [0..<cap s] = Inr s' \<and> invar s' \<and> cap s' = cap s \<and> elts s' = {..<cap s}"
  using insrt_all [OF assms, of "[0..<cap s]"] elts_bounded [OF assms] by (auto simp: atLeast0LessThan)

lemma members_list:
  assumes "invar s"
  shows "filter (\<lambda>i. memb s i = Inr True) [0..<cap s] = sorted_list_of_set (elts s)"
proof -
  have fin: "finite (elts s)" using elts_bounded [OF assms] finite_subset by blast
  have "filter (\<lambda>i. memb s i = Inr True) [0..<cap s] = filter (\<lambda>i. i \<in> elts s) [0..<cap s]"
    by (rule filter_cong) (simp_all add: assms memb_spec)
  also have "\<dots> = sorted_list_of_set (set (filter (\<lambda>i. i \<in> elts s) [0..<cap s]))"
    by (rule sorted_list_of_set.idem_if_sorted_distinct [symmetric])
       (simp_all add: sorted_wrt_filter)
  also have "set (filter (\<lambda>i. i \<in> elts s) [0..<cap s]) = elts s"
    using elts_bounded [OF assms] by auto
  finally show ?thesis .
qed

end

interpretation ns: bounded_set node_set_wf m_nSize elems Set_add Set_remove Set_isElement
  Set_addSet Set_removeSet
proof unfold_locales
  show "elems s \<subseteq> {..<m_nSize s}" if "node_set_wf s" for s
    using that by (simp add: node_set_wf_def)
qed (fact Set_add_spec Set_remove_spec Set_isElement_spec Set_addSet_spec Set_removeSet_spec)+

section \<open>Properties\<close>

text \<open>C3: on sets of the same size below 32, every operation of class \<open>Set\<close> computes the
  corresponding operation on finite sets of node numbers, and no access leaves the word array.\<close>

theorem Set_refines_finite_sets:
  assumes "node_set_wf s" and "node_set_wf t" and "m_nSize s = m_nSize t" and "i < m_nSize s"
  shows "rmap elems (Set_add s i) = Inr (insert i (elems s)) \<and>
    rmap elems (Set_remove s i) = Inr (elems s - {i}) \<and>
    Set_isElement s i = Inr (i \<in> elems s) \<and>
    rmap elems (Set_addSet s t) = Inr (elems s \<union> elems t) \<and>
    rmap elems (Set_removeSet s t) = Inr (elems s - elems t) \<and>
    rmap elems (Set_OR s t) = Inr (elems s \<union> elems t) \<and>
    rmap elems (Set_AND s t) = Inr (elems s \<inter> elems t) \<and>
    Set_isEqual s t = Inr (elems s = elems t) \<and>
    Set_isSuperset s t = Inr (elems t \<subseteq> elems s) \<and>
    Set_intersectionIsEmpty s t = Inr (elems s \<inter> elems t = {}) \<and>
    elems (Set_broadcast s) = {..<m_nSize s} \<and>
    (Set_isBroadcast s \<longleftrightarrow> elems s = {..<m_nSize s}) \<and>
    (Set_isEmpty s \<longleftrightarrow> elems s = {}) \<and>
    Set_count s = card (elems s)"
  using ns.insrt_spec [OF assms(1,4)] ns.delete_spec [OF assms(1,4)] ns.memb_spec [OF assms(1,4)]
    ns.union_spec [OF assms(1-3)] ns.diff_spec [OF assms(1-3)] Set_OR_spec [OF assms(1-3)]
    Set_AND_spec [OF assms(1-3)] Set_isEqual_spec [OF assms(1-3)] Set_isSuperset_spec [OF assms(1-3)]
    Set_intersectionIsEmpty_spec [OF assms(1-3)] Set_broadcast_spec [OF assms(1)]
    Set_isBroadcast_spec [OF assms(1)] Set_isEmpty_spec [OF assms(1)] Set_count_spec [OF assms(1)]
  by auto

theorem Set_refines_finite_sets_witness:
  "rmap elems (Set_addSet (Set_broadcast (Set_new 4)) (Set_new 4)) = Inr {..<4}"
  using Set_refines_finite_sets [of "Set_broadcast (Set_new 4)" "Set_new 4" 3]
    Set_broadcast_spec [of "Set_new 4"] Set_new_spec [of 4] by simp

text \<open>C4: from 32 nodes on, the constants disagree with the word size (\<open>LONG_BITS\<close> is 65 and a
  word holds 32 node numbers, but the array is allocated for 65 per word): adding a node from 32 on
  to a set of at most 65 nodes writes outside the array, and \<open>broadcast\<close> on a set of exactly 32
  nodes produces the empty set.\<close>

theorem Set_from_32_nodes:
  assumes "32 \<le> i" and "i < n" and "n \<le> 65"
  shows "Set_add (Set_new n) i = Inl OutOfBounds \<and> Set_broadcast (Set_new 32) = Set_new 32"
proof (intro conjI)
  have "(64 + n) div 65 = 1" using assms by (intro div_nat_eqI) simp_all
  moreover have "0 < drop_bit 5 i" using assms by (simp add: drop_bit_eq_div div_greater_zero_iff)
  ultimately show "Set_add (Set_new n) i = Inl OutOfBounds"
    using assms by (simp add: Set_add_def Set_new_def Set_setSize_def Set_empty_ctor_def Let_def)
  show "Set_broadcast (Set_new 32) = Set_new 32" by code_simp
qed

theorem Set_from_32_nodes_witness: "Set_add (Set_new 33) 32 = Inl OutOfBounds"
  using Set_from_32_nodes [of 32 33] by simp

end
