(* ===== verification/Net_Dest.thy ===== *)
theory Net_Dest
  imports Node_Set
begin

text \<open>
  Destination lists of network messages: class \<open>NetDest\<close> of
  src/gem5-stable/src/mem/ruby/common/NetDest.hh and NetDest.cc, one node set per machine type.
  The functions on \<open>MachineType\<close> are generated by src/gem5-stable/src/mem/slicc/symbols/Type.py;
  a machine type is its number in the enumeration, and the parameter \<open>ct\<close> lists the number of
  controllers of every machine type (\<open>getNumControllers\<close> of the generated controller class).
  The lemmas show that a destination list implements a finite set of (machine type, node) pairs.
\<close>

section \<open>Machine types\<close>

definition MachineType_base_level :: "nat list \<Rightarrow> nat \<Rightarrow> nat result" where
  "MachineType_base_level ct t = ensure (t \<le> length ct) Panicked (Inr t)"

definition MachineType_from_base_level :: "nat list \<Rightarrow> nat \<Rightarrow> nat result" where
  "MachineType_from_base_level ct i = ensure (i < length ct) Panicked (Inr i)"

definition MachineType_base_number :: "nat list \<Rightarrow> nat \<Rightarrow> nat result" where
  "MachineType_base_number ct t = ensure (t \<le> length ct) Panicked (Inr (sum_list (take t ct)))"

definition MachineType_base_count :: "nat list \<Rightarrow> nat \<Rightarrow> nat result" where
  "MachineType_base_count ct t = ensure (t < length ct) Panicked (Inr (ct ! t))"

record machine_id =
  mach_type :: nat
  mach_num :: nat

section \<open>Destination lists\<close>

record net_dest =
  m_bits :: "node_set list"
  special :: bool
  sidePacket :: bool
  direct :: bool

definition NetDest_resize :: "nat list \<Rightarrow> net_dest \<Rightarrow> net_dest result" where
  "NetDest_resize ct d =
     rbind (MachineType_base_level ct (length ct)) (\<lambda>n.
       let bs = take n (m_bits d) @ replicate (n - length (m_bits d)) Set_empty_ctor
       in ensure (length bs = length ct) AssertFailed (
          rbind (rmap2 (\<lambda>s i. rmap (Set_setSize s) (MachineType_base_count ct i)) bs [0..<length bs])
            (\<lambda>bs'. Inr (d\<lparr>m_bits := bs'\<rparr>))))"

definition NetDest_new :: "nat list \<Rightarrow> net_dest result" where
  "NetDest_new ct = rbind (NetDest_resize ct \<lparr>m_bits = [], special = False, sidePacket = False,
       direct = False\<rparr>)
     (\<lambda>d. Inr (d\<lparr>special := False, direct := False, sidePacket := False\<rparr>))"

definition NetDest_vecIndex :: "nat list \<Rightarrow> net_dest \<Rightarrow> machine_id \<Rightarrow> nat result" where
  "NetDest_vecIndex ct d m = rbind (MachineType_base_level ct (mach_type m)) (\<lambda>v.
     ensure (v < length (m_bits d)) AssertFailed (Inr v))"

definition NetDest_makeSpecial :: "net_dest \<Rightarrow> net_dest" where
  "NetDest_makeSpecial d = d\<lparr>special := True\<rparr>"

definition NetDest_makeSidePacket :: "net_dest \<Rightarrow> net_dest" where
  "NetDest_makeSidePacket d = d\<lparr>sidePacket := True\<rparr>"

definition NetDest_setDirect :: "net_dest \<Rightarrow> net_dest" where
  "NetDest_setDirect d = d\<lparr>direct := True\<rparr>"

definition NetDest_add :: "nat list \<Rightarrow> net_dest \<Rightarrow> machine_id \<Rightarrow> net_dest result" where
  "NetDest_add ct d m = rbind (NetDest_vecIndex ct d m) (\<lambda>v.
     ensure (mach_num m < m_nSize (m_bits d ! v)) AssertFailed (
     rbind (Set_add (m_bits d ! v) (mach_num m)) (\<lambda>s. Inr (d\<lparr>m_bits := (m_bits d)[v := s]\<rparr>))))"

definition NetDest_remove :: "nat list \<Rightarrow> net_dest \<Rightarrow> machine_id \<Rightarrow> net_dest result" where
  "NetDest_remove ct d m = rbind (NetDest_vecIndex ct d m) (\<lambda>v.
     rbind (Set_remove (m_bits d ! v) (mach_num m)) (\<lambda>s. Inr (d\<lparr>m_bits := (m_bits d)[v := s]\<rparr>)))"

definition NetDest_isElement :: "nat list \<Rightarrow> net_dest \<Rightarrow> machine_id \<Rightarrow> bool result" where
  "NetDest_isElement ct d m = rbind (NetDest_vecIndex ct d m) (\<lambda>v.
     Set_isElement (m_bits d ! v) (mach_num m))"

definition NetDest_elementAt :: "nat list \<Rightarrow> net_dest \<Rightarrow> machine_id \<Rightarrow> nat result" where
  "NetDest_elementAt ct d m = rbind (NetDest_vecIndex ct d m) (\<lambda>v.
     Set_elementAt (m_bits d ! v) (mach_num m))"

definition NetDest_addNetDest :: "net_dest \<Rightarrow> net_dest \<Rightarrow> net_dest result" where
  "NetDest_addNetDest d e = ensure (length (m_bits d) = length (m_bits e)) AssertFailed (
     rbind (rmap2 Set_addSet (m_bits d) (m_bits e)) (\<lambda>bs. Inr (d\<lparr>m_bits := bs\<rparr>)))"

definition NetDest_removeNetDest :: "net_dest \<Rightarrow> net_dest \<Rightarrow> net_dest result" where
  "NetDest_removeNetDest d e = ensure (length (m_bits d) = length (m_bits e)) AssertFailed (
     rbind (rmap2 Set_removeSet (m_bits d) (m_bits e)) (\<lambda>bs. Inr (d\<lparr>m_bits := bs\<rparr>)))"

definition NetDest_setNetDest :: "nat list \<Rightarrow> net_dest \<Rightarrow> nat \<Rightarrow> node_set \<Rightarrow> net_dest result" where
  "NetDest_setNetDest ct d t s =
     rbind (MachineType_base_level ct (t + 1)) (\<lambda>b. rbind (MachineType_base_level ct t) (\<lambda>a.
       ensure (int b - int a = 1) AssertFailed (
       ensure (a < length (m_bits d)) OutOfBounds (
         Inr (d\<lparr>m_bits := (m_bits d)[a := Set_assign (m_bits d ! a) s]\<rparr>)))))"

definition NetDest_clear :: "net_dest \<Rightarrow> net_dest" where
  "NetDest_clear d = d\<lparr>m_bits := map Set_clear (m_bits d)\<rparr>"

definition NetDest_broadcast_type :: "nat list \<Rightarrow> net_dest \<Rightarrow> nat \<Rightarrow> net_dest result" where
  "NetDest_broadcast_type ct d t = rbind (MachineType_base_count ct t) (\<lambda>n.
     rfold (NetDest_add ct) d (map (\<lambda>i. \<lparr>mach_type = t, mach_num = i\<rparr>) [0..<n]))"

definition NetDest_broadcast :: "nat list \<Rightarrow> net_dest \<Rightarrow> net_dest result" where
  "NetDest_broadcast ct d = rfold (NetDest_broadcast_type ct) d [0..<length ct]"

definition NetDest_getAllDest :: "nat list \<Rightarrow> net_dest \<Rightarrow> nat list result" where
  "NetDest_getAllDest ct d = rfold (\<lambda>dest i.
     rfold (\<lambda>dest j. rbind (Set_isElement (m_bits d ! i) j) (\<lambda>b.
         if b then rbind (MachineType_base_number ct i) (\<lambda>n. Inr (dest @ [n + j])) else Inr dest))
       dest [0..<m_nSize (m_bits d ! i)]) [] [0..<length (m_bits d)]"

definition NetDest_count :: "net_dest \<Rightarrow> nat" where
  "NetDest_count d = sum_list (map Set_count (m_bits d))"

text \<open>The first element of one set, and of a list of sets numbered from \<open>i\<close>.\<close>

fun first_element :: "node_set \<Rightarrow> nat list \<Rightarrow> nat option result" where
  "first_element s [] = Inr None"
| "first_element s (j # js) = rbind (Set_isElement s j) (\<lambda>b.
     if b then Inr (Some j) else first_element s js)"

fun first_machine :: "node_set list \<Rightarrow> nat \<Rightarrow> (nat \<times> nat) option result" where
  "first_machine [] i = Inr None"
| "first_machine (s # ss) i = rbind (first_element s [0..<m_nSize s]) (\<lambda>r.
     case r of Some j \<Rightarrow> Inr (Some (i, j)) | None \<Rightarrow> first_machine ss (i + 1))"

definition NetDest_smallestElement :: "nat list \<Rightarrow> net_dest \<Rightarrow> machine_id result" where
  "NetDest_smallestElement ct d = ensure (0 < NetDest_count d) AssertFailed (
     rbind (first_machine (m_bits d) 0) (\<lambda>r. case r of
       Some (i, j) \<Rightarrow> rbind (MachineType_from_base_level ct i) (\<lambda>t.
         Inr \<lparr>mach_type = t, mach_num = j\<rparr>)
     | None \<Rightarrow> Inl Panicked))"

definition NetDest_smallestElement_type :: "nat list \<Rightarrow> net_dest \<Rightarrow> nat \<Rightarrow> machine_id result" where
  "NetDest_smallestElement_type ct d t = rbind (MachineType_base_level ct t) (\<lambda>v.
     ensure (v < length (m_bits d)) OutOfBounds (
     rbind (first_element (m_bits d ! v) [0..<m_nSize (m_bits d ! v)]) (\<lambda>r. case r of
       Some j \<Rightarrow> Inr \<lparr>mach_type = t, mach_num = j\<rparr> | None \<Rightarrow> Inl Panicked)))"

definition NetDest_smallestNodeID :: "net_dest \<Rightarrow> nat result" where
  "NetDest_smallestNodeID d = ensure (0 < NetDest_count d) AssertFailed (
     rbind (first_machine (m_bits d) 0) (\<lambda>r. case r of Some (i, j) \<Rightarrow> Inr j | None \<Rightarrow> Inl Panicked))"

definition NetDest_isBroadcast :: "net_dest \<Rightarrow> bool" where
  "NetDest_isBroadcast d = list_all Set_isBroadcast (m_bits d)"

definition NetDest_isEmpty :: "net_dest \<Rightarrow> bool" where
  "NetDest_isEmpty d = list_all Set_isEmpty (m_bits d)"

definition NetDest_OR :: "nat list \<Rightarrow> net_dest \<Rightarrow> net_dest \<Rightarrow> net_dest result" where
  "NetDest_OR ct d e = ensure (length (m_bits d) = length (m_bits e)) AssertFailed (
     rbind (NetDest_new ct) (\<lambda>r. ensure (length (m_bits d) \<le> length (m_bits r)) OutOfBounds (
     rbind (rmap2 Set_OR (m_bits d) (m_bits e)) (\<lambda>bs.
       Inr (r\<lparr>m_bits := bs @ drop (length bs) (m_bits r)\<rparr>)))))"

definition NetDest_AND :: "nat list \<Rightarrow> net_dest \<Rightarrow> net_dest \<Rightarrow> net_dest result" where
  "NetDest_AND ct d e = ensure (length (m_bits d) = length (m_bits e)) AssertFailed (
     rbind (NetDest_new ct) (\<lambda>r. ensure (length (m_bits d) \<le> length (m_bits r)) OutOfBounds (
     rbind (rmap2 Set_AND (m_bits d) (m_bits e)) (\<lambda>bs.
       Inr (r\<lparr>m_bits := bs @ drop (length bs) (m_bits r)\<rparr>)))))"

definition NetDest_intersectionIsNotEmpty :: "net_dest \<Rightarrow> net_dest \<Rightarrow> bool result" where
  "NetDest_intersectionIsNotEmpty d e = ensure (length (m_bits d) = length (m_bits e)) AssertFailed (
     rmap Not (rall2 Set_intersectionIsEmpty (m_bits d) (m_bits e)))"

definition NetDest_isSuperset :: "net_dest \<Rightarrow> net_dest \<Rightarrow> bool result" where
  "NetDest_isSuperset d e = ensure (length (m_bits d) = length (m_bits e)) AssertFailed (
     rall2 Set_isSuperset (m_bits d) (m_bits e))"

definition NetDest_isSubset :: "net_dest \<Rightarrow> net_dest \<Rightarrow> bool result" where
  "NetDest_isSubset d e = NetDest_isSuperset e d"

definition NetDest_isEqual :: "net_dest \<Rightarrow> net_dest \<Rightarrow> bool result" where
  "NetDest_isEqual d e = ensure (length (m_bits d) = length (m_bits e)) AssertFailed (
     rall2 Set_isEqual (m_bits d) (m_bits e))"

section \<open>Destination lists as sets of pairs\<close>

definition dests :: "net_dest \<Rightarrow> (nat \<times> nat) set" where
  "dests d = {(t, i). t < length (m_bits d) \<and> i \<in> elems (m_bits d ! t)}"

definition net_dest_wf :: "nat list \<Rightarrow> net_dest \<Rightarrow> bool" where
  "net_dest_wf ct d \<longleftrightarrow> length (m_bits d) = length ct \<and>
     (\<forall>t < length ct. node_set_wf (m_bits d ! t) \<and> m_nSize (m_bits d ! t) = ct ! t)"

lemmas mach_type_defs = MachineType_base_level_def MachineType_from_base_level_def
  MachineType_base_number_def MachineType_base_count_def

lemma net_dest_wf_nth:
  assumes "net_dest_wf ct d" and "t < length ct"
  shows "node_set_wf (m_bits d ! t)" "m_nSize (m_bits d ! t) = ct ! t" "t < length (m_bits d)"
  using assms by (simp_all add: net_dest_wf_def)

lemma net_dest_wf_length: "net_dest_wf ct d \<Longrightarrow> length (m_bits d) = length ct"
  by (simp add: net_dest_wf_def)

lemma net_dest_update:
  assumes "net_dest_wf ct d" and "t < length ct" and "node_set_wf s" and "m_nSize s = ct ! t"
  shows "net_dest_wf ct (d\<lparr>m_bits := (m_bits d)[t := s]\<rparr>)"
    and "dests (d\<lparr>m_bits := (m_bits d)[t := s]\<rparr>) = {p \<in> dests d. fst p \<noteq> t} \<union> {t} \<times> elems s"
  using assms by (auto simp: net_dest_wf_def dests_def nth_list_update split: if_splits)

lemma dests_bounded: "net_dest_wf ct d \<Longrightarrow> dests d \<subseteq> (SIGMA t:{..<length ct}. {..<ct ! t})"
  using ns.elts_bounded by (fastforce simp: net_dest_wf_def dests_def)

lemma dests_finite: "net_dest_wf ct d \<Longrightarrow> finite (dests d)"
  by (rule finite_subset [OF dests_bounded]) auto

lemma vecIndex_ok: "net_dest_wf ct d \<Longrightarrow> mach_type m < length ct \<Longrightarrow> NetDest_vecIndex ct d m = Inr (mach_type m)"
  by (simp add: NetDest_vecIndex_def mach_type_defs net_dest_wf_def)

lemma NetDest_new_spec:
  assumes "\<forall>n \<in> set ct. n < 32"
  shows "\<exists>d. NetDest_new ct = Inr d \<and> net_dest_wf ct d \<and> dests d = {} \<and>
    \<not> special d \<and> \<not> sidePacket d \<and> \<not> direct d"
proof -
  let ?bs = "replicate (length ct) Set_empty_ctor"
  let ?f = "\<lambda>s i. rmap (Set_setSize s) (MachineType_base_count ct i)"
  have size: "Set_setSize Set_empty_ctor n = Set_new n" for n
    by (cases n) (simp_all add: Set_new_def Set_setSize_def Set_empty_ctor_def)
  have "rmap2 ?f ?bs [0..<length ?bs] = Inr (map2 (\<lambda>s i. Set_new (ct ! i)) ?bs [0..<length ?bs])"
    by (rule rmap2_Inr) (simp_all add: mach_type_defs size)
  then obtain d where d: "NetDest_new ct = Inr d" "length (m_bits d) = length ct"
    "\<forall>i < length ct. m_bits d ! i = Set_new (ct ! i)" "\<not> special d" "\<not> sidePacket d" "\<not> direct d"
    by (simp add: NetDest_new_def NetDest_resize_def mach_type_defs Let_def)
  have new: "node_set_wf (Set_new n)" "m_nSize (Set_new n) = n" "elems (Set_new n) = {}" if "n < 32" for n
    using that Set_new_spec [of n] by (cases "n = 0"; simp add: Set_new_def Set_empty_ctor_def)+
  have "node_set_wf (m_bits d ! i) \<and> m_nSize (m_bits d ! i) = ct ! i \<and> elems (m_bits d ! i) = {}"
    if "i < length ct" for i
    using new [of "ct ! i"] assms d(3) that by simp
  with d show ?thesis by (simp add: net_dest_wf_def dests_def)
qed

lemma NetDest_add_spec:
  assumes "net_dest_wf ct d" and "t < length ct" and "i < ct ! t"
  shows "\<exists>d'. NetDest_add ct d \<lparr>mach_type = t, mach_num = i\<rparr> = Inr d' \<and> net_dest_wf ct d' \<and>
    dests d' = insert (t, i) (dests d)"
proof -
  note n = net_dest_wf_nth [OF assms(1,2)]
  obtain s where s: "Set_add (m_bits d ! t) i = Inr s" "node_set_wf s" "m_nSize s = ct ! t"
    "elems s = insert i (elems (m_bits d ! t))"
    using ns.insrt_spec [OF n(1)] assms(3) unfolding n(2) by blast
  have "{p \<in> dests d. fst p \<noteq> t} \<union> {t} \<times> elems s = insert (t, i) (dests d)"
    unfolding s(4) dests_def using n(3) by auto
  moreover have "NetDest_add ct d \<lparr>mach_type = t, mach_num = i\<rparr> = Inr (d\<lparr>m_bits := (m_bits d)[t := s]\<rparr>)"
    using s(1) n(2) assms by (simp add: NetDest_add_def vecIndex_ok)
  ultimately show ?thesis using net_dest_update [OF assms(1,2) s(2,3)] by simp
qed

lemma NetDest_remove_spec:
  assumes "net_dest_wf ct d" and "t < length ct" and "i < ct ! t"
  shows "\<exists>d'. NetDest_remove ct d \<lparr>mach_type = t, mach_num = i\<rparr> = Inr d' \<and> net_dest_wf ct d' \<and>
    dests d' = dests d - {(t, i)}"
proof -
  note n = net_dest_wf_nth [OF assms(1,2)]
  obtain s where s: "Set_remove (m_bits d ! t) i = Inr s" "node_set_wf s" "m_nSize s = ct ! t"
    "elems s = elems (m_bits d ! t) - {i}"
    using ns.delete_spec [OF n(1)] assms(3) unfolding n(2) by blast
  have "{p \<in> dests d. fst p \<noteq> t} \<union> {t} \<times> elems s = dests d - {(t, i)}"
    unfolding s(4) dests_def using n(3) by auto
  moreover have "NetDest_remove ct d \<lparr>mach_type = t, mach_num = i\<rparr> = Inr (d\<lparr>m_bits := (m_bits d)[t := s]\<rparr>)"
    using s(1) n(2) assms by (simp add: NetDest_remove_def vecIndex_ok)
  ultimately show ?thesis using net_dest_update [OF assms(1,2) s(2,3)] by simp
qed

lemma NetDest_isElement_spec:
  assumes "net_dest_wf ct d" and "t < length ct" and "i < ct ! t"
  shows "NetDest_isElement ct d \<lparr>mach_type = t, mach_num = i\<rparr> = Inr ((t, i) \<in> dests d)"
  using net_dest_wf_nth [OF assms(1,2)] assms
  by (simp add: NetDest_isElement_def vecIndex_ok ns.memb_spec dests_def)

lemma NetDest_add_rejects:
  assumes "net_dest_wf ct d" and "t < length ct" and "ct ! t \<le> i"
  shows "NetDest_add ct d \<lparr>mach_type = t, mach_num = i\<rparr> = Inl AssertFailed"
  using net_dest_wf_nth [OF assms(1,2)] assms
  by (simp add: NetDest_add_def vecIndex_ok ensure_def)

text \<open>The two-argument operations go set by set.\<close>

lemma NetDest_pointwise:
  assumes "net_dest_wf ct d" "net_dest_wf ct e"
    and f: "\<And>s t. node_set_wf s \<Longrightarrow> node_set_wf t \<Longrightarrow> m_nSize s = m_nSize t \<Longrightarrow>
      \<exists>s'. f s t = Inr s' \<and> node_set_wf s' \<and> m_nSize s' = m_nSize s \<and> elems s' = g (elems s) (elems t)"
    and g: "\<And>A B i. i \<in> g A B \<longleftrightarrow> h (i \<in> A) (i \<in> B)" and h: "\<not> h False False"
  shows "\<exists>bs. rmap2 f (m_bits d) (m_bits e) = Inr bs \<and> length bs = length ct \<and>
    (\<forall>r. net_dest_wf ct (r\<lparr>m_bits := bs\<rparr>) \<and>
      dests (r\<lparr>m_bits := bs\<rparr>) = {p. h (p \<in> dests d) (p \<in> dests e)})"
proof -
  have len: "length (m_bits d) = length ct" "length (m_bits e) = length ct"
    using assms by (simp_all add: net_dest_wf_def)
  have "\<exists>s'. f (m_bits d ! i) (m_bits e ! i) = Inr s' \<and>
      (node_set_wf s' \<and> m_nSize s' = ct ! i \<and> elems s' = g (elems (m_bits d ! i)) (elems (m_bits e ! i)))"
    if "i < length (m_bits d)" for i
    using net_dest_wf_nth [OF assms(1), of i] net_dest_wf_nth [OF assms(2), of i] that len
      f [of "m_bits d ! i" "m_bits e ! i"] by auto
  from rmap2_spec [of "m_bits d" "m_bits e" f, OF _ this] len
  obtain bs where bs: "rmap2 f (m_bits d) (m_bits e) = Inr bs" "length bs = length ct"
    "\<forall>i < length ct. node_set_wf (bs ! i) \<and> m_nSize (bs ! i) = ct ! i \<and>
       elems (bs ! i) = g (elems (m_bits d ! i)) (elems (m_bits e ! i))" by auto
  have "(t, i) \<in> dests (r\<lparr>m_bits := bs\<rparr>) \<longleftrightarrow> h ((t, i) \<in> dests d) ((t, i) \<in> dests e)" for r t i
    using h len bs by (cases "t < length ct") (simp_all add: dests_def g)
  then have "net_dest_wf ct (r\<lparr>m_bits := bs\<rparr>) \<and>
      dests (r\<lparr>m_bits := bs\<rparr>) = {p. h (p \<in> dests d) (p \<in> dests e)}" for r
    using bs by (simp add: net_dest_wf_def set_eq_iff)
  with bs(1,2) show ?thesis by (intro exI [of _ bs]) simp
qed

lemma NetDest_binary_spec:
  assumes "net_dest_wf ct d" "net_dest_wf ct e"
  shows "\<exists>d'. NetDest_addNetDest d e = Inr d' \<and> net_dest_wf ct d' \<and> dests d' = dests d \<union> dests e"
    and "\<exists>d'. NetDest_removeNetDest d e = Inr d' \<and> net_dest_wf ct d' \<and> dests d' = dests d - dests e"
proof -
  have len: "length (m_bits d) = length (m_bits e)" using assms by (simp add: net_dest_wf_def)
  show "\<exists>d'. NetDest_addNetDest d e = Inr d' \<and> net_dest_wf ct d' \<and> dests d' = dests d \<union> dests e"
    using NetDest_pointwise [OF assms, of Set_addSet "(\<union>)" "(\<or>)"] Set_addSet_spec len
    by (auto simp: NetDest_addNetDest_def Un_def)
  show "\<exists>d'. NetDest_removeNetDest d e = Inr d' \<and> net_dest_wf ct d' \<and> dests d' = dests d - dests e"
    using NetDest_pointwise [OF assms, of Set_removeSet "(-)" "\<lambda>a b. a \<and> \<not> b"] Set_removeSet_spec len
    by (auto simp: NetDest_removeNetDest_def set_diff_eq)
qed

lemma NetDest_result_spec:
  assumes "net_dest_wf ct d" "net_dest_wf ct e" and "\<forall>n \<in> set ct. n < 32"
  shows "\<exists>d'. NetDest_OR ct d e = Inr d' \<and> net_dest_wf ct d' \<and> dests d' = dests d \<union> dests e"
    and "\<exists>d'. NetDest_AND ct d e = Inr d' \<and> net_dest_wf ct d' \<and> dests d' = dests d \<inter> dests e"
proof -
  note len = assms(1,2) [THEN net_dest_wf_length]
  obtain r where r: "NetDest_new ct = Inr r" "net_dest_wf ct r"
    using NetDest_new_spec [OF assms(3)] by blast
  show "\<exists>d'. NetDest_OR ct d e = Inr d' \<and> net_dest_wf ct d' \<and> dests d' = dests d \<union> dests e"
    using NetDest_pointwise [OF assms(1,2), of Set_OR "(\<union>)" "(\<or>)"] Set_OR_spec len
      r(1) net_dest_wf_length [OF r(2)]
    by (auto simp: NetDest_OR_def Un_def)
  show "\<exists>d'. NetDest_AND ct d e = Inr d' \<and> net_dest_wf ct d' \<and> dests d' = dests d \<inter> dests e"
    using NetDest_pointwise [OF assms(1,2), of Set_AND "(\<inter>)" "(\<and>)"] Set_AND_spec len
      r(1) net_dest_wf_length [OF r(2)]
    by (auto simp: NetDest_AND_def Int_def)
qed

lemma NetDest_test_spec:
  assumes "net_dest_wf ct d" "net_dest_wf ct e"
  shows "NetDest_isSuperset d e = Inr (dests e \<subseteq> dests d)"
    and "NetDest_isEqual d e = Inr (dests d = dests e)"
    and "NetDest_intersectionIsNotEmpty d e = Inr (dests d \<inter> dests e \<noteq> {})"
proof -
  note len = assms [THEN net_dest_wf_length]
  have n: "node_set_wf (m_bits d ! i)" "node_set_wf (m_bits e ! i)" "m_nSize (m_bits d ! i) = m_nSize (m_bits e ! i)"
    if "i < length (m_bits d)" for i
    using that len assms by (auto simp: net_dest_wf_def)
  have "rall2 Set_isSuperset (m_bits d) (m_bits e) =
      Inr (\<forall>i < length (m_bits d). elems (m_bits e ! i) \<subseteq> elems (m_bits d ! i))"
    using n len by (intro rall2_Inr) (simp_all add: Set_isSuperset_spec)
  then show "NetDest_isSuperset d e = Inr (dests e \<subseteq> dests d)"
    using len by (auto simp: NetDest_isSuperset_def dests_def)
  have "rall2 Set_isEqual (m_bits d) (m_bits e) =
      Inr (\<forall>i < length (m_bits d). elems (m_bits d ! i) = elems (m_bits e ! i))"
    using n len by (intro rall2_Inr) (simp_all add: Set_isEqual_spec)
  then show "NetDest_isEqual d e = Inr (dests d = dests e)"
    using len by (auto simp: NetDest_isEqual_def dests_def set_eq_iff)
  have "rall2 Set_intersectionIsEmpty (m_bits d) (m_bits e) =
      Inr (\<forall>i < length (m_bits d). elems (m_bits d ! i) \<inter> elems (m_bits e ! i) = {})"
    using n len by (intro rall2_Inr) (simp_all add: Set_intersectionIsEmpty_spec)
  then show "NetDest_intersectionIsNotEmpty d e = Inr (dests d \<inter> dests e \<noteq> {})"
    using len by (auto simp: NetDest_intersectionIsNotEmpty_def dests_def)
qed

subsection \<open>Broadcast\<close>

lemma NetDest_add_all:
  assumes "net_dest_wf ct d" and "\<forall>m \<in> set ms. mach_type m < length ct \<and> mach_num m < ct ! mach_type m"
  shows "\<exists>d'. rfold (NetDest_add ct) d ms = Inr d' \<and> net_dest_wf ct d' \<and>
    dests d' = dests d \<union> (\<lambda>m. (mach_type m, mach_num m)) ` set ms"
  using assms
proof (induction ms arbitrary: d)
  case Nil
  then show ?case by simp
next
  case (Cons m ms)
  obtain d' where d': "NetDest_add ct d m = Inr d'" "net_dest_wf ct d'"
    "dests d' = insert (mach_type m, mach_num m) (dests d)"
    using NetDest_add_spec [of ct d "mach_type m" "mach_num m"] Cons.prems by (cases m) auto
  then show ?case using Cons.IH [of d'] Cons.prems(2) by auto
qed

lemma NetDest_broadcast_type_spec:
  assumes "net_dest_wf ct d" and "t < length ct"
  shows "\<exists>d'. NetDest_broadcast_type ct d t = Inr d' \<and> net_dest_wf ct d' \<and>
    dests d' = dests d \<union> {t} \<times> {..<ct ! t}"
proof -
  let ?ms = "map (\<lambda>i. \<lparr>mach_type = t, mach_num = i\<rparr>) [0..<ct ! t]"
  have "(\<lambda>m. (mach_type m, mach_num m)) ` set ?ms = {t} \<times> {..<ct ! t}" by (auto simp: image_iff)
  then show ?thesis
    using NetDest_add_all [OF assms(1), of ?ms] assms(2)
    by (auto simp: NetDest_broadcast_type_def mach_type_defs)
qed

lemma NetDest_broadcast_list:
  assumes "net_dest_wf ct d" and "set ts \<subseteq> {..<length ct}"
  shows "\<exists>d'. rfold (NetDest_broadcast_type ct) d ts = Inr d' \<and> net_dest_wf ct d' \<and>
    dests d' = dests d \<union> (SIGMA t:set ts. {..<ct ! t})"
  using assms
proof (induction ts arbitrary: d)
  case Nil
  then show ?case by simp
next
  case (Cons t ts)
  obtain d' where d': "NetDest_broadcast_type ct d t = Inr d'" "net_dest_wf ct d'"
    "dests d' = dests d \<union> {t} \<times> {..<ct ! t}"
    using NetDest_broadcast_type_spec [of ct d t] Cons.prems by auto
  have "(SIGMA t:set (t # ts). {..<ct ! t}) = {t} \<times> {..<ct ! t} \<union> (SIGMA t:set ts. {..<ct ! t})" by auto
  then show ?case using Cons.IH [of d'] Cons.prems(2) d' by (auto simp: Un_assoc)
qed

lemma NetDest_broadcast_spec:
  assumes "net_dest_wf ct d"
  shows "\<exists>d'. NetDest_broadcast ct d = Inr d' \<and> net_dest_wf ct d' \<and>
    dests d' = (SIGMA t:{..<length ct}. {..<ct ! t})"
  using NetDest_broadcast_list [OF assms, of "[0..<length ct]"] dests_bounded [OF assms]
  by (auto simp: NetDest_broadcast_def atLeast0LessThan Un_absorb1)

lemma NetDest_clear_spec:
  assumes "net_dest_wf ct d"
  shows "net_dest_wf ct (NetDest_clear d) \<and> dests (NetDest_clear d) = {}"
  using assms Set_clear_spec by (auto simp: NetDest_clear_def net_dest_wf_def dests_def)

lemma NetDest_isEmpty_spec:
  assumes "net_dest_wf ct d"
  shows "NetDest_isEmpty d \<longleftrightarrow> dests d = {}"
  using assms Set_isEmpty_spec
  by (auto simp: NetDest_isEmpty_def net_dest_wf_def dests_def list_all_length)

lemma NetDest_isBroadcast_spec:
  assumes "net_dest_wf ct d"
  shows "NetDest_isBroadcast d \<longleftrightarrow> dests d = (SIGMA t:{..<length ct}. {..<ct ! t})"
proof -
  have "NetDest_isBroadcast d \<longleftrightarrow> (\<forall>t < length ct. elems (m_bits d ! t) = {..<ct ! t})"
    using assms Set_isBroadcast_spec by (auto simp: NetDest_isBroadcast_def net_dest_wf_def list_all_length)
  also have "\<dots> \<longleftrightarrow> dests d = (SIGMA t:{..<length ct}. {..<ct ! t})"
    using assms by (auto simp: net_dest_wf_def dests_def set_eq_iff)
  finally show ?thesis .
qed

subsection \<open>Counting and enumeration\<close>

lemma NetDest_count_spec:
  assumes "net_dest_wf ct d"
  shows "NetDest_count d = card (dests d)"
proof -
  have "dests d = (SIGMA t:{..<length (m_bits d)}. elems (m_bits d ! t))" by (auto simp: dests_def)
  then have "card (dests d) = (\<Sum>t < length (m_bits d). card (elems (m_bits d ! t)))"
    using assms by (simp add: card_SigmaI net_dest_wf_def)
  also have "\<dots> = (\<Sum>t < length (m_bits d). Set_count (m_bits d ! t))"
    using assms by (intro sum.cong) (simp_all add: net_dest_wf_def Set_count_spec)
  finally show ?thesis by (simp add: NetDest_count_def sum_list_sum_nth atLeast0LessThan)
qed

lemma first_element_eq:
  assumes "node_set_wf s" and "set js \<subseteq> {..<m_nSize s}"
  shows "first_element s js = Inr (find (\<lambda>j. j \<in> elems s) js)"
  using assms(2) by (induction js) (simp_all add: ns.memb_spec [OF assms(1)])

lemma find_upt_Some:
  assumes "find P [a..<b] = Some j"
  shows "P j \<and> a \<le> j \<and> j < b \<and> (\<forall>k. a \<le> k \<and> k < j \<longrightarrow> \<not> P k)"
proof -
  obtain i where "i < length [a..<b]" "P ([a..<b] ! i)" "j = [a..<b] ! i" "\<forall>k < i. \<not> P ([a..<b] ! k)"
    using assms by (auto simp: find_Some_iff)
  then have i: "i < b - a" "j = a + i" "P j" "\<And>k. k < i \<Longrightarrow> \<not> P (a + k)" by auto
  have "\<not> P k" if "a \<le> k" "k < j" for k
    using i(4) [of "k - a"] that i(2) by simp
  with i show ?thesis by simp
qed

text \<open>The scan over the sets finds the smallest pair, first by machine type, then by node.\<close>

lemma first_machine_spec:
  assumes "\<forall>s \<in> set ss. node_set_wf s"
  shows "\<exists>r. first_machine ss n = Inr r \<and>
    (case r of None \<Rightarrow> \<forall>t < length ss. elems (ss ! t) = {}
     | Some (t, j) \<Rightarrow> n \<le> t \<and> t - n < length ss \<and> j \<in> elems (ss ! (t - n)) \<and>
         (\<forall>k \<in> elems (ss ! (t - n)). j \<le> k) \<and> (\<forall>u < t - n. elems (ss ! u) = {}))"
  using assms
proof (induction ss arbitrary: n)
  case Nil
  then show ?case by simp
next
  case (Cons s ss)
  have fe: "first_element s [0..<m_nSize s] = Inr (find (\<lambda>j. j \<in> elems s) [0..<m_nSize s])"
    using Cons.prems by (intro first_element_eq) auto
  show ?case
  proof (cases "find (\<lambda>j. j \<in> elems s) [0..<m_nSize s]")
    case (Some j)
    then have "j \<in> elems s \<and> (\<forall>k \<in> elems s. j \<le> k)"
      using find_upt_Some [OF Some] by (auto simp: not_less [symmetric])
    with Some fe show ?thesis by simp
  next
    case None
    then have "elems s = {}"
      using Cons.prems ns.elts_bounded [of s] by (auto simp: find_None_iff)
    moreover obtain r where r: "first_machine ss (n + 1) = Inr r"
      "case r of None \<Rightarrow> \<forall>t < length ss. elems (ss ! t) = {}
       | Some (t, j) \<Rightarrow> n + 1 \<le> t \<and> t - (n + 1) < length ss \<and> j \<in> elems (ss ! (t - (n + 1))) \<and>
           (\<forall>k \<in> elems (ss ! (t - (n + 1))). j \<le> k) \<and> (\<forall>u < t - (n + 1). elems (ss ! u) = {})"
      using Cons.IH [of "n + 1"] Cons.prems by auto
    have shift: "t - n = Suc (t - (n + 1))" if "n + 1 \<le> t" for t using that by simp
    show ?thesis
    proof (cases r)
      case None
      with r \<open>elems s = {}\<close> fe \<open>find _ _ = None\<close> show ?thesis
        by (simp add: all_less_Suc_conv)
    next
      case (Some p)
      obtain t j where "p = (t, j)" by (cases p)
      with r Some \<open>elems s = {}\<close> fe \<open>find _ _ = None\<close> shift [of t] show ?thesis
        by (simp add: all_less_Suc_conv)
    qed
  qed
qed

lemma NetDest_smallestElement_spec:
  assumes "net_dest_wf ct d" and "dests d \<noteq> {}"
  shows "\<exists>t i. NetDest_smallestElement ct d = Inr \<lparr>mach_type = t, mach_num = i\<rparr> \<and> (t, i) \<in> dests d \<and>
    (\<forall>(u, k) \<in> dests d. t < u \<or> t = u \<and> i \<le> k)"
proof -
  note len = net_dest_wf_length [OF assms(1)]
  have wf: "\<forall>s \<in> set (m_bits d). node_set_wf s"
    using assms(1) by (auto simp: net_dest_wf_def in_set_conv_nth)
  have cnt: "0 < NetDest_count d"
    using assms dests_finite [OF assms(1)] by (simp add: NetDest_count_spec card_gt_0_iff)
  obtain r where r: "first_machine (m_bits d) 0 = Inr r"
    "case r of None \<Rightarrow> \<forall>t < length (m_bits d). elems (m_bits d ! t) = {}
     | Some (t, j) \<Rightarrow> t < length (m_bits d) \<and> j \<in> elems (m_bits d ! t) \<and>
         (\<forall>k \<in> elems (m_bits d ! t). j \<le> k) \<and> (\<forall>u < t. elems (m_bits d ! u) = {})"
    using first_machine_spec [OF wf, of 0] by (simp only: diff_zero le0 simp_thms) blast
  obtain t i where ti: "r = Some (t, i)" using r(2) assms(2) by (cases r) (auto simp: dests_def)
  have "NetDest_smallestElement ct d = Inr \<lparr>mach_type = t, mach_num = i\<rparr>"
    using cnt r ti len by (simp add: NetDest_smallestElement_def mach_type_defs)
  moreover have "t < u \<or> t = u \<and> i \<le> k" if "(u, k) \<in> dests d" for u k
  proof -
    have k: "k \<in> elems (m_bits d ! u)" using that by (simp add: dests_def)
    then have "\<not> u < t" using r(2) ti by auto
    moreover have "i \<le> k" if "u = t" using k r(2) ti that by auto
    ultimately show ?thesis by auto
  qed
  moreover have "(t, i) \<in> dests d" using r(2) ti by (simp add: dests_def)
  ultimately show ?thesis by auto
qed

definition global_id :: "nat list \<Rightarrow> nat \<times> nat \<Rightarrow> nat" where
  "global_id ct = (\<lambda>(t, i). sum_list (take t ct) + i)"

lemma getAllDest_inner:
  assumes "node_set_wf s" and "set js \<subseteq> {..<m_nSize s}" and "t \<le> length ct"
  shows "rfold (\<lambda>dest j. rbind (Set_isElement s j) (\<lambda>b.
      if b then rbind (MachineType_base_number ct t) (\<lambda>n. Inr (dest @ [n + j])) else Inr dest)) dest js
    = Inr (dest @ map (\<lambda>j. global_id ct (t, j)) (filter (\<lambda>j. j \<in> elems s) js))"
  using assms(2)
  by (induction js arbitrary: dest)
     (simp_all add: ns.memb_spec [OF assms(1)] assms(3) mach_type_defs global_id_def)

lemma filter_elems:
  assumes "node_set_wf s"
  shows "filter (\<lambda>j. j \<in> elems s) [0..<m_nSize s] = sorted_list_of_set (elems s)"
proof -
  have "filter (\<lambda>j. j \<in> elems s) [0..<m_nSize s] = filter (\<lambda>j. Set_isElement s j = Inr True) [0..<m_nSize s]"
    by (rule filter_cong) (simp_all add: assms ns.memb_spec)
  then show ?thesis by (simp add: ns.members_list [OF assms])
qed

lemma NetDest_getAllDest_eq:
  assumes "net_dest_wf ct d"
  shows "NetDest_getAllDest ct d = Inr (concat (map (\<lambda>t.
    map (\<lambda>j. global_id ct (t, j)) (sorted_list_of_set (elems (m_bits d ! t)))) [0..<length ct]))"
proof -
  let ?body = "\<lambda>dest i. rfold (\<lambda>dest j. rbind (Set_isElement (m_bits d ! i) j) (\<lambda>b.
      if b then rbind (MachineType_base_number ct i) (\<lambda>n. Inr (dest @ [n + j])) else Inr dest))
    dest [0..<m_nSize (m_bits d ! i)]"
  let ?row = "\<lambda>t. map (\<lambda>j. global_id ct (t, j)) (sorted_list_of_set (elems (m_bits d ! t)))"
  have body: "?body dest t = Inr (dest @ ?row t)" if "t < length ct" for dest t
    using net_dest_wf_nth(1) [OF assms that] that
    by (subst getAllDest_inner) (auto simp: filter_elems)
  have "rfold ?body dest ts = Inr (dest @ concat (map ?row ts))" if "set ts \<subseteq> {..<length ct}" for dest ts
    using that by (induction ts arbitrary: dest) (simp_all add: body)
  from this [of "[0..<length ct]" "[]"] show ?thesis
    using net_dest_wf_length [OF assms] by (simp add: NetDest_getAllDest_def atLeast0LessThan)
qed

lemma sum_list_take_Suc: "t < length ct \<Longrightarrow> sum_list (take (Suc t) ct) = sum_list (take t ct) + ct ! t"
  for ct :: "nat list"
  by (simp add: take_Suc_conv_app_nth)

lemma global_id_less:
  assumes "t < length ct" and "i < ct ! t" and "t < u"
  shows "global_id ct (t, i) < global_id ct (u, k)"
proof -
  have "sum_list (take (Suc t) ct) \<le> sum_list (take u ct)"
  proof -
    have "take u ct = take (Suc t) ct @ drop (Suc t) (take u ct)"
      using assms by (metis append_take_drop_id min.absorb1 Suc_leI take_take)
    then show ?thesis by (metis sum_list_append le_add1)
  qed
  with assms show ?thesis by (simp add: global_id_def sum_list_take_Suc)
qed

lemma sorted_wrt_concat_rows:
  assumes "\<And>t. t < n \<Longrightarrow> sorted_wrt (<) (f t)"
    and "\<And>t u x y. t < u \<Longrightarrow> u < n \<Longrightarrow> x \<in> set (f t) \<Longrightarrow> y \<in> set (f u) \<Longrightarrow> x < y"
  shows "sorted_wrt (<) (concat (map f [0..<n]))"
  using assms
proof (induction n)
  case 0
  then show ?case by simp
next
  case (Suc n)
  then have "sorted_wrt (<) (concat (map f [0..<n]))" by simp
  then show ?case using Suc.prems(1) [of n] Suc.prems(2) [of _ n] by (auto simp: sorted_wrt_append)
qed

lemma NetDest_getAllDest_spec:
  assumes "net_dest_wf ct d"
  shows "\<exists>xs. NetDest_getAllDest ct d = Inr xs \<and> sorted_wrt (<) xs \<and> set xs = global_id ct ` dests d"
proof (intro exI conjI, rule NetDest_getAllDest_eq [OF assms])
  have el: "i < ct ! t" if "t < length ct" "i \<in> elems (m_bits d ! t)" for t i
    using ns.elts_bounded net_dest_wf_nth [OF assms that(1)] that(2) by fastforce
  have fin: "finite (elems (m_bits d ! t))" if "t < length ct" for t
    using net_dest_wf_nth(1) [OF assms that] by simp
  show "sorted_wrt (<) (concat (map (\<lambda>t. map (\<lambda>j. global_id ct (t, j))
      (sorted_list_of_set (elems (m_bits d ! t)))) [0..<length ct]))"
  proof (rule sorted_wrt_concat_rows)
    show "sorted_wrt (<) (map (\<lambda>j. global_id ct (t, j)) (sorted_list_of_set (elems (m_bits d ! t))))" for t
      by (simp add: sorted_wrt_map global_id_def)
    show "x < y" if "t < u" "u < length ct"
      "x \<in> set (map (\<lambda>j. global_id ct (t, j)) (sorted_list_of_set (elems (m_bits d ! t))))"
      "y \<in> set (map (\<lambda>j. global_id ct (u, j)) (sorted_list_of_set (elems (m_bits d ! u))))" for t u x y
      using that el fin by (auto intro!: global_id_less)
  qed
  show "set (concat (map (\<lambda>t. map (\<lambda>j. global_id ct (t, j))
      (sorted_list_of_set (elems (m_bits d ! t)))) [0..<length ct])) = global_id ct ` dests d"
    using fin net_dest_wf_length [OF assms] by (force simp: dests_def)
qed

section \<open>Properties\<close>

text \<open>A system with four caches and two directories, used in the witnesses.\<close>

definition net_dest42 :: net_dest where
  "net_dest42 = \<lparr>m_bits = [Set_new 4, Set_new 2], special = False, sidePacket = False, direct = False\<rparr>"

lemma net_dest42_wf [simp]: "net_dest_wf [4, 2] net_dest42"
  using Set_new_spec [of 4] Set_new_spec [of 2]
  by (auto simp: net_dest_wf_def net_dest42_def less_Suc_eq numeral_2_eq_2)

text \<open>C?: with fewer than 32 controllers of every machine type, the operations of \<open>NetDest\<close> compute
  the corresponding operations on finite sets of (machine type, node) pairs, for every list of
  controller counts.\<close>

theorem NetDest_refines_sets:
  assumes "net_dest_wf ct d" and "net_dest_wf ct e" and "\<forall>n \<in> set ct. n < 32"
    and "t < length ct" and "i < ct ! t"
  shows "rmap dests (NetDest_new ct) = Inr {} \<and>
    rmap dests (NetDest_add ct d \<lparr>mach_type = t, mach_num = i\<rparr>) = Inr (insert (t, i) (dests d)) \<and>
    rmap dests (NetDest_remove ct d \<lparr>mach_type = t, mach_num = i\<rparr>) = Inr (dests d - {(t, i)}) \<and>
    NetDest_isElement ct d \<lparr>mach_type = t, mach_num = i\<rparr> = Inr ((t, i) \<in> dests d) \<and>
    rmap dests (NetDest_addNetDest d e) = Inr (dests d \<union> dests e) \<and>
    rmap dests (NetDest_removeNetDest d e) = Inr (dests d - dests e) \<and>
    rmap dests (NetDest_OR ct d e) = Inr (dests d \<union> dests e) \<and>
    rmap dests (NetDest_AND ct d e) = Inr (dests d \<inter> dests e) \<and>
    NetDest_isSuperset d e = Inr (dests e \<subseteq> dests d) \<and>
    NetDest_isEqual d e = Inr (dests d = dests e) \<and>
    NetDest_intersectionIsNotEmpty d e = Inr (dests d \<inter> dests e \<noteq> {}) \<and>
    (NetDest_isEmpty d \<longleftrightarrow> dests d = {}) \<and> NetDest_count d = card (dests d)"
  using NetDest_new_spec [OF assms(3)] NetDest_add_spec [OF assms(1,4,5)]
    NetDest_remove_spec [OF assms(1,4,5)] NetDest_isElement_spec [OF assms(1,4,5)]
    NetDest_binary_spec [OF assms(1,2)] NetDest_result_spec [OF assms(1-3)]
    NetDest_test_spec [OF assms(1,2)] NetDest_isEmpty_spec [OF assms(1)] NetDest_count_spec [OF assms(1)]
  by (elim exE conjE) (simp only: rmap_simps simp_thms)

theorem NetDest_refines_sets_witness:
  "rmap dests (NetDest_add [4, 2] net_dest42 \<lparr>mach_type = 1, mach_num = 0\<rparr>)
     = Inr (insert (1, 0) (dests net_dest42))"
  using NetDest_refines_sets [of "[4, 2]" net_dest42 net_dest42 1 0] by simp

text \<open>\<open>broadcast\<close> never fails and adds every controller of the system, after which \<open>isBroadcast\<close>
  holds; adding a node number that the machine type does not have stops at the assertion.\<close>

lemma NetDest_broadcast_reaches_all:
  assumes "net_dest_wf ct d" and "t < length ct" and "ct ! t \<le> i"
  shows "(\<exists>d'. NetDest_broadcast ct d = Inr d' \<and> NetDest_isBroadcast d' \<and>
      dests d' = (SIGMA u:{..<length ct}. {..<ct ! u})) \<and>
    NetDest_add ct d \<lparr>mach_type = t, mach_num = i\<rparr> = Inl AssertFailed"
  using NetDest_broadcast_spec [OF assms(1)] NetDest_isBroadcast_spec NetDest_add_rejects [OF assms]
  by blast

text \<open>\<open>getAllDest\<close> lists the global node identifiers of exactly the destinations, in strictly
  ascending order, so each one occurs once, and \<open>smallestElement\<close> is the least destination by
  machine type and node number.\<close>

lemma NetDest_getAllDest_enumerates:
  assumes "net_dest_wf ct d" and "dests d \<noteq> {}"
  shows "(\<exists>xs. NetDest_getAllDest ct d = Inr xs \<and> sorted_wrt (<) xs \<and> set xs = global_id ct ` dests d) \<and>
    (\<exists>t i. NetDest_smallestElement ct d = Inr \<lparr>mach_type = t, mach_num = i\<rparr> \<and> (t, i) \<in> dests d \<and>
      (\<forall>(u, k) \<in> dests d. t < u \<or> t = u \<and> i \<le> k))"
  using NetDest_getAllDest_spec [OF assms(1)] NetDest_smallestElement_spec [OF assms] by blast

end
