(* ===== verification/Throttle.thy ===== *)
theory Throttle
  imports TDM_Schedule Message_Buffer Net_Dest
begin

text \<open>
  The link throttle, which is also the bus arbiter of the predictable protocol:
  \<open>Throttle\<close> of src/gem5-stable/src/mem/ruby/network/simple/Throttle.hh and Throttle.cc. It moves
  messages from its input buffers to its output buffers, limited by the bandwidth of the link, and on
  the links to the central switch (number 5) only in the slots of the schedule. The message sizes
  are those of \<open>Network::MessageSizeType_to_int\<close> (network/Network.cc). Utilisation statistics are
  left out.
\<close>

section \<open>Network messages\<close>

datatype message_size_type =
    MessageSizeType_Control | MessageSizeType_Data | MessageSizeType_Request_Control
  | MessageSizeType_Reissue_Control | MessageSizeType_Response_Data | MessageSizeType_ResponseL2hit_Data
  | MessageSizeType_ResponseLocal_Data | MessageSizeType_Response_Control | MessageSizeType_Writeback_Data
  | MessageSizeType_Writeback_Control | MessageSizeType_Broadcast_Control | MessageSizeType_Multicast_Control
  | MessageSizeType_Forwarded_Control | MessageSizeType_Invalidate_Control | MessageSizeType_Unblock_Control
  | MessageSizeType_Persistent_Control | MessageSizeType_Completion_Control | MessageSizeType_NUM

record network =
  m_control_msg_size :: u32
  m_data_msg_size :: u32

fun MessageSizeType_to_int :: "network \<Rightarrow> message_size_type \<Rightarrow> u32 result" where
  "MessageSizeType_to_int net MessageSizeType_NUM = Inl Panicked"
| "MessageSizeType_to_int net MessageSizeType_Data = Inr (m_data_msg_size net)"
| "MessageSizeType_to_int net MessageSizeType_Response_Data = Inr (m_data_msg_size net)"
| "MessageSizeType_to_int net MessageSizeType_ResponseLocal_Data = Inr (m_data_msg_size net)"
| "MessageSizeType_to_int net MessageSizeType_ResponseL2hit_Data = Inr (m_data_msg_size net)"
| "MessageSizeType_to_int net MessageSizeType_Writeback_Data = Inr (m_data_msg_size net)"
| "MessageSizeType_to_int net _ = Inr (m_control_msg_size net)"

text \<open>The destination and the size of a message are fields of the message classes that the protocol
  compiler generates; \<open>nm_data\<close> stands for their other fields.\<close>

record 'd network_message =
  nm_destination :: net_dest
  nm_size :: message_size_type
  m_internal_dest :: net_dest
  m_internal_dest_valid :: bool
  nm_incoming_link :: int
  nm_vnet :: int
  nm_data :: 'd

definition getInternalDestination :: "'d network_message \<Rightarrow> net_dest \<times> 'd network_message" where
  "getInternalDestination m =
     (let m' = (if \<not> m_internal_dest_valid m
                then m\<lparr>m_internal_dest := nm_destination m, m_internal_dest_valid := True\<rparr> else m)
      in (m_internal_dest m', m'))"

section \<open>State\<close>

type_synonym 'd net_buffer = "'d network_message message_buffer"

record 'd throttle =
  m_in :: "'d net_buffer option list"
  m_out :: "'d net_buffer option list"
  m_vnets :: nat
  m_units_remaining :: "int list"
  m_sID :: int
  m_node :: nat
  m_link_bandwidth_multiplier :: int
  m_link_latency :: cycles
  m_wakeups_wo_switch :: int
  m_endpoint_bandwidth :: int
  m_msg_counts :: "message_size_type \<Rightarrow> nat \<Rightarrow> nat"
  doCheck :: bool
  vToken :: bool
  smBlock :: bool

text \<open>What a throttle finds around it at a wakeup: the current tick, the Ruby system and its clock,
  the network's message sizes, the machine counts and the number of the machine type \<open>L1Cache\<close>, the
  switch that reads each output buffer (none if its consumer is not a \<open>PerfectSwitch\<close>), and the
  random numbers.\<close>

record throttle_env =
  te_now :: tick
  te_rs :: ruby_system
  te_sys :: clocked_object
  te_net :: network
  te_ct :: "nat list"
  te_l1 :: nat
  te_out_switch :: "nat \<Rightarrow> int option"
  te_rnd :: "cycles \<times> cycles \<times> cycles"
  te_rand :: nat

definition Throttle_init :: "'d throttle \<Rightarrow> nat \<Rightarrow> cycles \<Rightarrow> int \<Rightarrow> int \<Rightarrow> 'd throttle result" where
  "Throttle_init th node link_latency link_bandwidth_multiplier endpoint_bandwidth =
     ensure (0 < link_bandwidth_multiplier) AssertFailed (
     Inr (th\<lparr>m_node := node, m_vnets := 0, m_link_bandwidth_multiplier := link_bandwidth_multiplier,
             m_link_latency := link_latency, m_endpoint_bandwidth := endpoint_bandwidth,
             m_wakeups_wo_switch := 0\<rparr>))"

text \<open>The constructor for switches; \<open>raw\<close> is the memory before construction, of which the constructor
  sets every member but the vectors, which are empty.\<close>

definition Throttle_new :: "'d throttle \<Rightarrow> int \<Rightarrow> nat \<Rightarrow> cycles \<Rightarrow> int \<Rightarrow> int \<Rightarrow> 'd throttle result" where
  "Throttle_new raw sID node link_latency bw_mult bandwidth =
     rbind (Throttle_init (raw\<lparr>m_in := [], m_out := [], m_units_remaining := []\<rparr>) node link_latency bw_mult bandwidth)
       (\<lambda>th. Inr (th\<lparr>m_sID := sID, vToken := False, smBlock := False, doCheck := False\<rparr>))"

text \<open>The constructor for end points leaves \<open>vToken\<close>, \<open>smBlock\<close> and \<open>doCheck\<close> as they are in memory.\<close>

definition Throttle_new_node :: "'d throttle \<Rightarrow> nat \<Rightarrow> cycles \<Rightarrow> int \<Rightarrow> int \<Rightarrow> 'd throttle result" where
  "Throttle_new_node raw node link_latency bw_mult bandwidth =
     rbind (Throttle_init (raw\<lparr>m_in := [], m_out := [], m_units_remaining := []\<rparr>) node link_latency bw_mult bandwidth)
       (\<lambda>th. Inr (th\<lparr>m_sID := 0\<rparr>))"

definition Throttle_addLink :: "string \<Rightarrow> 'd throttle \<Rightarrow> 'd net_buffer option \<times> 'd net_buffer option \<Rightarrow> 'd throttle result" where
  "Throttle_addLink desc th = (\<lambda>(in_ptr, out_ptr).
     rbind (deref in_ptr) (\<lambda>b. rbind (MessageBuffer_setConsumer b) (\<lambda>b'.
       Inr (th\<lparr>m_vnets := m_vnets th + 1, m_units_remaining := m_units_remaining th @ [0],
               m_in := m_in th @ [Some (MessageBuffer_setDescription b' desc)], m_out := m_out th @ [out_ptr]\<rparr>))))"

definition Throttle_addLinks :: "string \<Rightarrow> 'd throttle \<Rightarrow> 'd net_buffer option list \<Rightarrow> 'd net_buffer option list \<Rightarrow>
    'd throttle result" where
  "Throttle_addLinks desc th in_vec out_vec =
     ensure (length in_vec = length out_vec) AssertFailed (
       rfold (Throttle_addLink desc) th (zip in_vec out_vec))"

definition getLinkBandwidth :: "'d throttle \<Rightarrow> int" where
  "getLinkBandwidth th = m_endpoint_bandwidth th * m_link_bandwidth_multiplier th"

definition changeVnetToken :: "'d throttle \<Rightarrow> 'd throttle" where
  "changeVnetToken th = (let v = (\<not> vToken th) in th\<lparr>vToken := v, smBlock := v\<rparr>)"

definition MESSAGE_SIZE_MULTIPLIER :: int where
  "MESSAGE_SIZE_MULTIPLIER = 1000"

definition BROADCAST_SCALING :: int where
  "BROADCAST_SCALING = 1"

definition network_message_to_size :: "network \<Rightarrow> 'd network_message \<Rightarrow> int result" where
  "network_message_to_size net m = rbind (MessageSizeType_to_int net (nm_size m)) (\<lambda>sz.
     let s = uint sz * MESSAGE_SIZE_MULTIPLIER
     in Inr (if 1 < BROADCAST_SCALING \<and> NetDest_isBroadcast (nm_destination m) then s * BROADCAST_SCALING else s))"

section \<open>Moving one message\<close>

definition in_buf :: "'d throttle \<Rightarrow> nat \<Rightarrow> 'd net_buffer result" where
  "in_buf th vnet = rbind (at_pos (m_in th) vnet) deref"

definition out_buf :: "'d throttle \<Rightarrow> nat \<Rightarrow> 'd net_buffer result" where
  "out_buf th vnet = rbind (at_pos (m_out th) vnet) deref"

definition in_ready :: "throttle_env \<Rightarrow> 'd throttle \<Rightarrow> nat \<Rightarrow> bool result" where
  "in_ready env th vnet = rbind (in_buf th vnet) (MessageBuffer_isReady (te_now env))"

text \<open>\<open>pos\<close> is \<open>None\<close> for the argument \<open>-1\<close>.\<close>

definition serviceRequest :: "throttle_env \<Rightarrow> 'd throttle \<Rightarrow> nat \<Rightarrow> nat option \<Rightarrow> ('d throttle \<times> consumer_call list) result" where
  "serviceRequest env th vnet pos =
     rbind (in_buf th vnet) (\<lambda>inb. rbind (out_buf th vnet) (\<lambda>outb.
     rbind (case pos of None \<Rightarrow> peekMsgPtr (te_now env) inb | Some p \<Rightarrow> peekMsgPtr_at inb p) (\<lambda>msg.
     rbind (network_message_to_size (te_net env) (payload msg)) (\<lambda>sz.
     rbind (case pos of None \<Rightarrow> MessageBuffer_dequeue (te_now env) inb
            | Some p \<Rightarrow> MessageBuffer_dequeue_at (te_now env) inb p) (\<lambda>(c, msg', inb').
     rbind (MessageBuffer_enqueue (te_now env) (te_rs env) (te_rnd env) outb (Some msg') (m_link_latency th) False)
       (\<lambda>(outb', calls).
       Inr (th\<lparr>m_units_remaining := (m_units_remaining th)[vnet := m_units_remaining th ! vnet + sz],
               m_in := (m_in th)[vnet := Some inb'], m_out := (m_out th)[vnet := Some outb'],
               m_msg_counts := (\<lambda>ty v. if ty = nm_size (payload msg) \<and> v = vnet
                                        then m_msg_counts th ty v + 1 else m_msg_counts th ty v)\<rparr>, calls)))))))"

text \<open>The state of a wakeup: the throttle, \<open>bw_remaining\<close>, \<open>schedule_wakeup\<close> and the calls on the
  consumers of the output buffers.\<close>

type_synonym 'd wake_state = "'d throttle \<times> int \<times> bool \<times> consumer_call list"

definition service_step :: "throttle_env \<Rightarrow> nat \<Rightarrow> nat option \<Rightarrow> 'd wake_state \<Rightarrow> 'd wake_state result" where
  "service_step env vnet pos = (\<lambda>(th, bw, sched, calls).
     rbind (serviceRequest env th vnet pos) (\<lambda>(th', calls'). Inr (th', bw, sched, calls @ calls')))"

definition service_if_idle :: "throttle_env \<Rightarrow> nat \<Rightarrow> nat option \<Rightarrow> 'd wake_state \<Rightarrow> 'd wake_state result" where
  "service_if_idle env vnet pos st = (case st of (th, bw, sched, calls) \<Rightarrow>
     if m_units_remaining th ! vnet = 0
     then rbind (in_ready env th vnet) (\<lambda>r. if r then service_step env vnet pos st else Inr st)
     else Inr st)"

definition use_bandwidth :: "nat \<Rightarrow> 'd wake_state \<Rightarrow> 'd wake_state" where
  "use_bandwidth vnet = (\<lambda>(th, bw, sched, calls).
     let diff = m_units_remaining th ! vnet - bw
     in (th\<lparr>m_units_remaining := (m_units_remaining th)[vnet := max 0 diff]\<rparr>, max 0 (- diff), sched, calls))"

definition wake_if_ready :: "throttle_env \<Rightarrow> nat \<Rightarrow> 'd wake_state \<Rightarrow> 'd wake_state result" where
  "wake_if_ready env vnet = (\<lambda>(th, bw, sched, calls).
     rbind (in_ready env th vnet) (\<lambda>r. Inr (th, bw, sched \<or> r, calls)))"

section \<open>Arbitration\<close>

text \<open>The choice between write-back and demand slot at the start of a slot, for a scheduled write-back
  slot and for a scheduled demand slot.\<close>

definition queue_ready :: "throttle_env \<Rightarrow> 'd net_buffer option \<Rightarrow> bool result" where
  "queue_ready env q = rbind (deref q) (MessageBuffer_isReady (te_now env))"

definition wb_slot_start :: "throttle_env \<Rightarrow> 'd throttle \<Rightarrow> 'd net_buffer option \<Rightarrow> 'd net_buffer option \<Rightarrow>
    'd throttle result" where
  "wb_slot_start env th wbQueue demandQueue =
     rbind (queue_ready env wbQueue) (\<lambda>w. rbind (if \<not> w then queue_ready env demandQueue else Inr False) (\<lambda>d.
       if \<not> w \<and> d then Inr ((changeVnetToken th)\<lparr>smBlock := False\<rparr>)
       else Inr (th\<lparr>smBlock := True\<rparr>)))"

definition demand_slot_start :: "throttle_env \<Rightarrow> 'd throttle \<Rightarrow> 'd net_buffer option \<Rightarrow> 'd net_buffer option \<Rightarrow>
    'd throttle result" where
  "demand_slot_start env th wbQueue demandQueue =
     rbind (queue_ready env demandQueue) (\<lambda>d. rbind (if \<not> d then queue_ready env wbQueue else Inr False) (\<lambda>w.
       if \<not> d \<and> w then Inr ((changeVnetToken th)\<lparr>smBlock := True\<rparr>)
       else Inr (th\<lparr>smBlock := False\<rparr>)))"

definition arbitrate_slot :: "throttle_env \<Rightarrow> 'd throttle \<Rightarrow> nat \<Rightarrow> 'd net_buffer option \<Rightarrow> 'd net_buffer option \<Rightarrow>
    'd throttle result" where
  "arbitrate_slot env th vnet wbQueue demandQueue =
     (let t = curCycle (te_now env) (te_sys env);
          slotStart = isStartOfSlot t;
          th1 = th\<lparr>vToken := setSlotType (te_rand env) t (vToken th)\<rparr>
      in if \<not> BASELINE
         then if slotStart \<and> vnet = 6 \<and> m_sID th < 4
              then if vToken th1 then wb_slot_start env th1 wbQueue demandQueue
                   else demand_slot_start env th1 wbQueue demandQueue
              else Inr th
         else if slotStart \<and> m_sID th < 4 then Inr th1 else Inr th)"

text \<open>A core's request on its way to the arbiter: the part at the start of the core's own slot, and
  the part for packets that do not wait for a slot.\<close>

definition request_in_slot :: "throttle_env \<Rightarrow> nat \<Rightarrow> 'd wake_state \<Rightarrow> 'd wake_state result" where
  "request_in_slot env vnet st =
     (if vnet = 6
      then rbind (if vToken (fst st)
                  then rbind (if WB_RANDOM
                              then rbind (in_buf (fst st) vnet) (\<lambda>b.
                                     ensure (m_prio_heap b \<noteq> []) Panicked (
                                     service_if_idle env vnet (Some (te_rand env mod length (m_prio_heap b))) st))
                              else service_if_idle env vnet None st)
                         (\<lambda>st'. Inr (use_bandwidth vnet st'))
                  else Inr st) (wake_if_ready env vnet)
      else rbind (if \<not> vToken (fst st)
                  then rbind (service_if_idle env vnet None st) (\<lambda>st'. Inr (use_bandwidth vnet st'))
                  else Inr st) (wake_if_ready env vnet))"

definition request_special :: "throttle_env \<Rightarrow> nat \<Rightarrow> 'd wake_state \<Rightarrow> 'd wake_state result" where
  "request_special env vnet st = (case st of (th, bw, sched, calls) \<Rightarrow>
     rbind (if vnet = 2 then in_ready env th vnet else Inr False) (\<lambda>r.
     if vnet = 2 \<and> r
     then rbind (in_buf th vnet) (\<lambda>b. rbind (peekMsgPtr (te_now env) b) (\<lambda>msg.
          rbind (if WRITE_HITS
                 then if isStartOfSlot (curCycle (te_now env) (te_sys env)) \<and> special (nm_destination (payload msg))
                      then rbind (in_ready env th vnet) (\<lambda>r2.
                           rbind (if r2 then service_step env vnet None st else Inr st) (\<lambda>st2. Inr (use_bandwidth vnet st2)))
                      else Inr st
                 else if sidePacket (nm_destination (payload msg))
                      then rbind (service_if_idle env vnet None st) (\<lambda>st2. Inr (use_bandwidth vnet st2))
                      else Inr st) (wake_if_ready env vnet)))
     else Inr (th, bw, True, calls)))"

definition request_case :: "throttle_env \<Rightarrow> nat \<Rightarrow> 'd wake_state \<Rightarrow> 'd wake_state result" where
  "request_case env vnet st =
     (let t = curCycle (te_now env) (te_sys env)
      in rbind (if getSlotOwner t = m_sID (fst st) \<and> isStartOfSlot t then request_in_slot env vnet st else Inr st)
           (request_special env vnet))"

text \<open>The first ready message of the shared memory for the core that owns the slot, if the core may
  receive data.\<close>

fun owner_scan :: "throttle_env \<Rightarrow> bool \<Rightarrow> 'd net_buffer \<Rightarrow> int \<Rightarrow> nat list \<Rightarrow> nat option result" where
  "owner_scan env unblocked b slotOwner [] = Inr None"
| "owner_scan env unblocked b slotOwner (i # is) =
     rbind (MessageBuffer_isReady_at (te_now env) b i) (\<lambda>r.
       if r
       then rbind (peekMsgPtr_at b i) (\<lambda>msg.
            rbind (NetDest_isElement (te_ct env) (nm_destination (payload msg))
                     \<lparr>mach_type = te_l1 env, mach_num = nat slotOwner\<rparr>) (\<lambda>e.
              if e \<and> unblocked then Inr (Some i) else owner_scan env unblocked b slotOwner is))
       else owner_scan env unblocked b slotOwner is)"

definition shared_memory_case :: "throttle_env \<Rightarrow> nat \<Rightarrow> 'd wake_state \<Rightarrow> 'd wake_state result" where
  "shared_memory_case env vnet st = (case st of (th, bw, sched, calls) \<Rightarrow>
     let t = curCycle (te_now env) (te_sys env)
     in rbind (in_buf th vnet) (\<lambda>b.
        rbind (owner_scan env (\<not> smBlock th) b (getSlotOwner t) [0..<length (m_prio_heap b)]) (\<lambda>found.
        case found of
          None \<Rightarrow> Inr (th, bw, True, calls)
        | Some pos \<Rightarrow>
            rbind (MessageBuffer_isReady_at (te_now env) b pos) (\<lambda>r.
            rbind (if r then service_step env vnet (Some pos) st else Inr st) (\<lambda>st1.
              wake_if_ready env vnet (use_bandwidth vnet st1))))))"

definition plain_case :: "throttle_env \<Rightarrow> nat \<Rightarrow> 'd wake_state \<Rightarrow> 'd wake_state result" where
  "plain_case env vnet st = rbind (service_if_idle env vnet None st) (\<lambda>st1.
     wake_if_ready env vnet (use_bandwidth vnet st1))"

definition default_case :: "throttle_env \<Rightarrow> nat \<Rightarrow> 'd wake_state \<Rightarrow> 'd wake_state result" where
  "default_case env vnet st = rbind (service_if_idle env vnet None st) (\<lambda>st1. Inr (use_bandwidth vnet st1))"

text \<open>The guard of the loop: whether there is bandwidth and something to send, and whether the output
  buffer has a slot (asked only then, which counts the refusals).\<close>

definition link_guard :: "throttle_env \<Rightarrow> nat \<Rightarrow> 'd wake_state \<Rightarrow> (bool \<times> bool \<times> 'd wake_state) result" where
  "link_guard env vnet st = (case st of (th, bw, sched, calls) \<Rightarrow>
     if 0 < bw
     then rbind (in_ready env th vnet) (\<lambda>r.
          if r \<or> 0 < m_units_remaining th ! vnet
          then rbind (out_buf th vnet) (\<lambda>outb. rbind (areNSlotsAvailable (te_now env) outb 1) (\<lambda>(avail, outb').
               Inr (True, avail, (th\<lparr>m_out := (m_out th)[vnet := Some outb']\<rparr>, bw, sched, calls))))
          else Inr (False, False, st))
     else Inr (False, False, st))"

text \<open>The body of the loop, which ends in \<open>break\<close> on every path.\<close>

definition link_body :: "throttle_env \<Rightarrow> nat \<Rightarrow> 'd wake_state \<Rightarrow> 'd wake_state result" where
  "link_body env vnet st = (case st of (th, bw, sched, calls) \<Rightarrow>
     case te_out_switch env vnet of
       None \<Rightarrow> default_case env vnet st
     | Some switchID \<Rightarrow>
         let vnetMatch = (if BASELINE then vnet = 2 else vnet = 6 \<or> vnet = 2)
         in if switchID = 5 \<and> m_sID th < 4 \<and> vnetMatch then request_case env vnet st
            else if switchID = 5 \<and> m_sID th = 4 then shared_memory_case env vnet st
            else plain_case env vnet st)"

text \<open>The test after the loop: a full output buffer asks for another wakeup.\<close>

definition link_finish :: "throttle_env \<Rightarrow> nat \<Rightarrow> 'd wake_state \<Rightarrow> 'd wake_state result" where
  "link_finish env vnet st = rbind (link_guard env vnet st) (\<lambda>(want, avail, (th, bw, sched, calls)).
     Inr (th, bw, sched \<or> want \<and> \<not> avail, calls))"

definition link_step :: "throttle_env \<Rightarrow> nat \<Rightarrow> 'd wake_state \<Rightarrow> 'd wake_state result" where
  "link_step env vnet st = rbind (link_guard env vnet st) (\<lambda>(want, avail, st1).
     rbind (if want \<and> avail then link_body env vnet st1 else Inr st1) (link_finish env vnet))"

definition operateVnet :: "throttle_env \<Rightarrow> nat \<Rightarrow> 'd wake_state \<Rightarrow> 'd wake_state result" where
  "operateVnet env vnet st = (case st of (th, bw, sched, calls) \<Rightarrow>
     rbind (at_pos (m_in th) 6) (\<lambda>wbQueue. rbind (at_pos (m_in th) 2) (\<lambda>demandQueue.
     rbind (arbitrate_slot env th vnet wbQueue demandQueue) (\<lambda>th1.
     if m_out th1 ! vnet = None \<or> m_in th1 ! vnet = None then Inr (th1, bw, sched, calls)
     else ensure (0 \<le> m_units_remaining th1 ! vnet) AssertFailed (link_step env vnet (th1, bw, sched, calls))))))"

definition Throttle_wakeup :: "throttle_env \<Rightarrow> 'd throttle \<Rightarrow> consumer \<Rightarrow>
    ('d throttle \<times> consumer \<times> consumer_call list) result" where
  "Throttle_wakeup env th self =
     ensure (0 < getLinkBandwidth th) AssertFailed (
     rbind (rfold (\<lambda>st vnet. operateVnet env vnet st)
              (th\<lparr>m_wakeups_wo_switch := m_wakeups_wo_switch th + 1\<rparr>, getLinkBandwidth th, False, [])
              (rev [0..<m_vnets th])) (\<lambda>(th', bw, sched, calls).
       if 0 < bw \<and> \<not> sched then Inr (th', self, calls)
       else rbind (scheduleEvent (te_now env) self 1) (\<lambda>self'. Inr (th', self', calls))))"

section \<open>What the steps leave alone\<close>

text \<open>The arbitration state of a throttle, and its queues without the statistics of the buffers.\<close>

definition token_state :: "'d throttle \<Rightarrow> bool \<times> bool \<times> int" where
  "token_state th = (vToken th, smBlock th, m_sID th)"

definition out_heaps :: "'d throttle \<Rightarrow> 'd network_message mb_node list option list" where
  "out_heaps th = map (map_option m_prio_heap) (m_out th)"

lemma areNSlots_heap:
  "areNSlotsAvailable now b n = Inr (a, b') \<Longrightarrow> m_prio_heap b' = m_prio_heap b"
  by (auto simp: areNSlotsAvailable_def Let_def split: if_splits)

lemma out_buf_Inr: "out_buf th vnet = Inr b \<longleftrightarrow> vnet < length (m_out th) \<and> m_out th ! vnet = Some b"
  by (auto simp: out_buf_def at_pos_def deref_def split: option.splits)

lemma in_buf_Inr: "in_buf th vnet = Inr b \<longleftrightarrow> vnet < length (m_in th) \<and> m_in th ! vnet = Some b"
  by (auto simp: in_buf_def at_pos_def deref_def split: option.splits)

lemma link_guard_frame:
  assumes "link_guard env vnet (th, bw, sched, calls) = Inr (want, avail, st')"
  shows "\<exists>outs. st' = (th\<lparr>m_out := outs\<rparr>, bw, sched, calls) \<and>
    map (map_option m_prio_heap) outs = out_heaps th"
proof -
  have same: "\<exists>outs. th = th\<lparr>m_out := outs\<rparr> \<and> map (map_option m_prio_heap) outs = out_heaps th"
    by (rule exI [of _ "m_out th"]) (simp add: out_heaps_def)
  have upd: "map (map_option m_prio_heap) ((m_out th)[vnet := Some b']) = out_heaps th"
    if "out_buf th vnet = Inr b" "areNSlotsAvailable now b n = Inr (a, b')" for b b' now n a
    using that areNSlots_heap [OF that(2)]
    by (simp add: out_buf_Inr out_heaps_def map_update list_update_same_conv)
  show ?thesis
    using assms same by (auto simp: link_guard_def upd split: if_splits)
qed

text \<open>What a step on the virtual network \<open>vnet\<close> leaves alone: the arbitration state, the sizes of the
  vectors and the other inputs; the units that wait for bandwidth stay non-negative, the bandwidth
  only shrinks and a request for another wakeup stays.\<close>

definition units_ok :: "'d throttle \<Rightarrow> bool" where
  "units_ok th \<longleftrightarrow> (\<forall>u \<in> set (m_units_remaining th). 0 \<le> u)"

definition shape :: "'d throttle \<Rightarrow> nat \<times> nat \<times> nat \<times> nat \<times> int \<times> int" where
  "shape th = (length (m_in th), length (m_out th), length (m_units_remaining th), m_vnets th,
     m_link_bandwidth_multiplier th, m_endpoint_bandwidth th)"

definition link_frame :: "nat \<Rightarrow> 'd throttle \<Rightarrow> 'd throttle \<Rightarrow> bool" where
  "link_frame vnet th th' \<longleftrightarrow> token_state th' = token_state th \<and> shape th' = shape th \<and>
     (\<forall>v. v \<noteq> vnet \<longrightarrow> m_in th' ! v = m_in th ! v) \<and> (\<forall>v < length (m_out th). m_out th ! v \<noteq> None \<longrightarrow> m_out th' ! v \<noteq> None) \<and>
     (units_ok th \<longrightarrow> units_ok th')"

definition wake_frame :: "nat \<Rightarrow> 'd wake_state \<Rightarrow> 'd wake_state \<Rightarrow> bool" where
  "wake_frame vnet st st' \<longleftrightarrow> (case st of (th, bw, sched, calls) \<Rightarrow> case st' of (th', bw', sched', calls') \<Rightarrow>
     link_frame vnet th th' \<and> (sched \<longrightarrow> sched') \<and>
     (0 \<le> bw \<and> units_ok th \<and> vnet < length (m_units_remaining th) \<longrightarrow> 0 \<le> bw' \<and> bw' \<le> bw))"

lemma link_frame_refl [simp]: "link_frame vnet th th"
  by (simp add: link_frame_def)

lemma link_frame_trans: "link_frame v a b \<Longrightarrow> link_frame v b c \<Longrightarrow> link_frame v a c"
  by (simp add: link_frame_def shape_def)

lemma wake_frame_refl [simp]: "wake_frame vnet st st"
  by (cases st) (simp add: wake_frame_def)

lemma wake_frame_trans:
  assumes "wake_frame v a b" and "wake_frame v b c"
  shows "wake_frame v a c"
proof -
  obtain th bw s k th' bw' s' k' th'' bw'' s'' k'' where
    abc: "a = (th, bw, s, k)" "b = (th', bw', s', k')" "c = (th'', bw'', s'', k'')"
    by (cases a, cases b, cases c)
  have l: "link_frame v th th'" "link_frame v th' th''" using assms by (simp_all add: abc wake_frame_def)
  then have "length (m_units_remaining th') = length (m_units_remaining th)" "units_ok th \<longrightarrow> units_ok th'"
    by (simp_all add: link_frame_def shape_def)
  then show ?thesis
    using assms link_frame_trans [OF l] by (auto simp: abc wake_frame_def)
qed

lemma wake_frame_sched [simp]: "wake_frame vnet (th, bw, sched, calls) (th, bw, True, calls)"
  by (simp add: wake_frame_def)

lemma wake_frame_token: "wake_frame vnet st st' \<Longrightarrow> token_state (fst st') = token_state (fst st)"
  by (cases st, cases st') (simp add: wake_frame_def link_frame_def)

lemma units_ok_update: "units_ok th \<Longrightarrow> 0 \<le> u \<Longrightarrow> units_ok (th\<lparr>m_units_remaining := (m_units_remaining th)[v := u]\<rparr>)"
  using set_update_subset_insert [of "m_units_remaining th" v u] by (auto simp: units_ok_def)

lemma network_message_to_size_nonneg: "network_message_to_size net m = Inr sz \<Longrightarrow> 0 \<le> sz"
  by (auto simp: network_message_to_size_def Let_def MESSAGE_SIZE_MULTIPLIER_def BROADCAST_SCALING_def)

lemma nth_list_update_Some: "xs ! v \<noteq> None \<Longrightarrow> xs[w := Some x] ! v \<noteq> None"
  by (cases "w < length xs"; cases "v = w") (auto simp: list_update_beyond)

lemma sent_frame:
  assumes "0 \<le> sz"
  shows "link_frame vnet th (th\<lparr>m_units_remaining := (m_units_remaining th)[vnet := m_units_remaining th ! vnet + sz],
     m_in := (m_in th)[vnet := Some inb], m_out := (m_out th)[vnet := Some outb], m_msg_counts := cnt\<rparr>)"
    (is "link_frame vnet th ?th'")
proof -
  have "units_ok ?th'" if ok: "units_ok th"
  proof (cases "vnet < length (m_units_remaining th)")
    case True
    then have "0 \<le> m_units_remaining th ! vnet + sz" using ok assms by (simp add: units_ok_def)
    then show ?thesis using units_ok_update [OF ok] by (simp add: units_ok_def)
  next
    case False
    then show ?thesis using ok by (simp add: units_ok_def list_update_beyond)
  qed
  then show ?thesis
    by (simp add: link_frame_def token_state_def shape_def nth_list_update_Some)
qed

lemma serviceRequest_frame: "serviceRequest env th vnet pos = Inr (th', calls) \<Longrightarrow> link_frame vnet th th'"
  by (auto simp: serviceRequest_def intro!: sent_frame dest: network_message_to_size_nonneg)

lemma service_step_frame:
  "service_step env vnet pos st = Inr st' \<Longrightarrow> wake_frame vnet st st'"
  by (cases st) (auto simp: service_step_def wake_frame_def dest: serviceRequest_frame)

lemma service_if_idle_frame:
  "service_if_idle env vnet pos st = Inr st' \<Longrightarrow> wake_frame vnet st st'"
  by (cases st) (auto simp: service_if_idle_def dest: service_step_frame split: if_splits)

lemma use_bandwidth_frame: "wake_frame vnet st (use_bandwidth vnet st)"
proof -
  obtain th bw sched calls where st: "st = (th, bw, sched, calls)" by (cases st)
  have "0 \<le> m_units_remaining th ! vnet" if "units_ok th" "vnet < length (m_units_remaining th)"
    using that by (simp add: units_ok_def)
  then show ?thesis
    by (auto simp: st use_bandwidth_def Let_def wake_frame_def link_frame_def token_state_def shape_def
        intro: units_ok_update)
qed

lemma wake_if_ready_state:
  "wake_if_ready env vnet (th, bw, sched, calls) = Inr st' \<Longrightarrow> \<exists>r. in_ready env th vnet = Inr r \<and> st' = (th, bw, sched \<or> r, calls)"
  by (auto simp: wake_if_ready_def)

lemma wake_if_ready_frame: "wake_if_ready env vnet st = Inr st' \<Longrightarrow> wake_frame vnet st st'"
  by (cases st) (auto simp: wake_frame_def dest!: wake_if_ready_state)

lemma service_use_frame: "service_if_idle env vnet pos st = Inr st1 \<Longrightarrow> wake_frame vnet st (use_bandwidth vnet st1)"
  by (rule wake_frame_trans [OF service_if_idle_frame use_bandwidth_frame])

lemma use_wake_frame: "wake_frame vnet st st1 \<Longrightarrow> wake_if_ready env vnet st1 = Inr st2 \<Longrightarrow> wake_frame vnet st st2"
  by (rule wake_frame_trans [OF _ wake_if_ready_frame])

lemma request_in_slot_frame: "request_in_slot env vnet st = Inr st' \<Longrightarrow> wake_frame vnet st st'"
  by (auto simp: request_in_slot_def WB_RANDOM_def split: if_splits
      intro: use_wake_frame [OF service_use_frame] wake_if_ready_frame)

lemma request_special_frame: "request_special env vnet st = Inr st' \<Longrightarrow> wake_frame vnet st st'"
  by (cases st) (auto simp: request_special_def WRITE_HITS_def split: if_splits
      intro: use_wake_frame [OF service_use_frame] wake_if_ready_frame)

lemma request_case_frame: "request_case env vnet st = Inr st' \<Longrightarrow> wake_frame vnet st st'"
  by (auto simp: request_case_def Let_def split: if_splits
      intro: wake_frame_trans [OF request_in_slot_frame request_special_frame] request_special_frame)

lemma shared_memory_case_frame:
  assumes "shared_memory_case env vnet st = Inr st'"
  shows "wake_frame vnet st st'"
proof -
  obtain th bw sched calls where st: "st = (th, bw, sched, calls)" by (cases st)
  have one: "wake_frame vnet st st2" if "service_step env vnet pos st = Inr st1"
    "wake_if_ready env vnet (use_bandwidth vnet st1) = Inr st2" for pos st1 st2
    by (rule use_wake_frame [OF wake_frame_trans [OF service_step_frame [OF that(1)] use_bandwidth_frame] that(2)])
  show ?thesis
    using assms by (auto simp: st shared_memory_case_def Let_def split: option.splits if_splits
      intro: one [unfolded st] use_wake_frame [OF use_bandwidth_frame])
qed

lemma plain_case_frame: "plain_case env vnet st = Inr st' \<Longrightarrow> wake_frame vnet st st'"
  by (auto simp: plain_case_def intro: use_wake_frame [OF service_use_frame])

lemma default_case_frame: "default_case env vnet st = Inr st' \<Longrightarrow> wake_frame vnet st st'"
  by (auto simp: default_case_def intro: service_use_frame)

lemma link_body_frame: "link_body env vnet st = Inr st' \<Longrightarrow> wake_frame vnet st st'"
  by (cases st) (auto simp: link_body_def Let_def split: option.splits if_splits
      intro: default_case_frame request_case_frame shared_memory_case_frame plain_case_frame)

text \<open>Outside its own slot, or in a slot for the other kind, a core's request stays where it is, unless
  it is a side packet.\<close>

lemma peekMsgPtr_front: "peekMsgPtr now b = Inr msg \<Longrightarrow> \<exists>n ns. m_prio_heap b = n # ns \<and> msg = m_msgptr n"
  by (auto simp: peekMsgPtr_def front_def split: list.splits)

lemma request_in_slot_other:
  assumes "request_in_slot env vnet (th, bw, sched, calls) = Inr st'" and "vToken th = (vnet \<noteq> 6)"
  shows "\<exists>sched'. st' = (th, bw, sched', calls)"
  using assms by (auto simp: request_in_slot_def dest!: wake_if_ready_state split: if_splits)

lemma request_special_plain:
  assumes "request_special env vnet (th, bw, sched, calls) = Inr st'"
    and "\<forall>b n. in_buf th 2 = Inr b \<and> n \<in> set (m_prio_heap b) \<longrightarrow>
           \<not> sidePacket (nm_destination (payload (m_msgptr n)))"
  shows "\<exists>sched'. st' = (th, bw, sched', calls)"
proof (cases "vnet = 2")
  case True
  have side: "\<not> sidePacket (nm_destination (payload msg))"
    if "in_buf th 2 = Inr b" "peekMsgPtr (te_now env) b = Inr msg" for b msg
    using assms(2) that(1) peekMsgPtr_front [OF that(2)] by auto
  then show ?thesis
    using assms(1) True
    by (auto simp: request_special_def WRITE_HITS_def side dest!: wake_if_ready_state split: if_splits)
next
  case False
  then show ?thesis using assms(1) by (auto simp: request_special_def)
qed

lemma request_case_outside:
  assumes "request_case env vnet (th, bw, sched, calls) = Inr st'"
    and "\<not> (getSlotOwner (curCycle (te_now env) (te_sys env)) = m_sID th \<and>
           isStartOfSlot (curCycle (te_now env) (te_sys env)) \<and> vToken th = (vnet = 6))"
    and "\<forall>b n. in_buf th 2 = Inr b \<and> n \<in> set (m_prio_heap b) \<longrightarrow>
           \<not> sidePacket (nm_destination (payload (m_msgptr n)))"
  shows "\<exists>sched'. st' = (th, bw, sched', calls)"
proof -
  let ?t = "curCycle (te_now env) (te_sys env)"
  obtain st1 where st1: "(if getSlotOwner ?t = m_sID th \<and> isStartOfSlot ?t
      then request_in_slot env vnet (th, bw, sched, calls) else Inr (th, bw, sched, calls)) = Inr st1"
    "request_special env vnet st1 = Inr st'"
    using assms(1) by (auto simp: request_case_def Let_def)
  have "\<exists>sched1. st1 = (th, bw, sched1, calls)"
  proof (cases "getSlotOwner ?t = m_sID th \<and> isStartOfSlot ?t")
    case True
    then show ?thesis using st1(1) assms(2) request_in_slot_other [of env vnet th bw sched calls st1] by auto
  next
    case False
    then show ?thesis using st1(1) by auto
  qed
  then show ?thesis using request_special_plain st1(2) assms(3) by metis
qed

section \<open>One virtual network\<close>

lemma wb_slot_start_Inr:
  assumes "wb_slot_start env th w d = Inr th1" and "vToken th"
  shows "\<exists>v. th1 = th\<lparr>vToken := v, smBlock := v\<rparr>"
proof -
  have "th1 = th\<lparr>vToken := False, smBlock := False\<rparr> \<or> th1 = th\<lparr>smBlock := True\<rparr>"
    using assms by (auto simp: wb_slot_start_def changeVnetToken_def split: if_splits)
  moreover have "th\<lparr>smBlock := True\<rparr> = th\<lparr>vToken := True, smBlock := True\<rparr>" using assms(2) by simp
  ultimately show ?thesis by metis
qed

lemma demand_slot_start_Inr:
  assumes "demand_slot_start env th w d = Inr th1" and "\<not> vToken th"
  shows "\<exists>v. th1 = th\<lparr>vToken := v, smBlock := v\<rparr>"
proof -
  have "th1 = th\<lparr>vToken := True, smBlock := True\<rparr> \<or> th1 = th\<lparr>smBlock := False\<rparr>"
    using assms by (auto simp: demand_slot_start_def changeVnetToken_def split: if_splits)
  moreover have "th\<lparr>smBlock := False\<rparr> = th\<lparr>vToken := False, smBlock := False\<rparr>" using assms(2) by simp
  ultimately show ?thesis by metis
qed

lemma arbitrate_slot_Inr:
  assumes "arbitrate_slot env th vnet w d = Inr th1"
  shows "th1 = th \<or> m_sID th < 4 \<and> (\<exists>v. th1 = th\<lparr>vToken := v, smBlock := v\<rparr>)"
proof -
  define v where "v = setSlotType (te_rand env) (curCycle (te_now env) (te_sys env)) (vToken th)"
  have "th1 = th \<or> m_sID th < 4 \<and> (v \<and> wb_slot_start env (th\<lparr>vToken := v\<rparr>) w d = Inr th1 \<or>
      \<not> v \<and> demand_slot_start env (th\<lparr>vToken := v\<rparr>) w d = Inr th1)"
    using assms by (simp add: arbitrate_slot_def Let_def BASELINE_def v_def [symmetric] split: if_splits)
  then show ?thesis
    using wb_slot_start_Inr [of env "th\<lparr>vToken := v\<rparr>" w d th1]
      demand_slot_start_Inr [of env "th\<lparr>vToken := v\<rparr>" w d th1] by auto
qed

lemma arbitrate_slot_frame:
  assumes "arbitrate_slot env th vnet w d = Inr th1"
  shows "\<exists>v b. th1 = th\<lparr>vToken := v, smBlock := b\<rparr>"
proof -
  have "th = th\<lparr>vToken := vToken th, smBlock := smBlock th\<rparr>" by simp
  then show ?thesis using arbitrate_slot_Inr [OF assms] by blast
qed

lemma areNSlots_refused:
  assumes "areNSlotsAvailable now b n = Inr (False, b')"
  shows "\<exists>b''. areNSlotsAvailable now b' n = Inr (False, b'')"
proof -
  define used where "used b s = (if m_time_last_time_pop b < clockEdge now s 0 then heap_size b
    else if m_time_last_time_enqueue b < curCycle now s then m_size_at_cycle_start b
    else m_size_at_cycle_start b + m_msgs_this_cycle b)" for b :: "'a message_buffer" and s
  have unf: "areNSlotsAvailable now b n = (if m_max_size b = 0 then Inr (True, b)
      else rbind (deref (m_sender b)) (\<lambda>s. if used b s + n \<le> m_max_size b then Inr (True, b)
        else Inr (False, b\<lparr>m_not_avail_count := m_not_avail_count b + 1\<rparr>)))" for b
    by (simp only: areNSlotsAvailable_def Let_def used_def)
  have frame: "used (b\<lparr>m_not_avail_count := c\<rparr>) s = used b s" for c s
    by (simp add: used_def heap_size_def)
  show ?thesis
  proof (cases "deref (m_sender b)")
    case (Inl e)
    then show ?thesis using assms by (simp add: unf split: if_splits)
  next
    case (Inr s)
    then have "m_max_size b \<noteq> 0" "\<not> used b s + n \<le> m_max_size b"
      "b' = b\<lparr>m_not_avail_count := m_not_avail_count b + 1\<rparr>"
      using assms by (auto simp only: unf rbind_Inr sum.inject prod.inject sum.distinct simp_thms split: if_splits)
    then show ?thesis using Inr by (simp only: unf) (simp add: frame)
  qed
qed

lemma link_guard_refused:
  assumes "link_guard env vnet (th, bw, sched, calls) = Inr (want, avail, st1)"
    and "in_ready env th vnet = Inr True" and "0 < bw"
  shows "want \<and> (avail \<or> (\<exists>st2. link_guard env vnet st1 = Inr (True, False, st2)))"
proof -
  obtain outb outb' where o: "out_buf th vnet = Inr outb" "areNSlotsAvailable (te_now env) outb 1 = Inr (avail, outb')"
    "want" "st1 = (th\<lparr>m_out := (m_out th)[vnet := Some outb']\<rparr>, bw, sched, calls)"
    using assms by (auto simp: link_guard_def)
  let ?th = "th\<lparr>m_out := (m_out th)[vnet := Some outb']\<rparr>"
  have "out_buf ?th vnet = Inr outb'" using o(1) by (simp add: out_buf_Inr)
  moreover have "in_ready env ?th vnet = Inr True" using assms(2) by (simp add: in_ready_def in_buf_def)
  ultimately show ?thesis
    using o areNSlots_refused [of "te_now env" outb 1 outb'] assms(3)
    by (cases avail) (auto simp: link_guard_def)
qed

lemma link_finish_frame:
  assumes "link_finish env vnet (th, bw, sched, calls) = Inr st'"
  shows "\<exists>want avail outs. st' = (th\<lparr>m_out := outs\<rparr>, bw, sched \<or> want \<and> \<not> avail, calls) \<and>
    map (map_option m_prio_heap) outs = out_heaps th \<and>
    (\<forall>st2. link_guard env vnet (th, bw, sched, calls) = Inr (True, False, st2) \<longrightarrow> want \<and> \<not> avail)"
proof -
  obtain want avail st1 where g: "link_guard env vnet (th, bw, sched, calls) = Inr (want, avail, st1)"
    using assms by (auto simp: link_finish_def)
  obtain outs where o: "st1 = (th\<lparr>m_out := outs\<rparr>, bw, sched, calls)" "map (map_option m_prio_heap) outs = out_heaps th"
    using link_guard_frame [OF g] by blast
  show ?thesis
    using assms g o by (intro exI [of _ want] exI [of _ avail] exI [of _ outs]) (auto simp: link_finish_def)
qed

text \<open>An operation that returns is the arbitration, at most one pass through the body and bookkeeping
  in the output buffer.\<close>

lemma operateVnet_cases:
  assumes "operateVnet env vnet (th, bw, sched, calls) = Inr (th', bw', sched', calls')"
  obtains (idle) th1 outs w d where "arbitrate_slot env th vnet w d = Inr th1" "th' = th1\<lparr>m_out := outs\<rparr>"
      "map (map_option m_prio_heap) outs = out_heaps th" "bw' = bw" "calls' = calls" "sched \<longrightarrow> sched'"
      "m_out th ! vnet \<noteq> None \<Longrightarrow> in_ready env th vnet = Inr True \<Longrightarrow> 0 < bw \<Longrightarrow> sched'"
  | (body) th1 outs outs' th2 sched2 w d where "arbitrate_slot env th vnet w d = Inr th1"
      "map (map_option m_prio_heap) outs = out_heaps th"
      "link_body env vnet (th1\<lparr>m_out := outs\<rparr>, bw, sched, calls) = Inr (th2, bw', sched2, calls')"
      "th' = th2\<lparr>m_out := outs'\<rparr>" "map (map_option m_prio_heap) outs' = out_heaps th2" "sched2 \<longrightarrow> sched'"
      "0 < bw" "0 \<le> m_units_remaining th1 ! vnet"
proof -
  obtain w d th1 where a: "arbitrate_slot env th vnet w d = Inr th1"
    and rest: "(if m_out th1 ! vnet = None \<or> m_in th1 ! vnet = None then Inr (th1, bw, sched, calls)
     else ensure (0 \<le> m_units_remaining th1 ! vnet) AssertFailed (link_step env vnet (th1, bw, sched, calls)))
       = Inr (th', bw', sched', calls')"
    using assms by (auto simp: operateVnet_def)
  obtain v b where th1: "th1 = th\<lparr>vToken := v, smBlock := b\<rparr>" using arbitrate_slot_frame [OF a] by blast
  have heaps1: "out_heaps th1 = out_heaps th" by (simp add: th1 out_heaps_def)
  show ?thesis
  proof (cases "m_out th1 ! vnet = None \<or> m_in th1 ! vnet = None")
    case True
    then have "th' = th1" "bw' = bw" "sched' = sched" "calls' = calls" using rest by auto
    moreover have "in_ready env th vnet \<noteq> Inr True" if "m_out th ! vnet \<noteq> None"
      using True that by (auto simp: th1 in_ready_def in_buf_def at_pos_def deref_def ensure_def)
    ultimately show ?thesis
      using heaps1 by (intro idle [OF a, of "m_out th1"]) (simp_all add: out_heaps_def)
  next
    case False
    then have units: "0 \<le> m_units_remaining th1 ! vnet"
      and ls: "link_step env vnet (th1, bw, sched, calls) = Inr (th', bw', sched', calls')" using rest by auto
    obtain want avail st1 where g: "link_guard env vnet (th1, bw, sched, calls) = Inr (want, avail, st1)"
      using ls by (cases "link_guard env vnet (th1, bw, sched, calls)") (auto simp: link_step_def)
    obtain outs where st1: "st1 = (th1\<lparr>m_out := outs\<rparr>, bw, sched, calls)"
      "map (map_option m_prio_heap) outs = out_heaps th"
      using link_guard_frame [OF g] heaps1 by auto
    obtain st2 where bd: "(if want \<and> avail then link_body env vnet st1 else Inr st1) = Inr st2"
      and fin: "link_finish env vnet st2 = Inr (th', bw', sched', calls')"
      using ls g by (auto simp: link_step_def)
    obtain th2 bw2 sched2 calls2 where st2: "st2 = (th2, bw2, sched2, calls2)" by (cases st2)
    obtain want' avail' outs' where f: "(th', bw', sched', calls') = (th2\<lparr>m_out := outs'\<rparr>, bw2, sched2 \<or> want' \<and> \<not> avail', calls2)"
      "map (map_option m_prio_heap) outs' = out_heaps th2"
      "\<forall>st. link_guard env vnet (th2, bw2, sched2, calls2) = Inr (True, False, st) \<longrightarrow> want' \<and> \<not> avail'"
      using link_finish_frame [OF fin [unfolded st2]] by blast
    show ?thesis
    proof (cases "want \<and> avail")
      case True
      have "0 < bw" using g True by (auto simp: link_guard_def split: if_splits)
      moreover have "link_body env vnet (th1\<lparr>m_out := outs\<rparr>, bw, sched, calls) = Inr (th2, bw2, sched2, calls2)"
        using True bd st1(1) st2 by simp
      ultimately show ?thesis
        using f(1,2) units by (intro body [OF a st1(2), of th2 sched2 outs']) simp_all
    next
      case False
      then have same: "st2 = st1" using bd by auto
      have "sched'" if r: "in_ready env th vnet = Inr True" "0 < bw"
      proof -
        have "in_ready env th1 vnet = Inr True" using r(1) by (simp add: th1 in_ready_def in_buf_def)
        from link_guard_refused [OF g this r(2)] False obtain st4 where
          "link_guard env vnet st1 = Inr (True, False, st4)" by blast
        then have "link_guard env vnet (th2, bw2, sched2, calls2) = Inr (True, False, st4)" using same st2 by simp
        with f(3) have "want' \<and> \<not> avail'" by blast
        then show ?thesis using f(1) by simp
      qed
      moreover have "th2 = th1\<lparr>m_out := outs\<rparr>" "bw2 = bw" "sched2 = sched" "calls2 = calls" using st1(1) st2 same by auto
      moreover have "out_heaps th2 = out_heaps th" using calculation(2) st1(2) by (simp add: out_heaps_def)
      ultimately show ?thesis
        using f(1,2) by (intro idle [OF a, of outs']) simp_all
    qed
  qed
qed

lemma in_buf_frame [simp]:
  "in_buf (th\<lparr>m_out := outs\<rparr>) v = in_buf th v" "in_buf (th\<lparr>vToken := a\<rparr>) v = in_buf th v"
  "in_buf (th\<lparr>smBlock := c\<rparr>) v = in_buf th v"
  by (simp_all add: in_buf_def)

lemma request_body:
  assumes "te_out_switch env vnet = Some 5" and "m_sID th < 4" and "vnet = 2 \<or> vnet = 6"
  shows "link_body env vnet (th, bw, sched, calls) = request_case env vnet (th, bw, sched, calls)"
  using assms by (auto simp: link_body_def BASELINE_def Let_def)

lemma shared_memory_body:
  assumes "te_out_switch env vnet = Some 5" and "m_sID th = 4"
  shows "link_body env vnet (th, bw, sched, calls) = shared_memory_case env vnet (th, bw, sched, calls)"
  using assms by (auto simp: link_body_def Let_def)

lemma arbitrate_other_link: "\<not> m_sID th < 4 \<Longrightarrow> arbitrate_slot env th vnet w d = Inr th1 \<Longrightarrow> th1 = th"
  using arbitrate_slot_Inr by blast

text \<open>The scan finds a ready message for the slot owner, and only while data may be sent.\<close>

lemma owner_scan_Some:
  assumes "owner_scan env unblocked b ow is = Inr (Some i)"
  shows "unblocked \<and> i \<in> set is \<and> i < length (m_prio_heap b) \<and> MessageBuffer_isReady_at (te_now env) b i = Inr True \<and>
    NetDest_isElement (te_ct env) (nm_destination (payload (m_msgptr (m_prio_heap b ! i))))
      \<lparr>mach_type = te_l1 env, mach_num = nat ow\<rparr> = Inr True"
  using assms
proof (induction "is")
  case Nil
  then show ?case by simp
next
  case (Cons j js)
  then show ?case
    by (auto simp: peekMsgPtr_at_def at_pos_def split: if_splits)
qed

lemma shared_memory_case_none:
  assumes "shared_memory_case env vnet (th, bw, sched, calls) = Inr st'"
    and "in_buf th vnet = Inr b" and "owner_scan env (\<not> smBlock th) b
      (getSlotOwner (curCycle (te_now env) (te_sys env))) [0..<length (m_prio_heap b)] = Inr None"
  shows "st' = (th, bw, True, calls)"
  using assms by (simp add: shared_memory_case_def Let_def)

lemma shared_memory_case_sends:
  assumes "shared_memory_case env vnet (th, bw, sched, calls) = Inr st'" and "m_in (fst st') \<noteq> m_in th"
  shows "\<exists>b n. in_buf th vnet = Inr b \<and> n \<in> set (m_prio_heap b) \<and> \<not> smBlock th \<and>
    NetDest_isElement (te_ct env) (nm_destination (payload (m_msgptr n)))
      \<lparr>mach_type = te_l1 env, mach_num = nat (getSlotOwner (curCycle (te_now env) (te_sys env)))\<rparr> = Inr True"
proof -
  let ?ow = "getSlotOwner (curCycle (te_now env) (te_sys env))"
  obtain b found where b: "in_buf th vnet = Inr b"
    "owner_scan env (\<not> smBlock th) b ?ow [0..<length (m_prio_heap b)] = Inr found"
    using assms(1) by (auto simp: shared_memory_case_def Let_def)
  have "found \<noteq> None"
    using shared_memory_case_none [OF assms(1) b(1)] b(2) assms(2) by (cases found) auto
  then obtain pos where pos: "found = Some pos" by auto
  show ?thesis
    using owner_scan_Some [OF b(2) [unfolded pos]] b(1) by (auto intro: nth_mem)
qed

section \<open>The invariant of a throttle\<close>

text \<open>The block of the shared memory follows the token; the links of the switches from number 4 on
  never have either.\<close>

definition throttle_wf :: "'d throttle \<Rightarrow> bool" where
  "throttle_wf th \<longleftrightarrow> length (m_in th) = m_vnets th \<and> length (m_out th) = m_vnets th \<and>
     length (m_units_remaining th) = m_vnets th \<and> units_ok th \<and> smBlock th = vToken th \<and>
     (4 \<le> m_sID th \<longrightarrow> \<not> vToken th)"

lemma throttle_wf_out: "length outs = length (m_out th) \<Longrightarrow> throttle_wf (th\<lparr>m_out := outs\<rparr>) = throttle_wf th"
  by (simp add: throttle_wf_def units_ok_def)

lemma link_frame_wf:
  assumes "link_frame v th th'" and "throttle_wf th"
  shows "throttle_wf th'"
proof -
  have "length (m_in th') = length (m_in th)" "length (m_out th') = length (m_out th)"
    "length (m_units_remaining th') = length (m_units_remaining th)" "m_vnets th' = m_vnets th"
    "smBlock th' = smBlock th" "vToken th' = vToken th" "m_sID th' = m_sID th" "units_ok th \<longrightarrow> units_ok th'"
    using assms(1) by (simp_all add: link_frame_def shape_def token_state_def)
  then show ?thesis using assms(2) by (simp add: throttle_wf_def)
qed

lemma arbitrate_slot_wf: "arbitrate_slot env th vnet w d = Inr th1 \<Longrightarrow> throttle_wf th \<Longrightarrow> throttle_wf th1"
  by (drule arbitrate_slot_Inr) (auto simp: throttle_wf_def units_ok_def)

lemma out_heaps_some:
  assumes "map (map_option m_prio_heap) outs = out_heaps th"
  shows "length outs = length (m_out th) \<and> (\<forall>v < length (m_out th). m_out th ! v \<noteq> None \<longrightarrow> outs ! v \<noteq> None)"
proof -
  have len: "length outs = length (m_out th)" using assms by (metis length_map out_heaps_def)
  have "map_option m_prio_heap (outs ! v) = map_option m_prio_heap (m_out th ! v)" if "v < length (m_out th)" for v
    using arg_cong [OF assms, of "\<lambda>l. l ! v"] that len by (simp add: out_heaps_def)
  then show ?thesis using len by (metis map_option_is_None)
qed

text \<open>One virtual network: the shape, the other inputs, the bandwidth and a request for another wakeup
  as in a single step, and the invariant.\<close>

definition vnet_frame :: "nat \<Rightarrow> 'd wake_state \<Rightarrow> 'd wake_state \<Rightarrow> bool" where
  "vnet_frame vnet st st' \<longleftrightarrow> (case st of (th, bw, sched, calls) \<Rightarrow> case st' of (th', bw', sched', calls') \<Rightarrow>
     shape th' = shape th \<and> m_sID th' = m_sID th \<and> (\<forall>v. v \<noteq> vnet \<longrightarrow> m_in th' ! v = m_in th ! v) \<and>
     (\<forall>v < length (m_out th). m_out th ! v \<noteq> None \<longrightarrow> m_out th' ! v \<noteq> None) \<and> (sched \<longrightarrow> sched') \<and>
     (throttle_wf th \<longrightarrow> throttle_wf th' \<and> (0 \<le> bw \<and> vnet < m_vnets th \<longrightarrow> 0 \<le> bw' \<and> bw' \<le> bw)))"

lemma operateVnet_frame:
  assumes "operateVnet env vnet (th, bw, sched, calls) = Inr (th', bw', sched', calls')"
  shows "vnet_frame vnet (th, bw, sched, calls) (th', bw', sched', calls')"
  using assms
proof (cases rule: operateVnet_cases)
  case (idle th1 outs w d)
  obtain v k where th1: "th1 = th\<lparr>vToken := v, smBlock := k\<rparr>" using arbitrate_slot_frame [OF idle(1)] by blast
  have "throttle_wf th'" if "throttle_wf th"
    using arbitrate_slot_wf [OF idle(1) that] out_heaps_some [OF idle(3)] by (simp add: idle(2) throttle_wf_out th1)
  then show ?thesis
    using idle(6) out_heaps_some [OF idle(3)] by (simp add: vnet_frame_def idle(2,4,5) th1 shape_def)
next
  case (body th1 outs outs' th2 sched2 w d)
  obtain v k where th1: "th1 = th\<lparr>vToken := v, smBlock := k\<rparr>" using arbitrate_slot_frame [OF body(1)] by blast
  let ?a = "th1\<lparr>m_out := outs\<rparr>"
  have wf: "wake_frame vnet (?a, bw, sched, calls) (th2, bw', sched2, calls')" by (rule link_body_frame [OF body(3)])
  have some: "length outs = length (m_out th)" "\<forall>v < length (m_out th). m_out th ! v \<noteq> None \<longrightarrow> outs ! v \<noteq> None"
    "length outs' = length (m_out th2)" "\<forall>v < length (m_out th2). m_out th2 ! v \<noteq> None \<longrightarrow> outs' ! v \<noteq> None"
    using out_heaps_some [OF body(2)] out_heaps_some [OF body(5)] by auto
  have fr: "shape th2 = shape ?a" "token_state th2 = token_state ?a" "\<forall>v. v \<noteq> vnet \<longrightarrow> m_in th2 ! v = m_in th ! v"
    "\<forall>v < length outs. outs ! v \<noteq> None \<longrightarrow> m_out th2 ! v \<noteq> None" "units_ok th \<longrightarrow> units_ok th2" "sched \<longrightarrow> sched2"
    "0 \<le> bw \<and> units_ok th \<and> vnet < length (m_units_remaining th) \<longrightarrow> 0 \<le> bw' \<and> bw' \<le> bw"
    using wf by (simp_all add: wake_frame_def link_frame_def th1 units_ok_def)
  have len: "length (m_out th2) = length (m_out th)" using fr(1) some(1) by (simp add: shape_def)
  have wfs: "throttle_wf th'" if "throttle_wf th"
  proof -
    have "throttle_wf ?a" using arbitrate_slot_wf [OF body(1) that] some(1) by (simp add: throttle_wf_out th1)
    moreover have "link_frame vnet ?a th2" using wf by (simp add: wake_frame_def)
    ultimately have "throttle_wf th2" by (rule link_frame_wf [rotated])
    then show ?thesis using some(3) by (simp add: body(4) throttle_wf_out)
  qed
  have "0 \<le> bw' \<and> bw' \<le> bw" if "throttle_wf th" "0 \<le> bw" "vnet < m_vnets th"
    using fr(7) that by (simp add: throttle_wf_def)
  moreover have "shape th' = shape th" "m_sID th' = m_sID th"
    using fr(1,2) some(1,3) by (simp_all add: body(4) shape_def token_state_def th1)
  moreover have "\<forall>v < length (m_out th). m_out th ! v \<noteq> None \<longrightarrow> m_out th' ! v \<noteq> None"
    using some fr(4) len by (simp add: body(4))
  ultimately show ?thesis
    using fr(3,6) body(6) wfs by (simp add: vnet_frame_def body(4))
qed

section \<open>Requests for another wakeup\<close>

text \<open>A link to a switch that leaves a ready message behind asks for another wakeup.\<close>

lemma wake_if_ready_retry:
  "wake_if_ready env vnet st = Inr (th', bw', sched', calls') \<Longrightarrow> in_ready env th' vnet = Inr True \<Longrightarrow> sched'"
  by (cases st) (auto dest!: wake_if_ready_state)

lemma request_case_retry:
  assumes "request_case env vnet st = Inr (th', bw', sched', calls')" and "in_ready env th' vnet = Inr True"
  shows "sched'"
proof -
  obtain st1 where sp: "request_special env vnet st1 = Inr (th', bw', sched', calls')"
    using assms(1) by (auto simp: request_case_def Let_def)
  obtain th bw sched calls where st1: "st1 = (th, bw, sched, calls)" by (cases st1)
  have "sched' \<or> (\<exists>st2. wake_if_ready env vnet st2 = Inr (th', bw', sched', calls'))"
    using sp unfolding st1 request_special_def prod.case rbind_eq_Inr
    by (elim exE conjE) (simp only: rbind_eq_Inr sum.inject prod.inject split: if_splits, blast+)
  then show ?thesis using wake_if_ready_retry assms(2) by blast
qed

lemma link_body_retry:
  assumes "link_body env vnet st = Inr (th', bw', sched', calls')" and "in_ready env th' vnet = Inr True"
    and "te_out_switch env vnet \<noteq> None"
  shows "sched'"
proof -
  obtain th bw sched calls where st: "st = (th, bw, sched, calls)" by (cases st)
  have sm: "sched'" if "shared_memory_case env vnet st = Inr (th', bw', sched', calls')"
    using that assms(2)
    by (auto simp: st shared_memory_case_def Let_def split: option.splits dest: wake_if_ready_retry)
  have pl: "sched'" if "plain_case env vnet st = Inr (th', bw', sched', calls')"
    using that assms(2) by (auto simp: plain_case_def dest: wake_if_ready_retry)
  show ?thesis
    using assms request_case_retry [OF _ assms(2), of st bw' sched' calls'] sm pl
    by (auto simp: st link_body_def Let_def split: if_splits)
qed

lemma in_ready_cong:
  "m_in th' ! v = m_in th ! v \<Longrightarrow> length (m_in th') = length (m_in th) \<Longrightarrow> in_ready env th' v = in_ready env th v"
  by (simp add: in_ready_def in_buf_def at_pos_def)

lemma operateVnet_retry:
  assumes "operateVnet env vnet (th, bw, sched, calls) = Inr (th', bw', sched', calls')"
    and "te_out_switch env vnet \<noteq> None" and "m_out th ! vnet \<noteq> None" and "in_ready env th' vnet = Inr True"
  shows "sched' \<or> bw' \<le> 0"
  using assms(1)
proof (cases rule: operateVnet_cases)
  case (idle th1 outs w d)
  have "in_ready env th' vnet = in_ready env th vnet"
    using arbitrate_slot_frame [OF idle(1)] idle(2) by (intro in_ready_cong) auto
  then have "0 < bw \<Longrightarrow> sched'" using idle(7) assms(3,4) by simp
  then show ?thesis using idle(4) by (cases "0 < bw") simp_all
next
  case (body th1 outs outs' th2 sched2 w d)
  have "in_ready env th2 vnet = Inr True" using assms(4) by (simp add: body(4) in_ready_def in_buf_def)
  then show ?thesis using link_body_retry [OF body(3) _ assms(2)] body(6) by simp
qed

abbreviation operate_vnets :: "throttle_env \<Rightarrow> 'd wake_state \<Rightarrow> nat list \<Rightarrow> 'd wake_state result" where
  "operate_vnets env \<equiv> rfold (\<lambda>st vnet. operateVnet env vnet st)"

lemma operate_vnets_frame:
  assumes "operate_vnets env (th, bw, sched, calls) vs = Inr (th', bw', sched', calls')"
    and "throttle_wf th" and "0 \<le> bw" and "\<forall>v \<in> set vs. v < m_vnets th"
  shows "throttle_wf th' \<and> shape th' = shape th \<and> m_sID th' = m_sID th \<and> (sched \<longrightarrow> sched') \<and> 0 \<le> bw' \<and> bw' \<le> bw \<and>
    (\<forall>v. v \<notin> set vs \<longrightarrow> m_in th' ! v = m_in th ! v) \<and>
    (\<forall>v < length (m_out th). m_out th ! v \<noteq> None \<longrightarrow> m_out th' ! v \<noteq> None)"
  using assms
proof (induction vs arbitrary: th bw sched calls)
  case Nil
  then show ?case by simp
next
  case (Cons v vs)
  obtain th1 bw1 sched1 calls1 where o: "operateVnet env v (th, bw, sched, calls) = Inr (th1, bw1, sched1, calls1)"
    "operate_vnets env (th1, bw1, sched1, calls1) vs = Inr (th', bw', sched', calls')"
    using Cons.prems(1) by auto
  have f: "shape th1 = shape th" "m_sID th1 = m_sID th" "\<forall>w. w \<noteq> v \<longrightarrow> m_in th1 ! w = m_in th ! w"
    "\<forall>w < length (m_out th). m_out th ! w \<noteq> None \<longrightarrow> m_out th1 ! w \<noteq> None" "sched \<longrightarrow> sched1"
    "throttle_wf th1" "0 \<le> bw1" "bw1 \<le> bw"
    using operateVnet_frame [OF o(1)] Cons.prems(2-4) by (simp_all add: vnet_frame_def)
  have "m_vnets th1 = m_vnets th" "length (m_out th1) = length (m_out th)" using f(1) by (simp_all add: shape_def)
  then show ?case using Cons.IH [OF o(2) f(6,7)] f Cons.prems(4) by (simp add: shape_def)
qed

lemma operate_vnets_retry:
  assumes "operate_vnets env (th, bw, sched, calls) vs = Inr (th', bw', sched', calls')"
    and "throttle_wf th" and "0 \<le> bw" and "\<forall>v \<in> set vs. v < m_vnets th" and "distinct vs"
    and "v \<in> set vs" and "te_out_switch env v \<noteq> None" and "m_out th ! v \<noteq> None" and "in_ready env th' v = Inr True"
  shows "sched' \<or> bw' \<le> 0"
  using assms(1-6,8)
proof (induction vs arbitrary: th bw sched calls)
  case Nil
  then show ?case by simp
next
  case (Cons u vs)
  obtain th1 bw1 sched1 calls1 where o: "operateVnet env u (th, bw, sched, calls) = Inr (th1, bw1, sched1, calls1)"
    "operate_vnets env (th1, bw1, sched1, calls1) vs = Inr (th', bw', sched', calls')"
    using Cons.prems(1) by auto
  have f: "shape th1 = shape th" "\<forall>w < length (m_out th). m_out th ! w \<noteq> None \<longrightarrow> m_out th1 ! w \<noteq> None"
    "throttle_wf th1" "0 \<le> bw1"
    using operateVnet_frame [OF o(1)] Cons.prems(2-4) by (simp_all add: vnet_frame_def)
  have vs: "\<forall>v \<in> set vs. v < m_vnets th1" using f(1) Cons.prems(4) by (simp add: shape_def)
  note fr = operate_vnets_frame [OF o(2) f(3,4) vs]
  show ?case
  proof (cases "v = u")
    case True
    have "in_ready env th1 v = Inr True"
      using fr Cons.prems(5) True assms(9) by (subst in_ready_cong [symmetric, of th']) (auto simp: shape_def)
    then have "sched1 \<or> bw1 \<le> 0" using operateVnet_retry [OF o(1)] assms(7) Cons.prems(7) True by simp
    then show ?thesis using fr by auto
  next
    case False
    have "m_out th1 ! v \<noteq> None" using f(2) Cons.prems(2,4,6,7) by (auto simp: throttle_wf_def)
    then show ?thesis using Cons.IH [OF o(2) f(3,4) vs] Cons.prems(5,6) False by simp
  qed
qed

lemma Throttle_wakeup_Inr:
  assumes "Throttle_wakeup env th self = Inr (th', self', calls)"
  obtains bw sched where "0 < getLinkBandwidth th"
    "operate_vnets env (th\<lparr>m_wakeups_wo_switch := m_wakeups_wo_switch th + 1\<rparr>, getLinkBandwidth th, False, [])
       (rev [0..<m_vnets th]) = Inr (th', bw, sched, calls)"
    "if 0 < bw \<and> \<not> sched then self' = self else scheduleEvent (te_now env) self 1 = Inr self'"
  using assms by (auto simp: Throttle_wakeup_def split: if_splits)

lemma throttle_wf_count [simp]: "throttle_wf (th\<lparr>m_wakeups_wo_switch := n\<rparr>) = throttle_wf th"
  by (simp add: throttle_wf_def units_ok_def)

lemma shape_count [simp]: "shape (th\<lparr>m_wakeups_wo_switch := n\<rparr>) = shape th"
  by (simp add: shape_def)

lemma Throttle_wakeup_frame:
  assumes "Throttle_wakeup env th self = Inr (th', self', calls)" and "throttle_wf th"
  shows "throttle_wf th' \<and> shape th' = shape th \<and> m_sID th' = m_sID th"
proof -
  obtain bw sched where w: "0 < getLinkBandwidth th"
    "operate_vnets env (th\<lparr>m_wakeups_wo_switch := m_wakeups_wo_switch th + 1\<rparr>, getLinkBandwidth th, False, [])
       (rev [0..<m_vnets th]) = Inr (th', bw, sched, calls)" by (rule Throttle_wakeup_Inr [OF assms(1)])
  show ?thesis using operate_vnets_frame [OF w(2)] w(1) assms(2) by simp
qed

section \<open>Correctness\<close>

text \<open>A core's link in the second slot of a period (cycle 50, tick 25000), with one demand request
  and one write-back ready, for the witnesses.\<close>

definition dest_core :: "nat \<Rightarrow> net_dest" where
  "dest_core k = (case NetDest_add [4, 2] net_dest42 \<lparr>mach_type = 0, mach_num = k\<rparr> of Inr d \<Rightarrow> d | Inl _ \<Rightarrow> net_dest42)"

definition control_msg :: "nat \<Rightarrow> nat network_message message" where
  "control_msg k = Message_new 0 \<lparr>nm_destination = dest_core k, nm_size = MessageSizeType_Control,
     m_internal_dest = net_dest42, m_internal_dest_valid = False, nm_incoming_link = 0, nm_vnet = 0, nm_data = k\<rparr>"

definition idle_queue :: "nat net_buffer" where
  "idle_queue = (MessageBuffer_new ''b'')\<lparr>m_sender := Some clock500, m_receiver := Some clock500,
     m_consumer := True, m_ordering_set := True\<rparr>"

definition two_requests :: "nat net_buffer" where
  "two_requests = idle_queue\<lparr>mb_msg_counter := 2, m_prio_heap := [
     \<lparr>m_time = 500, m_msg_counter = 1, m_msgptr = control_msg 1\<rparr>,
     \<lparr>m_time = 500, m_msg_counter = 2, m_msgptr = control_msg 2\<rparr>]\<rparr>"

definition core_link :: "nat throttle" where
  "core_link = \<lparr>m_in = [Some idle_queue, Some idle_queue, Some two_requests, Some idle_queue, Some idle_queue, Some idle_queue, Some two_requests],
     m_out = replicate 7 (Some idle_queue), m_vnets = 7, m_units_remaining = replicate 7 0, m_sID = 1, m_node = 1,
     m_link_bandwidth_multiplier = 16, m_link_latency = 1, m_wakeups_wo_switch = 0, m_endpoint_bandwidth = 1000,
     m_msg_counts = (\<lambda>_ _. 0), doCheck = False, vToken = False, smBlock = False\<rparr>"

definition link_env :: "tick \<Rightarrow> int option \<Rightarrow> throttle_env" where
  "link_env now sw = \<lparr>te_now = now, te_rs = ruby64, te_sys = clock500,
     te_net = \<lparr>m_control_msg_size = 8, m_data_msg_size = 72\<rparr>, te_ct = [4, 2], te_l1 = 0,
     te_out_switch = (\<lambda>_. sw), te_rnd = (0, 0, 0), te_rand = 0\<rparr>"
definition link_consumer :: consumer where
  "link_consumer = \<lparr>m_scheduled_wakeups = {}, consumer_em = clock500, consumer_events = []\<rparr>"

text \<open>The states a throttle of switch \<open>sID\<close> can reach: construction, links, wakeups, and whatever the
  components at the other ends do to its buffers.\<close>

inductive throttle_reach :: "int \<Rightarrow> 'd throttle \<Rightarrow> bool" for sID where
  construct: "Throttle_new raw sID node lat bw_mult bandwidth = Inr th \<Longrightarrow> throttle_reach sID th"
| links: "throttle_reach sID th \<Longrightarrow> Throttle_addLinks desc th ins outs = Inr th' \<Longrightarrow> throttle_reach sID th'"
| wakeup: "throttle_reach sID th \<Longrightarrow> Throttle_wakeup env th self = Inr (th', self', calls) \<Longrightarrow> throttle_reach sID th'"
| neighbours: "throttle_reach sID th \<Longrightarrow> length ins = length (m_in th) \<Longrightarrow> length outs = length (m_out th) \<Longrightarrow>
    throttle_reach sID (th\<lparr>m_in := ins, m_out := outs\<rparr>)"

lemma Throttle_new_wf: "Throttle_new raw sID node lat bw_mult bandwidth = Inr th \<Longrightarrow> throttle_wf th \<and> m_sID th = sID"
  by (auto simp: Throttle_new_def Throttle_init_def throttle_wf_def units_ok_def)

lemma Throttle_addLink_wf:
  "Throttle_addLink desc th l = Inr th' \<Longrightarrow> throttle_wf th \<Longrightarrow> throttle_wf th' \<and> m_sID th' = m_sID th"
  by (cases l) (auto simp: Throttle_addLink_def throttle_wf_def units_ok_def)

lemma Throttle_addLinks_wf:
  assumes "Throttle_addLinks desc th ins outs = Inr th'" and "throttle_wf th"
  shows "throttle_wf th' \<and> m_sID th' = m_sID th"
proof -
  have "rfold (Throttle_addLink desc) th ls = Inr th' \<Longrightarrow> throttle_wf th \<Longrightarrow> throttle_wf th' \<and> m_sID th' = m_sID th" for ls
    by (induction ls arbitrary: th) (auto dest: Throttle_addLink_wf)
  then show ?thesis using assms by (auto simp: Throttle_addLinks_def)
qed

lemma throttle_reach_wf: "throttle_reach sID th \<Longrightarrow> throttle_wf th \<and> m_sID th = sID"
proof (induction rule: throttle_reach.induct)
  case (construct raw node lat bw_mult bandwidth th)
  then show ?case by (rule Throttle_new_wf)
next
  case (links th desc ins outs th')
  then show ?case using Throttle_addLinks_wf by blast
next
  case (wakeup th env self th' self' calls)
  then show ?case using Throttle_wakeup_frame by blast
next
  case (neighbours th ins outs)
  then show ?case by (simp add: throttle_wf_def units_ok_def)
qed





text \<open>C27: at the start of a slot the token goes to the scheduled kind of request (write-backs in every
  second period), unless only the other kind is ready, which then gets the slot; the shared memory is
  blocked exactly for write-back slots.\<close>

theorem arbitration_work_conserving:
  assumes "isStartOfSlot (curCycle (te_now env) (te_sys env))" and "m_sID th < 4"
    and "queue_ready env w = Inr wbReady" and "queue_ready env d = Inr demandReady"
  shows "\<exists>th1. arbitrate_slot env th 6 w d = Inr th1 \<and> smBlock th1 = vToken th1 \<and>
    vToken th1 = (if odd (unat (curCycle (te_now env) (te_sys env)) div 200)
                  then wbReady \<or> \<not> demandReady else wbReady \<and> \<not> demandReady)"
  using assms(1,2) unfolding arbitrate_slot_def Let_def wb_slot_start_def demand_slot_start_def assms(3,4)
  by (cases wbReady; cases demandReady; cases "odd (unat (curCycle (te_now env) (te_sys env)) div 200)")
     (simp_all add: BASELINE_def changeVnetToken_def Let_def setSlotType_eq isStartOfSlot_iff)

theorem arbitration_work_conserving_witness:
  "\<exists>th1. arbitrate_slot (link_env 25000 (Some 5)) core_link 6 (Some two_requests) (Some idle_queue) = Inr th1 \<and>
     smBlock th1 \<and> vToken th1"
proof -
  let ?e = "link_env 25000 (Some 5)"
  have "isStartOfSlot (curCycle (te_now ?e) (te_sys ?e))" "m_sID core_link < 4"
    "queue_ready ?e (Some two_requests) = Inr True" "queue_ready ?e (Some idle_queue) = Inr False" by code_simp+
  then show ?thesis
    using arbitration_work_conserving [of ?e core_link "Some two_requests" True "Some idle_queue" False]
    by (simp only: simp_thms if_cancel) blast
qed

text \<open>C5: in every state a throttle can reach, its vectors have one element per virtual network, no
  negative number of units waits, and the shared-memory block says the same as the write-back token.
  As only the links of the switches 0 to 3 ever arbitrate, the link of the shared memory (switch 4)
  is never blocked: its data goes out in write-back slots as well.\<close>

theorem throttle_invariant:
  assumes "throttle_reach sID th"
  shows "m_sID th = sID \<and> length (m_in th) = m_vnets th \<and> length (m_out th) = m_vnets th \<and>
    length (m_units_remaining th) = m_vnets th \<and> (\<forall>u \<in> set (m_units_remaining th). 0 \<le> u) \<and>
    smBlock th = vToken th \<and> (4 \<le> sID \<longrightarrow> \<not> smBlock th)"
  using throttle_reach_wf [OF assms] by (simp add: throttle_wf_def units_ok_def)

theorem throttle_invariant_witness:
  "\<exists>th :: nat throttle. Throttle_new core_link 4 0 1 16 1000 = Inr th \<and> m_sID th = 4 \<and> \<not> smBlock th"
proof -
  obtain th :: "nat throttle" where th: "Throttle_new core_link 4 0 1 16 1000 = Inr th"
    by (auto simp: Throttle_new_def Throttle_init_def)
  show ?thesis using throttle_invariant [OF throttle_reach.construct [OF th]] th by auto
qed

text \<open>C17: no message is forgotten on a link to a switch: if after a wakeup the first message of an input
  is ready and its output leads to a switch, the throttle has scheduled its next wakeup.\<close>

theorem ready_input_rescheduled:
  assumes "throttle_wf th" and "Throttle_wakeup env th self = Inr (th', self', calls)"
    and "v < m_vnets th" and "m_out th ! v \<noteq> None" and "te_out_switch env v \<noteq> None"
    and "in_ready env th' v = Inr True"
  shows "scheduleEvent (te_now env) self 1 = Inr self'"
proof -
  obtain bw sched where w: "0 < getLinkBandwidth th"
    "operate_vnets env (th\<lparr>m_wakeups_wo_switch := m_wakeups_wo_switch th + 1\<rparr>, getLinkBandwidth th, False, [])
       (rev [0..<m_vnets th]) = Inr (th', bw, sched, calls)"
    "if 0 < bw \<and> \<not> sched then self' = self else scheduleEvent (te_now env) self 1 = Inr self'"
    by (rule Throttle_wakeup_Inr [OF assms(2)])
  have "sched \<or> bw \<le> 0"
    using operate_vnets_retry [OF w(2), of v] w(1) assms(1,3-6) by simp
  then show ?thesis using w(3) by auto
qed

theorem ready_input_rescheduled_witness:
  "\<exists>th' self' calls. Throttle_wakeup (link_env 25000 (Some 5)) core_link link_consumer = Inr (th', self', calls) \<and>
     in_ready (link_env 25000 (Some 5)) th' 6 = Inr True \<and> scheduleEvent 25000 link_consumer 1 = Inr self'"
proof -
  let ?e = "link_env 25000 (Some 5)"
  have "(case Throttle_wakeup ?e core_link link_consumer of Inl _ \<Rightarrow> False | Inr (th', _) \<Rightarrow> in_ready ?e th' 6 = Inr True)"
    by code_simp
  then obtain th' self' calls where w: "Throttle_wakeup ?e core_link link_consumer = Inr (th', self', calls)"
    "in_ready ?e th' 6 = Inr True" by (auto split: sum.splits)
  moreover have "throttle_wf core_link" by (simp add: throttle_wf_def core_link_def units_ok_def)
  moreover have "6 < m_vnets core_link" "m_out core_link ! 6 \<noteq> None" "te_out_switch ?e 6 \<noteq> None" "te_now ?e = 25000"
    by (simp_all add: core_link_def link_env_def)
  ultimately show ?thesis using ready_input_rescheduled [of core_link ?e link_consumer th' self' calls 6] by metis
qed


end
