(* ===== verification/Data_Block.thy ===== *)
theory Data_Block
  imports Ruby_Address
begin

text \<open>
  The bytes of a memory block and their transfer: \<open>DataBlock\<close> (src/gem5-stable/src/mem/ruby/common/
  DataBlock.hh and DataBlock.cc), \<open>SubBlock\<close> (SubBlock.hh and SubBlock.cc) and the functional accesses
  \<open>testAndRead\<close> and \<open>testAndWrite\<close> of slicc_interface/RubySlicc_Util.hh. An access outside the byte
  array, which the code does not check, is \<open>OutOfBounds\<close>.
\<close>

section \<open>DataBlock\<close>

record data_block =
  m_data :: "byte list"
  m_alloc :: bool

definition block_size :: "ruby_system \<Rightarrow> nat" where
  "block_size rs = unat (m_block_size_bytes rs)"

text \<open>The array accesses and the calls of \<open>memcpy\<close>; C++ indices are \<open>int\<close>.\<close>

definition at_int :: "'a list \<Rightarrow> int \<Rightarrow> 'a result" where
  "at_int xs i = ensure (0 \<le> i) OutOfBounds (at_pos xs (nat i))"

definition set_int :: "'a list \<Rightarrow> int \<Rightarrow> 'a \<Rightarrow> 'a list result" where
  "set_int xs i x = ensure (0 \<le> i) OutOfBounds (set_pos xs (nat i) x)"

definition mem_read :: "byte list \<Rightarrow> int \<Rightarrow> int \<Rightarrow> byte list result" where
  "mem_read xs off len = ensure (0 \<le> off \<and> 0 \<le> len \<and> nat off + nat len \<le> length xs) OutOfBounds (
     Inr (take (nat len) (drop (nat off) xs)))"

definition mem_write :: "byte list \<Rightarrow> int \<Rightarrow> byte list \<Rightarrow> byte list result" where
  "mem_write xs off ys = ensure (0 \<le> off \<and> nat off + length ys \<le> length xs) OutOfBounds (
     Inr (take (nat off) xs @ ys @ drop (nat off + length ys) xs))"

definition DataBlock_clear :: "ruby_system \<Rightarrow> data_block \<Rightarrow> data_block result" where
  "DataBlock_clear rs b = rbind (mem_write (m_data b) 0 (replicate (block_size rs) 0)) (\<lambda>d. Inr (b\<lparr>m_data := d\<rparr>))"

text \<open>The contents of a new array are those of \<open>raw\<close> before the block is cleared.\<close>

definition DataBlock_alloc :: "ruby_system \<Rightarrow> (nat \<Rightarrow> byte) \<Rightarrow> data_block result" where
  "DataBlock_alloc rs raw = DataBlock_clear rs \<lparr>m_data = map raw [0..<block_size rs], m_alloc = True\<rparr>"

definition DataBlock_copy :: "ruby_system \<Rightarrow> data_block \<Rightarrow> data_block result" where
  "DataBlock_copy rs cp = rbind (mem_read (m_data cp) 0 (int (block_size rs))) (\<lambda>d. Inr \<lparr>m_data = d, m_alloc = True\<rparr>)"

text \<open>The array given to \<open>assign\<close> is not shared with another block in the repository.\<close>

definition DataBlock_assign :: "data_block \<Rightarrow> byte list option \<Rightarrow> data_block result" where
  "DataBlock_assign b data = (case data of None \<Rightarrow> Inl AssertFailed | Some d \<Rightarrow> Inr (b\<lparr>m_data := d, m_alloc := False\<rparr>))"

definition DataBlock_equal :: "ruby_system \<Rightarrow> data_block \<Rightarrow> data_block \<Rightarrow> bool result" where
  "DataBlock_equal rs b obj = rbind (mem_read (m_data b) 0 (int (block_size rs))) (\<lambda>x.
     rbind (mem_read (m_data obj) 0 (int (block_size rs))) (\<lambda>y. Inr (x = y)))"

definition DataBlock_getByte :: "data_block \<Rightarrow> int \<Rightarrow> byte result" where
  "DataBlock_getByte b whichByte = at_int (m_data b) whichByte"

definition DataBlock_setByte :: "data_block \<Rightarrow> int \<Rightarrow> byte \<Rightarrow> data_block result" where
  "DataBlock_setByte b whichByte x = rbind (set_int (m_data b) whichByte x) (\<lambda>d. Inr (b\<lparr>m_data := d\<rparr>))"

text \<open>The assertions add two \<open>int\<close> and compare with the \<open>uint32_t\<close> block size. A pointer into the
  array is the rest of the array from there.\<close>

definition DataBlock_getData :: "ruby_system \<Rightarrow> data_block \<Rightarrow> int \<Rightarrow> int \<Rightarrow> byte list result" where
  "DataBlock_getData rs b offset len =
     ensure ((word_of_int (offset + len) :: u32) \<le> m_block_size_bytes rs) AssertFailed (
     ensure (0 \<le> offset \<and> nat offset \<le> length (m_data b)) OutOfBounds (Inr (drop (nat offset) (m_data b))))"

definition DataBlock_setData :: "ruby_system \<Rightarrow> data_block \<Rightarrow> byte list \<Rightarrow> int \<Rightarrow> int \<Rightarrow> data_block result" where
  "DataBlock_setData rs b data offset len =
     ensure ((word_of_int (offset + len) :: u32) \<le> m_block_size_bytes rs) AssertFailed (
     rbind (mem_read data 0 len) (\<lambda>x. rbind (mem_write (m_data b) offset x) (\<lambda>d. Inr (b\<lparr>m_data := d\<rparr>))))"

definition DataBlock_copyPartial :: "ruby_system \<Rightarrow> data_block \<Rightarrow> data_block \<Rightarrow> int \<Rightarrow> int \<Rightarrow> data_block result" where
  "DataBlock_copyPartial rs b dblk offset len =
     ensure (0 \<le> offset \<and> nat offset \<le> length (m_data dblk)) OutOfBounds (
     DataBlock_setData rs b (drop (nat offset) (m_data dblk)) offset len)"

definition DataBlock_operator_assign :: "ruby_system \<Rightarrow> data_block \<Rightarrow> data_block \<Rightarrow> data_block result" where
  "DataBlock_operator_assign rs b obj = rbind (mem_read (m_data obj) 0 (int (block_size rs))) (\<lambda>x.
     rbind (mem_write (m_data b) 0 x) (\<lambda>d. Inr (b\<lparr>m_data := d\<rparr>)))"

text \<open>\<open>lookup\<close> copies the bytes into a 64-bit variable; the value is that of a little-endian host.\<close>

definition le_value :: "byte list \<Rightarrow> u64" where
  "le_value xs = foldr (\<lambda>x v. ucast x OR push_bit 8 v) xs 0"

definition DataBlock_lookup :: "data_block \<Rightarrow> u64 \<Rightarrow> int \<Rightarrow> u64 result" where
  "DataBlock_lookup b offset sz = ensure (sz \<le> 8) OutOfBounds (
     rbind (mem_read (m_data b) (uint offset) sz) (\<lambda>x. Inr (le_value x)))"

section \<open>SubBlock\<close>

record sub_block =
  m_address :: addr
  sb_data :: "byte list"

definition SubBlock_getSize :: "sub_block \<Rightarrow> nat" where
  "SubBlock_getSize s = length (sb_data s)"

definition SubBlock_resize :: "sub_block \<Rightarrow> nat \<Rightarrow> sub_block" where
  "SubBlock_resize s n = s\<lparr>sb_data := take n (sb_data s) @ replicate (n - length (sb_data s)) 0\<rparr>"

definition SubBlock_getByte :: "sub_block \<Rightarrow> int \<Rightarrow> byte result" where
  "SubBlock_getByte s offset = at_int (sb_data s) offset"

definition SubBlock_setByte :: "sub_block \<Rightarrow> int \<Rightarrow> byte \<Rightarrow> sub_block result" where
  "SubBlock_setByte s offset x = rbind (set_int (sb_data s) offset x) (\<lambda>d. Inr (s\<lparr>sb_data := d\<rparr>))"

definition SubBlock_new :: "addr \<Rightarrow> nat \<Rightarrow> sub_block result" where
  "SubBlock_new a n = rfold (\<lambda>s i. SubBlock_setByte s (int i) 0)
     (SubBlock_resize \<lparr>m_address = a, sb_data = []\<rparr> n) [0..<n]"

definition SubBlock_readByte :: "sub_block \<Rightarrow> byte result" where
  "SubBlock_readByte s = SubBlock_getByte s 0"

definition SubBlock_writeByte :: "sub_block \<Rightarrow> byte \<Rightarrow> sub_block result" where
  "SubBlock_writeByte s x = SubBlock_setByte s 0 x"

text \<open>\<open>int offset = m_address.getOffset()\<close>.\<close>

definition int_offset :: "ruby_system \<Rightarrow> addr \<Rightarrow> int result" where
  "int_offset rs a = rbind (getOffset rs a) (\<lambda>w. Inr (sint (ucast w :: u32)))"

definition internalMergeFrom :: "ruby_system \<Rightarrow> sub_block \<Rightarrow> data_block \<Rightarrow> sub_block result" where
  "internalMergeFrom rs s data =
     ensure (0 < SubBlock_getSize s) AssertFailed (
     rbind (int_offset rs (m_address s)) (\<lambda>offset.
     rfold (\<lambda>s i. rbind (DataBlock_getByte data (offset + int i)) (\<lambda>x. SubBlock_setByte s (int i) x))
       s [0..<SubBlock_getSize s]))"

definition internalMergeTo :: "ruby_system \<Rightarrow> sub_block \<Rightarrow> data_block \<Rightarrow> data_block result" where
  "internalMergeTo rs s data =
     ensure (0 < SubBlock_getSize s) AssertFailed (
     rbind (int_offset rs (m_address s)) (\<lambda>offset.
     rfold (\<lambda>d i. rbind (SubBlock_getByte s (int i)) (\<lambda>x. DataBlock_setByte d (offset + int i) x))
       data [0..<SubBlock_getSize s]))"

section \<open>Functional accesses of a packet\<close>

text \<open>Of a packet (src/gem5-stable/src/mem/packet.hh) the accesses use the address and the data, whose
  length is the size of the packet.\<close>

record packet =
  pkt_addr :: addr
  pkt_data :: "byte list"

definition pkt_start_byte :: "ruby_system \<Rightarrow> addr \<Rightarrow> packet \<Rightarrow> u32" where
  "pkt_start_byte rs a pkt = ucast (pkt_addr pkt - makeLineAddress rs a)"

definition testAndRead :: "ruby_system \<Rightarrow> addr \<Rightarrow> data_block \<Rightarrow> packet \<Rightarrow> (bool \<times> packet) result" where
  "testAndRead rs a blk pkt =
     (if makeLineAddress rs (pkt_addr pkt) = makeLineAddress rs a
      then rbind (rfold (\<lambda>d i. rbind (DataBlock_getByte blk (sint (word_of_nat i + pkt_start_byte rs a pkt)))
                         (\<lambda>x. set_pos d i x)) (pkt_data pkt) [0..<length (pkt_data pkt)])
             (\<lambda>d. Inr (True, pkt\<lparr>pkt_data := d\<rparr>))
      else Inr (False, pkt))"

definition testAndWrite :: "ruby_system \<Rightarrow> addr \<Rightarrow> data_block \<Rightarrow> packet \<Rightarrow> (bool \<times> data_block) result" where
  "testAndWrite rs a blk pkt =
     (if makeLineAddress rs (pkt_addr pkt) = makeLineAddress rs a
      then rbind (rfold (\<lambda>b i. rbind (at_pos (pkt_data pkt) i)
                         (\<lambda>x. DataBlock_setByte b (sint (word_of_nat i + pkt_start_byte rs a pkt)) x))
                    blk [0..<length (pkt_data pkt)])
             (\<lambda>b. Inr (True, b))
      else Inr (False, blk))"

section \<open>Copying loops\<close>

lemma rfold_cong: "(\<And>s x. x \<in> set xs \<Longrightarrow> f s x = g s x) \<Longrightarrow> rfold f s xs = rfold g s xs"
  by (induction xs arbitrary: s) (auto simp: rbind_def split: sum.splits)

lemma at_int_in: "i < length xs \<Longrightarrow> at_int xs (int i) = Inr (xs ! i)"
  by (simp add: at_int_def at_pos_in)

lemma set_int_in: "i < length xs \<Longrightarrow> set_int xs (int i) x = Inr (xs[i := x])"
  by (simp add: set_int_def set_pos_in)

lemma DataBlock_setByte_Inl: "set_int d i x = Inl e \<Longrightarrow> DataBlock_setByte (b\<lparr>m_data := d\<rparr>) i x = Inl e"
  by (simp add: DataBlock_setByte_def)

text \<open>The bytes \<open>s\<close> to \<open>s + n\<close> of an array replaced by the first \<open>n\<close> of another one.\<close>

definition patch :: "'a list \<Rightarrow> nat \<Rightarrow> 'a list \<Rightarrow> 'a list" where
  "patch d s x = take s d @ x @ drop (s + length x) d"

lemma length_patch [simp]: "s + length x \<le> length d \<Longrightarrow> length (patch d s x) = length d"
  by (simp add: patch_def)

lemma nth_patch: "s + length x \<le> length d \<Longrightarrow> i < length d \<Longrightarrow>
    patch d s x ! i = (if s \<le> i \<and> i < s + length x then x ! (i - s) else d ! i)"
  by (auto simp: patch_def nth_append min_def)

lemma patch_snoc:
  assumes "s + length x < length d"
  shows "(patch d s x)[s + length x := y] = patch d s (x @ [y])"
  by (rule nth_equalityI) (use assms in \<open>auto simp: nth_patch nth_list_update nth_append\<close>)

lemma take_drop_patch: "s + length x \<le> length d \<Longrightarrow> take (length x) (drop s (patch d s x)) = x"
  by (simp add: patch_def)

lemma patch_all: "length x = length d \<Longrightarrow> patch d 0 x = x"
  by (simp add: patch_def)

lemma patch_prefix_loop:
  assumes "\<And>i b. i < n \<Longrightarrow> step (put b (patch d s (take i x))) i = Inr (put b ((patch d s (take i x))[s + i := x ! i]))"
    and "s + n \<le> length d" and "n \<le> length x"
  shows "rfold step (put b d) [0..<n] = Inr (put b (patch d s (take n x)))"
  using assms
proof (induction n)
  case 0
  then show ?case by (simp add: patch_def)
next
  case (Suc n)
  have "rfold step (put b d) [0..<n] = Inr (put b (patch d s (take n x)))"
    using Suc.prems by (intro Suc.IH) auto
  moreover have "(patch d s (take n x))[s + n := x ! n] = patch d s (take (Suc n) x)"
    using patch_snoc [of s "take n x" d "x ! n"] Suc.prems(2,3) by (simp add: take_Suc_conv_app_nth)
  ultimately show ?case
    using Suc.prems(1) [of n b] by (simp add: rfold_append)
qed

section \<open>Offsets\<close>

definition byte_offset :: "ruby_system \<Rightarrow> addr \<Rightarrow> nat" where
  "byte_offset rs a = unat (take_bit (m_block_size_bits rs) a)"

definition block_wf :: "ruby_system \<Rightarrow> data_block \<Rightarrow> bool" where
  "block_wf rs b \<longleftrightarrow> length (m_data b) = block_size rs"

lemma byte_offset_less: "byte_offset rs a < 2 ^ m_block_size_bits rs"
  unfolding byte_offset_def by (auto simp: unat_less_power_iff_bit bit_take_bit_iff)

lemma sint_u32_nat: "n < 2 ^ 31 \<Longrightarrow> sint (word_of_nat n :: u32) = int n"
  by (simp add: sint_uint unsigned_of_nat take_bit_nat_eq_self signed_take_bit_int_eq_self)

lemma ucast_u32_offset: "ruby_system_wf rs \<Longrightarrow> (ucast (take_bit (m_block_size_bits rs) a) :: u32) = word_of_nat (byte_offset rs a)"
  by (simp add: byte_offset_def)

lemma block_size_eq: "ruby_system_wf rs \<Longrightarrow> block_size rs = 2 ^ m_block_size_bits rs"
  by (simp add: ruby_system_wf_def block_size_def)

lemma block_size_bound: "ruby_system_wf rs \<Longrightarrow> block_size rs \<le> 2 ^ 31"
  using power_increasing [of "m_block_size_bits rs" 31 "2 :: nat"] by (simp add: ruby_system_wf_def block_size_def)

lemma pkt_start_byte_eq:
  assumes "ruby_system_wf rs" and "makeLineAddress rs (pkt_addr pkt) = makeLineAddress rs a"
  shows "pkt_start_byte rs a pkt = word_of_nat (byte_offset rs (pkt_addr pkt))"
proof -
  have "pkt_addr pkt - makeLineAddress rs a = take_bit (m_block_size_bits rs) (pkt_addr pkt)"
    using line_address_split [OF assms(1), of "pkt_addr pkt"] assms(2)
    by (simp add: line_address_def) (metis add_diff_cancel_left')
  then show ?thesis by (simp add: pkt_start_byte_def ucast_u32_offset assms(1))
qed

lemma pkt_index:
  assumes "ruby_system_wf rs" and "makeLineAddress rs (pkt_addr pkt) = makeLineAddress rs a"
    and "byte_offset rs (pkt_addr pkt) + i < block_size rs"
  shows "sint (word_of_nat i + pkt_start_byte rs a pkt) = int (byte_offset rs (pkt_addr pkt) + i)"
proof -
  have "(word_of_nat i + pkt_start_byte rs a pkt :: u32) = word_of_nat (byte_offset rs (pkt_addr pkt) + i)"
    using pkt_start_byte_eq [OF assms(1,2)] by simp
  moreover have "byte_offset rs (pkt_addr pkt) + i < 2 ^ 31"
    using assms(3) block_size_bound [OF assms(1)] by simp
  ultimately show ?thesis using sint_u32_nat by metis
qed

lemma int_offset_eq:
  assumes "ruby_system_wf rs" and "0 < m_block_size_bits rs"
  shows "int_offset rs a = Inr (int (byte_offset rs a))"
proof -
  have "byte_offset rs a < 2 ^ 31"
    using byte_offset_less [of rs a] block_size_bound [OF assms(1)] block_size_eq [OF assms(1)] by simp
  then show ?thesis
    using assms sint_u32_nat by (simp add: int_offset_def getOffset_Inr ucast_u32_offset)
qed

section \<open>Functional accesses\<close>

lemma testAndWrite_same_line:
  assumes "ruby_system_wf rs" and "block_wf rs blk"
    and "makeLineAddress rs (pkt_addr pkt) = makeLineAddress rs a"
    and "byte_offset rs (pkt_addr pkt) + length (pkt_data pkt) \<le> block_size rs"
  shows "testAndWrite rs a blk pkt =
    Inr (True, blk\<lparr>m_data := patch (m_data blk) (byte_offset rs (pkt_addr pkt)) (pkt_data pkt)\<rparr>)"
proof -
  let ?s = "byte_offset rs (pkt_addr pkt)" and ?x = "pkt_data pkt" and ?d = "m_data blk"
  let ?step = "\<lambda>b i. rbind (at_pos ?x i) (\<lambda>x. DataBlock_setByte b (sint (word_of_nat i + pkt_start_byte rs a pkt)) x)"
  have st: "?step (b\<lparr>m_data := patch ?d ?s (take i ?x)\<rparr>) i = Inr (b\<lparr>m_data := (patch ?d ?s (take i ?x))[?s + i := ?x ! i]\<rparr>)"
    if "i < length ?x" for i b
  proof -
    have "?s + i < block_size rs" using that assms(4) by simp
    moreover have "length (patch ?d ?s (take i ?x)) = block_size rs"
      using that assms(2,4) by (simp add: block_wf_def)
    ultimately show ?thesis
      using that pkt_index [OF assms(1,3)] set_int_in [of "?s + i" "patch ?d ?s (take i ?x)"]
      by (simp add: at_pos_in DataBlock_setByte_def)
  qed
  have "rfold ?step (blk\<lparr>m_data := ?d\<rparr>) [0..<length ?x] = Inr (blk\<lparr>m_data := patch ?d ?s (take (length ?x) ?x)\<rparr>)"
    using patch_prefix_loop [where put = "\<lambda>b d. b\<lparr>m_data := d\<rparr>" and b = blk and step = ?step and d = ?d and s = ?s
        and x = ?x and n = "length ?x"] st assms(2,4) by (simp add: block_wf_def)
  then show ?thesis using assms(3) by (simp add: testAndWrite_def)
qed

lemma testAndRead_same_line:
  assumes "ruby_system_wf rs" and "block_wf rs blk"
    and "makeLineAddress rs (pkt_addr pkt) = makeLineAddress rs a"
    and "byte_offset rs (pkt_addr pkt) + length (pkt_data pkt) \<le> block_size rs"
  shows "testAndRead rs a blk pkt =
    Inr (True, pkt\<lparr>pkt_data := take (length (pkt_data pkt)) (drop (byte_offset rs (pkt_addr pkt)) (m_data blk))\<rparr>)"
proof -
  let ?s = "byte_offset rs (pkt_addr pkt)" and ?p = "pkt_data pkt"
  let ?x = "take (length ?p) (drop ?s (m_data blk))"
  let ?step = "\<lambda>d i. rbind (DataBlock_getByte blk (sint (word_of_nat i + pkt_start_byte rs a pkt))) (\<lambda>x. set_pos d i x)"
  have len: "length ?x = length ?p" using assms(2,4) by (simp add: block_wf_def)
  have st: "?step (patch ?p 0 (take i ?x)) i = Inr ((patch ?p 0 (take i ?x))[0 + i := ?x ! i])"
    if "i < length ?p" for i
  proof -
    have "?s + i < block_size rs" using that assms(4) by simp
    moreover have "length (patch ?p 0 (take i ?x)) = length ?p" using that len by simp
    ultimately show ?thesis
      using that pkt_index [OF assms(1,3)] at_int_in [of "?s + i" "m_data blk"] assms(2)
      by (simp add: DataBlock_getByte_def set_pos_in block_wf_def)
  qed
  have "rfold ?step ?p [0..<length ?p] = Inr (patch ?p 0 (take (length ?p) ?x))"
    using patch_prefix_loop [where put = "\<lambda>b d. d" and b = "()" and step = ?step and d = ?p and s = 0
        and x = ?x and n = "length ?p"] st len by simp
  moreover have "patch ?p 0 (take (length ?p) ?x) = ?x" using patch_all [of ?x ?p] len by simp
  ultimately show ?thesis using assms(3) by (simp add: testAndRead_def)
qed

section \<open>Correctness\<close>

definition zero_block :: data_block where
  "zero_block = \<lparr>m_data = replicate 64 0, m_alloc = True\<rparr>"

lemma block_size_ruby64 [simp]: "block_size ruby64 = 64" "m_block_size_bits ruby64 = 6"
  by (simp_all add: block_size_def ruby64_def)

lemma zero_block_wf [simp]: "block_wf ruby64 zero_block"
  by (simp add: block_wf_def zero_block_def)

text \<open>C29: a functional write to the line of a block followed by a functional read of the same bytes
  returns what was written, the bytes of the block outside the packet keep their values, and an
  access to another line changes neither the block nor the packet.\<close>

theorem functional_write_read:
  assumes "ruby_system_wf rs" and "block_wf rs blk" and "length d = length (pkt_data pkt)"
    and "byte_offset rs (pkt_addr pkt) + length (pkt_data pkt) \<le> block_size rs"
  shows "if makeLineAddress rs (pkt_addr pkt) = makeLineAddress rs a
    then \<exists>blk'. testAndWrite rs a blk pkt = Inr (True, blk') \<and> block_wf rs blk' \<and>
      testAndRead rs a blk' (pkt\<lparr>pkt_data := d\<rparr>) = Inr (True, pkt) \<and>
      (\<forall>i < block_size rs. (i < byte_offset rs (pkt_addr pkt) \<or> byte_offset rs (pkt_addr pkt) + length (pkt_data pkt) \<le> i) \<longrightarrow>
         m_data blk' ! i = m_data blk ! i)
    else testAndWrite rs a blk pkt = Inr (False, blk) \<and> testAndRead rs a blk pkt = Inr (False, pkt)"
proof (cases "makeLineAddress rs (pkt_addr pkt) = makeLineAddress rs a")
  case True
  let ?s = "byte_offset rs (pkt_addr pkt)"
  define blk' where "blk' = blk\<lparr>m_data := patch (m_data blk) ?s (pkt_data pkt)\<rparr>"
  have len: "length (m_data blk) = block_size rs" using assms(2) by (simp add: block_wf_def)
  have wf: "block_wf rs blk'" using assms(4) len by (simp add: block_wf_def blk'_def)
  have "testAndRead rs a blk' (pkt\<lparr>pkt_data := d\<rparr>) = Inr (True, pkt\<lparr>pkt_data := pkt_data pkt\<rparr>)"
    using testAndRead_same_line [OF assms(1) wf, of "pkt\<lparr>pkt_data := d\<rparr>" a] True assms(3,4) len
      take_drop_patch [of ?s "pkt_data pkt" "m_data blk"]
    by (simp add: blk'_def)
  moreover have "m_data blk' ! i = m_data blk ! i"
    if "i < block_size rs" "i < ?s \<or> ?s + length (pkt_data pkt) \<le> i" for i
    using that assms(4) len by (auto simp: blk'_def nth_patch)
  ultimately show ?thesis
    using testAndWrite_same_line [OF assms(1,2) True assms(4)] wf True by (auto simp: blk'_def)
next
  case False
  then show ?thesis by (simp add: testAndWrite_def testAndRead_def)
qed

theorem functional_write_read_witness:
  "\<exists>blk'. testAndWrite ruby64 0x1000 zero_block \<lparr>pkt_addr = 0x1004, pkt_data = [1, 2]\<rparr> = Inr (True, blk') \<and>
     testAndRead ruby64 0x1000 blk' \<lparr>pkt_addr = 0x1004, pkt_data = [0, 0]\<rparr> = Inr (True, \<lparr>pkt_addr = 0x1004, pkt_data = [1, 2]\<rparr>)"
proof -
  have off: "byte_offset ruby64 0x1004 = 4" "makeLineAddress ruby64 0x1004 = makeLineAddress ruby64 0x1000" by code_simp+
  show ?thesis
    using functional_write_read [of ruby64 zero_block "[0, 0]" "\<lparr>pkt_addr = 0x1004, pkt_data = [1, 2]\<rparr>" "0x1000"] off
    by auto
qed

text \<open>C30: merging a sub-block into the block of its line succeeds exactly when the sub-block does not
  cross the end of the block, writes its bytes at its offset and nothing else, and merging back from
  the result into any sub-block of the same address and size gives the original bytes; a sub-block
  that crosses the end of the block writes behind the array.\<close>

theorem subblock_merge_roundtrip:
  assumes "ruby_system_wf rs" and "0 < m_block_size_bits rs" and "block_wf rs b" and "sb_data s \<noteq> []"
    and "length d = length (sb_data s)"
  shows "if byte_offset rs (m_address s) + length (sb_data s) \<le> block_size rs
    then \<exists>b'. internalMergeTo rs s b = Inr b' \<and>
      m_data b' = patch (m_data b) (byte_offset rs (m_address s)) (sb_data s) \<and>
      internalMergeFrom rs (s\<lparr>sb_data := d\<rparr>) b' = Inr s
    else internalMergeTo rs s b = Inl OutOfBounds"
proof -
  let ?o = "byte_offset rs (m_address s)" and ?x = "sb_data s" and ?d = "m_data b"
  let ?to = "\<lambda>d i. rbind (SubBlock_getByte s (int i)) (\<lambda>x. DataBlock_setByte d (int ?o + int i) x)"
  have len: "length ?d = block_size rs" using assms(3) by (simp add: block_wf_def)
  have to: "internalMergeTo rs s b = rfold ?to b [0..<length ?x]"
    using assms(1,2,4) by (simp add: internalMergeTo_def SubBlock_getSize_def int_offset_eq)
  have st: "?to (c\<lparr>m_data := patch ?d ?o (take i ?x)\<rparr>) i = Inr (c\<lparr>m_data := (patch ?d ?o (take i ?x))[?o + i := ?x ! i]\<rparr>)"
    if "i < length ?x" "?o + i < block_size rs" for i c
  proof -
    have "length (patch ?d ?o (take i ?x)) = block_size rs" using that len by simp
    then show ?thesis
      using that set_int_in [of "?o + i" "patch ?d ?o (take i ?x)"]
      by (simp add: SubBlock_getByte_def at_int_in DataBlock_setByte_def)
  qed
  have pre: "rfold ?to b [0..<n] = Inr (b\<lparr>m_data := patch ?d ?o (take n ?x)\<rparr>)"
    if "n \<le> length ?x" "?o + n \<le> block_size rs" for n
    using patch_prefix_loop [where put = "\<lambda>b d. b\<lparr>m_data := d\<rparr>" and b = b and step = ?to and d = ?d and s = ?o
        and x = ?x and n = n] st that len by simp
  show ?thesis
  proof (cases "?o + length ?x \<le> block_size rs")
    case True
    let ?b = "b\<lparr>m_data := patch ?d ?o ?x\<rparr>"
    let ?from = "\<lambda>s i. rbind (DataBlock_getByte ?b (int ?o + int i)) (\<lambda>x. SubBlock_setByte s (int i) x)"
    have fr: "?from (c\<lparr>sb_data := patch d 0 (take i ?x)\<rparr>) i = Inr (c\<lparr>sb_data := (patch d 0 (take i ?x))[0 + i := ?x ! i]\<rparr>)"
      if "i < length ?x" for i c
    proof -
      have "length (patch d 0 (take i ?x)) = length ?x" using that assms(5) by simp
      moreover have "at_int (patch ?d ?o ?x) (int (?o + i)) = Inr (?x ! i)"
        using that True len by (subst at_int_in) (auto simp: nth_patch)
      ultimately show ?thesis
        using that by (simp add: DataBlock_getByte_def SubBlock_setByte_def set_int_in)
    qed
    have "rfold ?from (s\<lparr>sb_data := d\<rparr>) [0..<length ?x] = Inr (s\<lparr>sb_data := patch d 0 (take (length ?x) ?x)\<rparr>)"
      using patch_prefix_loop [where put = "\<lambda>b d. b\<lparr>sb_data := d\<rparr>" and b = s and step = ?from and d = d and s = 0
          and x = ?x and n = "length ?x"] fr assms(5) by simp
    then have "internalMergeFrom rs (s\<lparr>sb_data := d\<rparr>) ?b = Inr s"
      using assms patch_all [of ?x d] by (auto simp: internalMergeFrom_def SubBlock_getSize_def int_offset_eq)
    then show ?thesis using pre [of "length ?x"] True by (simp add: to)
  next
    case False
    let ?n = "block_size rs - ?o"
    have n: "?n < length ?x" "?o + ?n = block_size rs"
      using False byte_offset_less [of rs "m_address s"] by (simp_all add: block_size_eq assms(1))
    have split: "[0..<length ?x] = [0..<?n] @ ?n # [Suc ?n..<length ?x]"
      using n(1) upt_add_eq_append [of 0 ?n "length ?x - ?n"] by (simp add: upt_conv_Cons)
    have "length (patch ?d ?o (take ?n ?x)) = block_size rs" using n len by simp
    then have "set_int (patch ?d ?o (take ?n ?x)) (int ?o + int ?n) (?x ! ?n) = Inl OutOfBounds"
      using n(2) by (simp add: set_int_def set_pos_out flip: of_nat_add)
    then have "?to (b\<lparr>m_data := patch ?d ?o (take ?n ?x)\<rparr>) ?n = Inl OutOfBounds"
      using at_int_in [OF n(1)] by (simp only: SubBlock_getByte_def rbind_Inr DataBlock_setByte_Inl)
    then show ?thesis using pre [of ?n] n False by (simp add: to split rfold_append)
  qed
qed

theorem subblock_merge_roundtrip_witness:
  "\<exists>b'. internalMergeTo ruby64 \<lparr>m_address = 0x1004, sb_data = [7, 8]\<rparr> zero_block = Inr b' \<and>
     internalMergeFrom ruby64 \<lparr>m_address = 0x1004, sb_data = [0, 0]\<rparr> b' = Inr \<lparr>m_address = 0x1004, sb_data = [7, 8]\<rparr>"
proof -
  have "byte_offset ruby64 0x1004 = 4" by code_simp
  then show ?thesis
    using subblock_merge_roundtrip [of ruby64 zero_block "\<lparr>m_address = 0x1004, sb_data = [7, 8]\<rparr>" "[0, 0]"]
    by auto
qed

end
