(* ===== verification/Replacement_Policy.thy ===== *)
theory Replacement_Policy
  imports Ruby_Prelude
begin

text \<open>
  The replacement policies of the caches: \<open>AbstractReplacementPolicy\<close>, \<open>LRUPolicy\<close> and
  \<open>PseudoLRUPolicy\<close> of src/gem5-stable/src/mem/ruby/structures/. Set and way numbers, \<open>int64\<close> in the
  code, are natural numbers: the callers pass the number of a set and of a way.
\<close>

section \<open>Policies\<close>

record policy =
  m_num_sets :: nat
  m_assoc :: nat
  m_last_ref_ptr :: "tick list list"

definition AbstractReplacementPolicy_new :: "nat \<Rightarrow> nat \<Rightarrow> policy" where
  "AbstractReplacementPolicy_new num_sets assoc =
     \<lparr>m_num_sets = num_sets, m_assoc = assoc, m_last_ref_ptr = replicate num_sets (replicate assoc 0)\<rparr>"

definition getLastAccess :: "('a) policy_scheme \<Rightarrow> nat \<Rightarrow> nat \<Rightarrow> tick result" where
  "getLastAccess p st way = rbind (at_pos (m_last_ref_ptr p) st) (\<lambda>row. at_pos row way)"

text \<open>The assignment \<open>m_last_ref_ptr[set][index] = time\<close>.\<close>

definition set_last_ref :: "('a) policy_scheme \<Rightarrow> nat \<Rightarrow> nat \<Rightarrow> tick \<Rightarrow> ('a) policy_scheme result" where
  "set_last_ref p st index time = rbind (at_pos (m_last_ref_ptr p) st) (\<lambda>row. rbind (set_pos row index time) (\<lambda>row'.
     Inr (p\<lparr>m_last_ref_ptr := (m_last_ref_ptr p)[st := row']\<rparr>)))"

section \<open>LRUPolicy\<close>

definition LRUPolicy_new :: "nat \<Rightarrow> nat \<Rightarrow> policy" where
  "LRUPolicy_new num_sets assoc = AbstractReplacementPolicy_new num_sets assoc"

definition LRUPolicy_touch :: "policy \<Rightarrow> nat \<Rightarrow> nat \<Rightarrow> tick \<Rightarrow> policy result" where
  "LRUPolicy_touch p st index time =
     ensure (index < m_assoc p) AssertFailed (ensure (st < m_num_sets p) AssertFailed (set_last_ref p st index time))"

definition lru_step :: "tick list \<Rightarrow> nat \<times> tick \<Rightarrow> nat \<Rightarrow> (nat \<times> tick) result" where
  "lru_step row = (\<lambda>(smallest_index, smallest_time) i. rbind (at_pos row i) (\<lambda>time.
     Inr (if time < smallest_time then (i, time) else (smallest_index, smallest_time))))"

definition LRUPolicy_getVictim :: "policy \<Rightarrow> nat \<Rightarrow> nat result" where
  "LRUPolicy_getVictim p st = rbind (at_pos (m_last_ref_ptr p) st) (\<lambda>row. rbind (at_pos row 0) (\<lambda>t0.
     rbind (rfold (lru_step row) (0, t0) [0..<m_assoc p]) (\<lambda>(smallest_index, _). Inr smallest_index)))"

section \<open>PseudoLRUPolicy\<close>

record plru_policy = policy +
  m_effective_assoc :: nat
  m_num_levels :: nat
  m_trees :: "u64 list"

text \<open>The loops of the constructor: the least power of two that is not below the associativity, and
  the number of levels of the tree. The first one would not end for a zero start value.\<close>

function ceil_assoc :: "nat \<Rightarrow> nat \<Rightarrow> nat" where
  "ceil_assoc effective assoc =
     (if 0 < effective \<and> effective < assoc then ceil_assoc (2 * effective) assoc else effective)"
  by pat_completeness auto
termination by (relation "measure (\<lambda>(e, a). a - e)") auto

fun count_levels :: "nat \<Rightarrow> nat \<Rightarrow> nat" where
  "count_levels assoc levels =
     (if assoc div 2 = 0 then levels else count_levels (assoc div 2) (levels + 1))"

declare ceil_assoc.simps [simp del] count_levels.simps [simp del]

definition PseudoLRUPolicy_new :: "nat \<Rightarrow> nat \<Rightarrow> plru_policy result" where
  "PseudoLRUPolicy_new num_sets assoc =
     ensure (0 < num_sets \<and> 1 < assoc \<and> assoc \<le> 32) AssertFailed (
     let effective = ceil_assoc 1 assoc;
         levels = count_levels effective 0
     in ensure (levels < 16) AssertFailed (
        Inr \<lparr>m_num_sets = num_sets, m_assoc = assoc, m_last_ref_ptr = replicate num_sets (replicate assoc 0),
             m_effective_assoc = effective, m_num_levels = levels, m_trees = replicate num_sets 0\<rparr>))"

text \<open>One level of the walk in \<open>touch\<close>; \<open>1 << tree_index\<close> is computed in \<open>int\<close>, so the model asks for
  an index below 31.\<close>

definition plru_touch_step :: "nat \<Rightarrow> u64 \<times> nat \<Rightarrow> nat \<Rightarrow> (u64 \<times> nat) result" where
  "plru_touch_step index = (\<lambda>(tree, tree_index) i.
     let node_val = odd (index div 2 ^ i)
     in ensure (tree_index < 31) UndefinedShift (
        Inr (if node_val then tree OR push_bit tree_index 1 else tree AND NOT (push_bit tree_index 1),
             if node_val then tree_index * 2 + 2 else tree_index * 2 + 1)))"

definition PseudoLRUPolicy_touch :: "plru_policy \<Rightarrow> nat \<Rightarrow> nat \<Rightarrow> tick \<Rightarrow> plru_policy result" where
  "PseudoLRUPolicy_touch p st index time =
     ensure (index < m_assoc p) AssertFailed (ensure (st < m_num_sets p) AssertFailed (
     rbind (at_pos (m_trees p) st) (\<lambda>tree.
     rbind (rfold (plru_touch_step index) (tree, 0) (rev [0..<m_num_levels p])) (\<lambda>(tree', _).
     set_last_ref (p\<lparr>m_trees := (m_trees p)[st := tree']\<rparr>) st index time))))"

definition plru_victim_step :: "nat \<Rightarrow> u64 \<Rightarrow> nat \<times> nat \<Rightarrow> nat \<Rightarrow> (nat \<times> nat) result" where
  "plru_victim_step effective tree = (\<lambda>(index, tree_index) i.
     ensure (tree_index < 64) UndefinedShift (
     let node_val = bit tree tree_index
     in Inr (index + (if node_val then 0 else effective div 2 ^ (i + 1)),
             if node_val then tree_index * 2 + 1 else tree_index * 2 + 2)))"

definition PseudoLRUPolicy_getVictim :: "plru_policy \<Rightarrow> nat \<Rightarrow> nat result" where
  "PseudoLRUPolicy_getVictim p st = rbind (at_pos (m_trees p) st) (\<lambda>tree.
     rbind (rfold (plru_victim_step (m_effective_assoc p) tree) (0, 0) [0..<m_num_levels p]) (\<lambda>(index, _).
     ensure (index < m_effective_assoc p) AssertFailed (
     Inr (if m_assoc p - 1 < index then m_assoc p - 1 else index))))"

section \<open>The contract of a policy\<close>

text \<open>What a cache relies on: a touched way stays within the policy's tables, and there is always a
  victim in the set.\<close>

locale victim_policy =
  fixes touch :: "'p \<Rightarrow> nat \<Rightarrow> nat \<Rightarrow> tick \<Rightarrow> 'p result"
    and getVictim :: "'p \<Rightarrow> nat \<Rightarrow> nat result"
    and wf :: "'p \<Rightarrow> bool" and sets :: "'p \<Rightarrow> nat" and ways :: "'p \<Rightarrow> nat"
  assumes touch_law: "wf p \<Longrightarrow> st < sets p \<Longrightarrow> w < ways p \<Longrightarrow>
      \<exists>p'. touch p st w t = Inr p' \<and> wf p' \<and> sets p' = sets p \<and> ways p' = ways p"
    and victim_law: "wf p \<Longrightarrow> st < sets p \<Longrightarrow> \<exists>v. getVictim p st = Inr v \<and> v < ways p"
begin

text \<open>After any sequence of touches there is still a victim.\<close>

lemma touches_then_victim:
  assumes "wf p" and "\<forall>(st, w, t) \<in> set ts. st < sets p \<and> w < ways p" and "st < sets p"
  shows "\<exists>p' v. rfold (\<lambda>p (st, w, t). touch p st w t) p ts = Inr p' \<and> wf p' \<and>
    getVictim p' st = Inr v \<and> v < ways p"
proof -
  have "\<exists>p'. rfold (\<lambda>p (st, w, t). touch p st w t) p ts = Inr p' \<and> (wf p' \<and> sets p' = sets p \<and> ways p' = ways p)"
    using assms(1,2) touch_law by (intro rfold_invariant) fastforce+
  then show ?thesis using victim_law assms(3) by metis
qed

end

section \<open>LRU\<close>

definition policy_wf :: "('a) policy_scheme \<Rightarrow> bool" where
  "policy_wf p \<longleftrightarrow> 0 < m_assoc p \<and> length (m_last_ref_ptr p) = m_num_sets p \<and>
     (\<forall>row \<in> set (m_last_ref_ptr p). length row = m_assoc p)"

lemma row_length: "policy_wf p \<Longrightarrow> st < m_num_sets p \<Longrightarrow> length (m_last_ref_ptr p ! st) = m_assoc p"
  by (simp add: policy_wf_def)

lemma set_last_ref_Inr:
  assumes "policy_wf p" and "st < m_num_sets p" and "index < m_assoc p"
  shows "set_last_ref p st index time =
    Inr (p\<lparr>m_last_ref_ptr := (m_last_ref_ptr p)[st := (m_last_ref_ptr p ! st)[index := time]]\<rparr>)"
  using assms row_length [OF assms(1,2)] by (simp add: set_last_ref_def at_pos_in set_pos_in policy_wf_def)

lemma set_last_ref_wf:
  assumes "policy_wf p" and "st < m_num_sets p"
  shows "policy_wf (p\<lparr>m_last_ref_ptr := (m_last_ref_ptr p)[st := (m_last_ref_ptr p ! st)[index := time]]\<rparr>)"
proof -
  have "length row = m_assoc p" if "row \<in> set ((m_last_ref_ptr p)[st := (m_last_ref_ptr p ! st)[index := time]])" for row
    using that row_length [OF assms] assms set_update_subset_insert [THEN subsetD, OF that] by (auto simp: policy_wf_def)
  then show ?thesis using assms(1) by (simp add: policy_wf_def)
qed

lemma LRUPolicy_new_wf: "0 < assoc \<Longrightarrow> policy_wf (LRUPolicy_new num_sets assoc)"
  by (simp add: LRUPolicy_new_def AbstractReplacementPolicy_new_def policy_wf_def)

lemma LRUPolicy_touch_Inr:
  assumes "policy_wf p" and "st < m_num_sets p" and "index < m_assoc p"
  shows "LRUPolicy_touch p st index time =
    Inr (p\<lparr>m_last_ref_ptr := (m_last_ref_ptr p)[st := (m_last_ref_ptr p ! st)[index := time]]\<rparr>)"
  using assms by (simp add: LRUPolicy_touch_def set_last_ref_Inr)

text \<open>The scan keeps the first way with the least time seen so far.\<close>

definition first_least :: "tick list \<Rightarrow> nat \<Rightarrow> nat \<Rightarrow> bool" where
  "first_least row n v \<longleftrightarrow> (\<forall>i < n. row ! v \<le> row ! i) \<and> (\<forall>i < v. row ! v < row ! i)"

lemma lru_scan:
  assumes "n \<le> length row" and "0 < n"
  shows "\<exists>v. rfold (lru_step row) (0, row ! 0) [0..<n] = Inr (v, row ! v) \<and> v < n \<and> first_least row n v"
  using assms
proof (induction n)
  case 0
  then show ?case by simp
next
  case (Suc n)
  show ?case
  proof (cases "n = 0")
    case True
    moreover have "at_pos row 0 = Inr (row ! 0)" using Suc.prems(1) at_pos_in [of 0 row] by linarith
    ultimately show ?thesis by (simp add: lru_step_def first_least_def)
  next
    case False
    then obtain v where v: "rfold (lru_step row) (0, row ! 0) [0..<n] = Inr (v, row ! v)" "v < n" "first_least row n v"
      using Suc by auto
    have step: "rfold (lru_step row) (0, row ! 0) [0..<Suc n] =
        Inr (if row ! n < row ! v then (n, row ! n) else (v, row ! v))"
      using v(1) Suc.prems by (simp add: rfold_append lru_step_def at_pos_in)
    show ?thesis
    proof (cases "row ! n < row ! v")
      case True
      then show ?thesis using step v by (intro exI [of _ n]) (force simp: first_least_def less_Suc_eq)
    next
      case False
      then show ?thesis using step v by (intro exI [of _ v]) (auto simp: first_least_def less_Suc_eq)
    qed
  qed
qed

lemma LRUPolicy_getVictim_Inr:
  assumes "policy_wf p" and "st < m_num_sets p"
  shows "\<exists>v. LRUPolicy_getVictim p st = Inr v \<and> v < m_assoc p \<and> first_least (m_last_ref_ptr p ! st) (m_assoc p) v"
proof -
  let ?row = "m_last_ref_ptr p ! st"
  have len: "length ?row = m_assoc p" "0 < m_assoc p" "st < length (m_last_ref_ptr p)"
    using assms row_length [OF assms] by (simp_all add: policy_wf_def)
  then show ?thesis
    using lru_scan [of "m_assoc p" ?row] by (auto simp: LRUPolicy_getVictim_def at_pos_in)
qed

interpretation lru: victim_policy LRUPolicy_touch LRUPolicy_getVictim policy_wf m_num_sets m_assoc
proof
  show "\<exists>p'. LRUPolicy_touch p st w t = Inr p' \<and> policy_wf p' \<and> m_num_sets p' = m_num_sets p \<and> m_assoc p' = m_assoc p"
    if "policy_wf p" "st < m_num_sets p" "w < m_assoc p" for p :: policy and st w t
    using that by (simp add: LRUPolicy_touch_Inr set_last_ref_wf)
  show "\<exists>v. LRUPolicy_getVictim p st = Inr v \<and> v < m_assoc p" if "policy_wf p" "st < m_num_sets p" for p :: policy and st
    using LRUPolicy_getVictim_Inr [OF that] by blast
qed

section \<open>Pseudo-LRU\<close>

definition plru_wf :: "plru_policy \<Rightarrow> bool" where
  "plru_wf p \<longleftrightarrow> policy_wf p \<and> length (m_trees p) = m_num_sets p \<and> m_effective_assoc p = 2 ^ m_num_levels p \<and>
     0 < m_num_levels p \<and> m_num_levels p \<le> 5 \<and> 2 ^ (m_num_levels p - 1) < m_assoc p \<and> m_assoc p \<le> 2 ^ m_num_levels p"

text \<open>The constructor's loops.\<close>

lemma ceil_assoc_power:
  assumes "2 ^ k < (assoc :: nat)"
  shows "\<exists>n > k. ceil_assoc (2 ^ k) assoc = 2 ^ n \<and> 2 ^ (n - 1) < assoc \<and> assoc \<le> 2 ^ n"
  using assms
proof (induction "assoc - 2 ^ k" arbitrary: k rule: less_induct)
  case less
  have unf: "ceil_assoc (2 ^ k) assoc = ceil_assoc (2 ^ Suc k) assoc"
    using less.prems by (subst ceil_assoc.simps) simp
  show ?case
  proof (cases "2 ^ Suc k < assoc")
    case True
    have "assoc - 2 ^ Suc k < assoc - 2 ^ k" using less.prems by (intro diff_less_mono2) simp_all
    from less.hyps [OF this True] show ?thesis using unf Suc_lessD by metis
  next
    case False
    then have "ceil_assoc (2 ^ Suc k) assoc = 2 ^ Suc k" by (subst ceil_assoc.simps) simp
    then show ?thesis using unf less.prems False by (intro exI [of _ "Suc k"]) auto
  qed
qed

lemma count_levels_power: "count_levels (2 ^ n) l = l + n"
proof (induction n arbitrary: l)
  case 0
  then show ?case by (subst count_levels.simps) simp
next
  case (Suc n)
  have "count_levels (2 ^ Suc n) l = count_levels (2 ^ n) (l + 1)" by (subst count_levels.simps) simp
  then show ?case using Suc.IH by simp
qed

lemma PseudoLRUPolicy_new_wf:
  assumes "0 < num_sets" and "1 < assoc" and "assoc \<le> 32"
  shows "\<exists>p. PseudoLRUPolicy_new num_sets assoc = Inr p \<and> plru_wf p \<and> m_num_sets p = num_sets \<and> m_assoc p = assoc"
proof -
  obtain n where n: "0 < n" "ceil_assoc 1 assoc = 2 ^ n" "2 ^ (n - 1) < assoc" "assoc \<le> 2 ^ n"
    using ceil_assoc_power [of 0 assoc] assms(2) by auto
  have "(2 :: nat) ^ (n - 1) < 2 ^ 5" using n(3) assms(3) by simp
  then have "n - 1 < 5" by (rule power_less_imp_less_exp [rotated]) simp
  then have "n \<le> 5" by simp
  then show ?thesis
    using assms n by (simp add: PseudoLRUPolicy_new_def Let_def count_levels_power plru_wf_def policy_wf_def)
qed

text \<open>The walk of \<open>touch\<close>: it does not fail, and below the root it does not change the root.\<close>

lemma plru_touch_walk:
  assumes "k + j \<le> 5" and "ti + 2 \<le> 2 ^ Suc k"
  shows "\<exists>tree' ti'. rfold (plru_touch_step index) (tree, ti) (rev [0..<j]) = Inr (tree', ti') \<and>
    (0 < ti \<longrightarrow> bit tree' 0 = bit tree 0)"
  using assms
proof (induction j arbitrary: k ti tree)
  case 0
  then show ?case by simp
next
  case (Suc j)
  let ?v = "odd (index div 2 ^ j)"
  let ?t = "if ?v then tree OR push_bit ti 1 else tree AND NOT (push_bit ti 1)"
  let ?ti = "if ?v then ti * 2 + 2 else ti * 2 + 1"
  have "(2 :: nat) ^ Suc k \<le> 2 ^ 5" using Suc.prems(1) by (intro power_increasing) auto
  then have "ti < 31" using Suc.prems(2) by simp
  then have step: "plru_touch_step index (tree, ti) j = Inr (?t, ?ti)" by (simp add: plru_touch_step_def Let_def)
  have le: "?ti + 2 \<le> 2 ^ Suc (Suc k)" and pos: "0 < ?ti" using Suc.prems(2) by auto
  have "Suc k + j \<le> 5" using Suc.prems(1) by simp
  from Suc.IH [OF this le] pos obtain tree' ti' where r: "rfold (plru_touch_step index) (?t, ?ti) (rev [0..<j]) = Inr (tree', ti')"
    "bit tree' 0 = bit ?t 0"
    by blast
  moreover have "bit ?t 0 = bit tree 0" if "0 < ti" using that by (auto simp: bit_simps)
  ultimately show ?case using step by auto
qed

lemma plru_touch_root:
  assumes "0 < n" and "n \<le> 5"
  shows "\<exists>tree' ti'. rfold (plru_touch_step index) (tree, 0) (rev [0..<n]) = Inr (tree', ti') \<and>
    bit tree' 0 = odd (index div 2 ^ (n - 1))"
proof -
  obtain j where n: "n = Suc j" using assms(1) by (cases n) auto
  let ?v = "odd (index div 2 ^ j)"
  let ?t = "if ?v then tree OR push_bit 0 1 else tree AND NOT (push_bit 0 1)"
  let ?ti = "if ?v then 2 else 1 :: nat"
  have step: "plru_touch_step index (tree, 0) j = Inr (?t, ?ti)" by (simp add: plru_touch_step_def Let_def)
  have j: "1 + j \<le> 5" and ti: "?ti + 2 \<le> 2 ^ Suc 1" "0 < ?ti" using assms(2) n by auto
  obtain tree' ti' where r: "rfold (plru_touch_step index) (?t, ?ti) (rev [0..<j]) = Inr (tree', ti')"
    "bit tree' 0 = bit ?t 0"
    using plru_touch_walk [OF j ti(1)] ti(2) by blast
  have "bit ?t 0 = ?v" by (auto simp: bit_simps)
  then show ?thesis using step r by (simp add: n)
qed

text \<open>The walk of \<open>getVictim\<close>: after \<open>i\<close> levels the index is at most the effective associativity less
  the size of a subtree at that level; the first level decides the half.\<close>

lemma plru_victim_walk:
  assumes "i \<le> n" and "n \<le> 5"
  shows "\<exists>idx ti. rfold (plru_victim_step (2 ^ n) tree) (0, 0) [0..<i] = Inr (idx, ti) \<and>
    idx + 2 ^ (n - i) \<le> 2 ^ n \<and> ti + 2 \<le> 2 ^ Suc i \<and>
    (0 < i \<longrightarrow> (if bit tree 0 then idx + 2 ^ (n - i) \<le> 2 ^ (n - 1) else 2 ^ (n - 1) \<le> idx))"
  using assms(1)
proof (induction i)
  case 0
  then show ?case by simp
next
  case (Suc i)
  then obtain idx ti where r: "rfold (plru_victim_step (2 ^ n) tree) (0, 0) [0..<i] = Inr (idx, ti)"
    "idx + 2 ^ (n - i) \<le> 2 ^ n" "ti + 2 \<le> 2 ^ Suc i"
    "0 < i \<longrightarrow> (if bit tree 0 then idx + 2 ^ (n - i) \<le> 2 ^ (n - 1) else 2 ^ (n - 1) \<le> idx)" by auto
  have "(2 :: nat) ^ Suc i \<le> 2 ^ 5" using Suc.prems assms(2) by (intro power_increasing) auto
  then have ti: "ti < 64" using r(3) by simp
  have half: "(2 :: nat) ^ n div 2 ^ (i + 1) = 2 ^ (n - Suc i)" using Suc.prems by (simp add: power_diff)
  have dbl: "(2 :: nat) ^ (n - i) = 2 * 2 ^ (n - Suc i)" using Suc.prems by (simp add: Suc_diff_Suc flip: power_Suc)
  let ?b = "bit tree ti"
  have step: "rfold (plru_victim_step (2 ^ n) tree) (0, 0) [0..<Suc i] =
      Inr (idx + (if ?b then 0 else 2 ^ (n - Suc i)), if ?b then ti * 2 + 1 else ti * 2 + 2)"
    using r(1) ti half by (simp add: rfold_append plru_victim_step_def Let_def)
  have root: "idx = 0 \<and> ti = 0" if "i = 0" using r(1) that by simp
  show ?case
  proof (cases "i = 0")
    case True
    then show ?thesis using step root r(2,3) dbl by auto
  next
    case False
    let ?idx = "idx + (if ?b then 0 else 2 ^ (n - Suc i))" and ?ti = "if ?b then ti * 2 + 1 else ti * 2 + 2"
    have "?idx + 2 ^ (n - Suc i) \<le> idx + 2 ^ (n - i)" "idx \<le> ?idx" unfolding dbl by simp_all
    moreover have "?ti + 2 \<le> 2 ^ Suc (Suc i)" using r(3) by simp
    ultimately show ?thesis using step r(2,4) False by (cases "bit tree 0") (simp_all del: power_Suc)
  qed
qed

lemma plru_getVictim_Inr:
  assumes "plru_wf p" and "st < m_num_sets p"
  shows "\<exists>v idx. PseudoLRUPolicy_getVictim p st = Inr v \<and> v = min idx (m_assoc p - 1) \<and> idx < 2 ^ m_num_levels p \<and>
    (if bit (m_trees p ! st) 0 then idx < 2 ^ (m_num_levels p - 1) else 2 ^ (m_num_levels p - 1) \<le> idx)"
proof -
  let ?n = "m_num_levels p" and ?tree = "m_trees p ! st"
  have wf: "m_effective_assoc p = 2 ^ ?n" "0 < ?n" "?n \<le> 5" "st < length (m_trees p)"
    using assms by (simp_all add: plru_wf_def)
  obtain idx ti where w: "rfold (plru_victim_step (2 ^ ?n) ?tree) (0, 0) [0..<?n] = Inr (idx, ti)"
    "idx + 1 \<le> 2 ^ ?n" "if bit ?tree 0 then idx + 1 \<le> 2 ^ (?n - 1) else 2 ^ (?n - 1) \<le> idx"
    using plru_victim_walk [of ?n ?n ?tree, unfolded diff_self_eq_0 power_0] wf(2,3) by blast
  have "PseudoLRUPolicy_getVictim p st = Inr (min idx (m_assoc p - 1))"
    using wf w(1,2) by (simp add: PseudoLRUPolicy_getVictim_def at_pos_in min_def)
  moreover have "if bit ?tree 0 then idx < 2 ^ (?n - 1) else 2 ^ (?n - 1) \<le> idx"
    using w(3) by (cases "bit ?tree 0") simp_all
  ultimately show ?thesis using w(2) by (intro exI [of _ "min idx (m_assoc p - 1)"] exI [of _ idx]) simp
qed

lemma plru_touch_Inr:
  assumes "plru_wf p" and "st < m_num_sets p" and "index < m_assoc p"
  shows "\<exists>p'. PseudoLRUPolicy_touch p st index time = Inr p' \<and> plru_wf p' \<and> m_num_sets p' = m_num_sets p \<and>
    m_assoc p' = m_assoc p \<and> m_num_levels p' = m_num_levels p \<and>
    bit (m_trees p' ! st) 0 = odd (index div 2 ^ (m_num_levels p - 1))"
proof -
  have wf: "policy_wf p" "0 < m_num_levels p" "m_num_levels p \<le> 5" "st < length (m_trees p)"
    using assms by (simp_all add: plru_wf_def)
  obtain tree' ti' where w: "rfold (plru_touch_step index) (m_trees p ! st, 0) (rev [0..<m_num_levels p]) = Inr (tree', ti')"
    "bit tree' 0 = odd (index div 2 ^ (m_num_levels p - 1))"
    using plru_touch_root [OF wf(2,3)] by blast
  let ?q = "p\<lparr>m_trees := (m_trees p)[st := tree']\<rparr>"
  have q: "policy_wf ?q" "st < m_num_sets ?q" "index < m_assoc ?q" using wf(1) assms by (simp_all add: policy_wf_def)
  let ?r = "?q\<lparr>m_last_ref_ptr := (m_last_ref_ptr ?q)[st := (m_last_ref_ptr ?q ! st)[index := time]]\<rparr>"
  have "PseudoLRUPolicy_touch p st index time = Inr ?r"
    using assms w(1) wf(4) set_last_ref_Inr [OF q] by (simp add: PseudoLRUPolicy_touch_def at_pos_in)
  moreover have "plru_wf ?r" using set_last_ref_wf [OF q(1,2)] assms(1) by (simp add: plru_wf_def)
  ultimately show ?thesis using w(2) wf(4) by auto
qed

interpretation plru: victim_policy PseudoLRUPolicy_touch PseudoLRUPolicy_getVictim plru_wf m_num_sets m_assoc
proof
  show "\<exists>p'. PseudoLRUPolicy_touch p st w t = Inr p' \<and> plru_wf p' \<and> m_num_sets p' = m_num_sets p \<and> m_assoc p' = m_assoc p"
    if "plru_wf p" "st < m_num_sets p" "w < m_assoc p" for p st w t
    using plru_touch_Inr [OF that] by blast
  show "\<exists>v. PseudoLRUPolicy_getVictim p st = Inr v \<and> v < m_assoc p" if "plru_wf p" "st < m_num_sets p" for p st
    using plru_getVictim_Inr [OF that] that(1) by (auto simp: plru_wf_def policy_wf_def)
qed

section \<open>Correctness\<close>

text \<open>C12: the victim of the LRU policy is a way of the set whose last touch is the earliest (the first
  such way), and with more than one way it is never the way that was touched last.\<close>

theorem lru_victim_least_recent:
  assumes "policy_wf p" and "st < m_num_sets p" and "w < m_assoc p" and "1 < m_assoc p"
    and "\<forall>i < m_assoc p. i \<noteq> w \<longrightarrow> m_last_ref_ptr p ! st ! i < time"
  shows "(\<exists>v. LRUPolicy_getVictim p st = Inr v \<and> v < m_assoc p \<and>
      (\<forall>i < m_assoc p. m_last_ref_ptr p ! st ! v \<le> m_last_ref_ptr p ! st ! i) \<and>
      (\<forall>i < v. m_last_ref_ptr p ! st ! v < m_last_ref_ptr p ! st ! i)) \<and>
    (\<exists>p' v. LRUPolicy_touch p st w time = Inr p' \<and> LRUPolicy_getVictim p' st = Inr v \<and> v < m_assoc p \<and> v \<noteq> w)"
proof
  show "\<exists>v. LRUPolicy_getVictim p st = Inr v \<and> v < m_assoc p \<and>
      (\<forall>i < m_assoc p. m_last_ref_ptr p ! st ! v \<le> m_last_ref_ptr p ! st ! i) \<and>
      (\<forall>i < v. m_last_ref_ptr p ! st ! v < m_last_ref_ptr p ! st ! i)"
    using LRUPolicy_getVictim_Inr [OF assms(1,2)] by (auto simp: first_least_def)
next
  let ?row = "m_last_ref_ptr p ! st"
  let ?p = "p\<lparr>m_last_ref_ptr := (m_last_ref_ptr p)[st := ?row[w := time]]\<rparr>"
  obtain v where v: "LRUPolicy_getVictim ?p st = Inr v" "v < m_assoc ?p"
    "first_least (m_last_ref_ptr ?p ! st) (m_assoc ?p) v"
    using LRUPolicy_getVictim_Inr [of ?p st] set_last_ref_wf [OF assms(1,2)] assms(2) by auto
  have row: "m_last_ref_ptr ?p ! st = ?row[w := time]" "length ?row = m_assoc p"
    using assms(1,2) row_length [OF assms(1,2)] by (simp_all add: policy_wf_def)
  have least: "\<forall>i < m_assoc p. ?row[w := time] ! v \<le> ?row[w := time] ! i"
    using v(3) unfolding row(1) by (simp add: first_least_def)
  define u where "u = (if w = 0 then 1 else 0 :: nat)"
  have u: "u < m_assoc p" "u \<noteq> w" using assms(4) by (auto simp: u_def)
  have "v \<noteq> w"
  proof
    assume "v = w"
    then have "time \<le> ?row ! u" using least [rule_format, OF u(1)] u(2) assms(3) row(2) by simp
    then show False using assms(5) u by auto
  qed
  then show "\<exists>p' v. LRUPolicy_touch p st w time = Inr p' \<and> LRUPolicy_getVictim p' st = Inr v \<and> v < m_assoc p \<and> v \<noteq> w"
    using LRUPolicy_touch_Inr [OF assms(1-3)] v(1,2) by auto
qed

theorem lru_victim_least_recent_witness:
  "\<exists>p' v. LRUPolicy_touch (LRUPolicy_new 2 4) 1 0 500 = Inr p' \<and> LRUPolicy_getVictim p' 1 = Inr v \<and> v < 4 \<and> v \<noteq> 0"
proof -
  let ?p = "LRUPolicy_new 2 4"
  have p: "policy_wf ?p" "m_assoc ?p = 4" "m_num_sets ?p = 2" "\<forall>i < 4. i \<noteq> 0 \<longrightarrow> m_last_ref_ptr ?p ! 1 ! i < 500"
    using LRUPolicy_new_wf [of 4 2] by (simp_all add: LRUPolicy_new_def AbstractReplacementPolicy_new_def)
  then show ?thesis using lru_victim_least_recent [of ?p 1 0 500] by simp
qed

text \<open>C31: with the pseudo-LRU policy, for every associativity (also one that is not a power of two), the
  way touched last is not the next victim of its set, and the victim is a way of the set.\<close>

theorem plru_victim_not_touched:
  assumes "plru_wf p" and "st < m_num_sets p" and "w < m_assoc p"
  shows "\<exists>p' v. PseudoLRUPolicy_touch p st w time = Inr p' \<and> plru_wf p' \<and>
    PseudoLRUPolicy_getVictim p' st = Inr v \<and> v < m_assoc p \<and> v \<noteq> w"
proof -
  let ?n = "m_num_levels p"
  have n: "0 < ?n" "2 ^ (?n - 1) < m_assoc p" "m_assoc p \<le> 2 ^ ?n" using assms(1) by (simp_all add: plru_wf_def)
  obtain p' where p': "PseudoLRUPolicy_touch p st w time = Inr p'" "plru_wf p'" "m_num_sets p' = m_num_sets p"
    "m_assoc p' = m_assoc p" "m_num_levels p' = ?n" "bit (m_trees p' ! st) 0 = odd (w div 2 ^ (?n - 1))"
    using plru_touch_Inr [OF assms] by blast
  obtain idx where v: "PseudoLRUPolicy_getVictim p' st = Inr (min idx (m_assoc p - 1))"
    "if odd (w div 2 ^ (?n - 1)) then idx < 2 ^ (?n - 1) else 2 ^ (?n - 1) \<le> idx"
    using plru_getVictim_Inr [OF p'(2), of st] assms(2) unfolding p'(3-6) by blast
  have "min idx (m_assoc p - 1) \<noteq> w"
  proof (cases "w < 2 ^ (?n - 1)")
    case True
    then show ?thesis using v(2) n(2) by (auto simp: min_def)
  next
    case False
    have "w < 2 * 2 ^ (?n - 1)" using assms(3) n(1,3) by (simp flip: power_Suc)
    then have "w div 2 ^ (?n - 1) = 1" using False by (intro div_nat_eqI) auto
    then show ?thesis using v(2) False by (auto simp: min_def)
  qed
  moreover have "min idx (m_assoc p - 1) < m_assoc p" using assms(3) by linarith
  ultimately show ?thesis using p'(1,2) v(1) by blast
qed

theorem plru_victim_not_touched_witness:
  "\<exists>p p' v. PseudoLRUPolicy_new 2 3 = Inr p \<and> PseudoLRUPolicy_touch p 1 2 500 = Inr p' \<and>
     PseudoLRUPolicy_getVictim p' 1 = Inr v \<and> v < 3 \<and> v \<noteq> 2"
proof -
  obtain p where p: "PseudoLRUPolicy_new 2 3 = Inr p" "plru_wf p" "m_num_sets p = 2" "m_assoc p = 3"
    using PseudoLRUPolicy_new_wf [of 2 3] by auto
  then show ?thesis using plru_victim_not_touched [of p 1 2 500] by auto
qed

end
