(* ===== verification/Cache_Memory.thy ===== *)
theory Cache_Memory
  imports Ruby_Address Data_Block Replacement_Policy
begin

text \<open>
  The set-associative caches: \<open>CacheMemory\<close> of src/gem5-stable/src/mem/ruby/structures/CacheMemory.hh and
  CacheMemory.cc with its entries (slicc_interface/AbstractEntry.hh, AbstractCacheEntry.hh and .cc) and
  the banks of its arrays (structures/BankedArray.hh and .cc). The hash map of the tags is a partial
  function, a null pointer \<open>None\<close>, and the number -1 for a tag that is not found \<open>None\<close>.
\<close>

section \<open>Entries\<close>

datatype access_permission =
    AccessPermission_Read_Only | AccessPermission_Read_Write | AccessPermission_Maybe_Stale
  | AccessPermission_Backing_Store | AccessPermission_Invalid | AccessPermission_NotPresent
  | AccessPermission_Busy

datatype request_type =
    RubyRequestType_LD | RubyRequestType_ST | RubyRequestType_ATOMIC | RubyRequestType_IFETCH
  | RubyRequestType_IO | RubyRequestType_REPLACEMENT | RubyRequestType_Load_Linked
  | RubyRequestType_Store_Conditional | RubyRequestType_RMW_Read | RubyRequestType_RMW_Write
  | RubyRequestType_Locked_RMW_Read | RubyRequestType_Locked_RMW_Write | RubyRequestType_LD_APPROX
  | RubyRequestType_ST_APPROX | RubyRequestType_LD_SHARED | RubyRequestType_ST_SHARED
  | RubyRequestType_COMMIT | RubyRequestType_NULL | RubyRequestType_FLUSH

text \<open>The data block is a field of the entry classes that the protocol compiler generates.\<close>

record cache_entry =
  m_Permission :: access_permission
  m_Address :: addr
  m_locked :: int
  DataBlk :: data_block

definition AbstractCacheEntry_new :: "data_block \<Rightarrow> cache_entry" where
  "AbstractCacheEntry_new d = \<lparr>m_Permission = AccessPermission_NotPresent, m_Address = 0, m_locked = - 1, DataBlk = d\<rparr>"

definition AbstractEntry_changePermission :: "cache_entry \<Rightarrow> access_permission \<Rightarrow> cache_entry" where
  "AbstractEntry_changePermission e new_perm = e\<lparr>m_Permission := new_perm\<rparr>"

definition AbstractCacheEntry_changePermission :: "cache_entry \<Rightarrow> access_permission \<Rightarrow> cache_entry" where
  "AbstractCacheEntry_changePermission e new_perm =
     (let e' = AbstractEntry_changePermission e new_perm
      in if new_perm = AccessPermission_Invalid \<or> new_perm = AccessPermission_NotPresent
         then e'\<lparr>m_locked := - 1\<rparr> else e')"

section \<open>Banks\<close>

record access_record =
  ar_idx :: int
  startAccess :: tick
  endAccess :: tick

record banked_array =
  banks :: nat
  accessLatency :: cycles
  bankBits :: nat
  startIndexBit :: nat
  busyBanks :: "access_record list"

definition BankedArray_new :: "nat \<Rightarrow> cycles \<Rightarrow> nat \<Rightarrow> nat \<Rightarrow> banked_array result" where
  "BankedArray_new n latency start raw_bits =
     rbind (if n \<noteq> 0 then floorLog2 (word_of_nat n) else Inr raw_bits) (\<lambda>bits.
     Inr \<lparr>banks = n, accessLatency = latency, bankBits = bits, startIndexBit = start,
          busyBanks = replicate n \<lparr>ar_idx = 0, startAccess = 0, endAccess = 0\<rparr>\<rparr>)"

definition mapIndexToBank :: "banked_array \<Rightarrow> nat \<Rightarrow> nat result" where
  "mapIndexToBank b idx = (if banks b = 1 then Inr 0 else ensure (banks b \<noteq> 0) DivisionByZero (Inr (idx mod banks b)))"

definition BankedArray_tryAccess :: "tick \<Rightarrow> tick \<Rightarrow> banked_array \<Rightarrow> nat \<Rightarrow> (bool \<times> banked_array) result" where
  "BankedArray_tryAccess now period b idx =
     (if accessLatency b = 0 then Inr (True, b)
      else rbind (mapIndexToBank b idx) (\<lambda>bank. ensure (bank < banks b) AssertFailed (
        rbind (at_pos (busyBanks b) bank) (\<lambda>r.
        if now \<le> endAccess r
        then Inr (startAccess r = now \<and> ar_idx r = int idx, b)
        else Inr (True, b\<lparr>busyBanks := (busyBanks b)[bank :=
               \<lparr>ar_idx = int idx, startAccess = now, endAccess = now + (accessLatency b - 1) * period\<rparr>]\<rparr>)))))"

section \<open>The cache\<close>

datatype replacement_policy = LRU policy | PSEUDO_LRU plru_policy

definition policy_touch :: "replacement_policy \<Rightarrow> nat \<Rightarrow> nat \<Rightarrow> tick \<Rightarrow> replacement_policy result" where
  "policy_touch rp st way time = (case rp of LRU p \<Rightarrow> rmap LRU (LRUPolicy_touch p st way time)
     | PSEUDO_LRU p \<Rightarrow> rmap PSEUDO_LRU (PseudoLRUPolicy_touch p st way time))"

definition policy_getVictim :: "replacement_policy \<Rightarrow> nat \<Rightarrow> nat result" where
  "policy_getVictim rp st = (case rp of LRU p \<Rightarrow> LRUPolicy_getVictim p st
     | PSEUDO_LRU p \<Rightarrow> PseudoLRUPolicy_getVictim p st)"

definition policy_getLastAccess :: "replacement_policy \<Rightarrow> nat \<Rightarrow> nat \<Rightarrow> tick result" where
  "policy_getLastAccess rp st way = (case rp of LRU p \<Rightarrow> getLastAccess p st way
     | PSEUDO_LRU p \<Rightarrow> getLastAccess p st way)"

record cache_memory =
  m_latency :: cycles
  m_is_instruction_only_cache :: bool
  m_tag_index :: "addr \<Rightarrow> nat option"
  m_cache :: "cache_entry option list list"
  m_replacementPolicy_ptr :: "replacement_policy option"
  dataArray :: banked_array
  tagArray :: banked_array
  m_cache_size :: nat
  m_policy :: string
  m_cache_num_sets :: nat
  m_cache_num_set_bits :: nat
  m_cache_assoc :: nat
  m_start_index_bit :: nat
  m_resource_stalls :: bool
  numDataArrayReads :: nat
  numDataArrayWrites :: nat
  numTagArrayReads :: nat
  numTagArrayWrites :: nat
  numTagArrayStalls :: nat
  numDataArrayStalls :: nat

text \<open>The constructor; the parameters are those of structures/Cache.py, with sizes and numbers that are
  not negative. The members set by \<open>init\<close> are still empty.\<close>

definition CacheMemory_new :: "nat \<Rightarrow> cycles \<Rightarrow> nat \<Rightarrow> string \<Rightarrow> nat \<Rightarrow> bool \<Rightarrow> bool \<Rightarrow> banked_array \<Rightarrow> banked_array \<Rightarrow> cache_memory" where
  "CacheMemory_new sz latency assoc policy start_index_bit is_icache resourceStalls da ta =
     \<lparr>m_latency = latency, m_is_instruction_only_cache = is_icache, m_tag_index = (\<lambda>_. None), m_cache = [],
      m_replacementPolicy_ptr = None, dataArray = da, tagArray = ta, m_cache_size = sz, m_policy = policy,
      m_cache_num_sets = 0, m_cache_num_set_bits = 0, m_cache_assoc = assoc, m_start_index_bit = start_index_bit,
      m_resource_stalls = resourceStalls, numDataArrayReads = 0, numDataArrayWrites = 0, numTagArrayReads = 0,
      numTagArrayWrites = 0, numTagArrayStalls = 0, numDataArrayStalls = 0\<rparr>"

definition CacheMemory_init :: "ruby_system \<Rightarrow> cache_memory \<Rightarrow> cache_memory result" where
  "CacheMemory_init rs c =
     ensure (m_cache_assoc c \<noteq> 0 \<and> block_size rs \<noteq> 0) DivisionByZero (
     let num_sets = (m_cache_size c div m_cache_assoc c) div block_size rs
     in ensure (1 < num_sets) AssertFailed (
        rbind (floorLog2 (word_of_nat num_sets)) (\<lambda>bits. ensure (0 < bits) AssertFailed (
        rbind (if m_policy c = ''PSEUDO_LRU'' then rmap PSEUDO_LRU (PseudoLRUPolicy_new num_sets (m_cache_assoc c))
               else if m_policy c = ''LRU'' then Inr (LRU (LRUPolicy_new num_sets (m_cache_assoc c)))
               else Inl AssertFailed) (\<lambda>rp.
        Inr (c\<lparr>m_cache_num_sets := num_sets, m_cache_num_set_bits := bits, m_replacementPolicy_ptr := Some rp,
               m_cache := replicate num_sets (replicate (m_cache_assoc c) None)\<rparr>))))))"

definition addressToCacheSet :: "ruby_system \<Rightarrow> cache_memory \<Rightarrow> addr \<Rightarrow> nat result" where
  "addressToCacheSet rs c address =
     ensure (address = line_address rs address) AssertFailed (
     rbind (bitSelect address (m_start_index_bit c) (m_start_index_bit c + m_cache_num_set_bits c - 1)) (\<lambda>w. Inr (unat w)))"

text \<open>The element \<open>m_cache[cacheSet][i]\<close>, and the assignment to it.\<close>

definition cache_at :: "cache_memory \<Rightarrow> nat \<Rightarrow> nat \<Rightarrow> cache_entry option result" where
  "cache_at c cacheSet i = rbind (at_pos (m_cache c) cacheSet) (\<lambda>s. at_pos s i)"

definition cache_put :: "cache_memory \<Rightarrow> nat \<Rightarrow> nat \<Rightarrow> cache_entry option \<Rightarrow> cache_memory result" where
  "cache_put c cacheSet i e = rbind (at_pos (m_cache c) cacheSet) (\<lambda>s. rbind (set_pos s i e) (\<lambda>s'.
     Inr (c\<lparr>m_cache := (m_cache c)[cacheSet := s']\<rparr>)))"

definition findTagInSet :: "ruby_system \<Rightarrow> cache_memory \<Rightarrow> nat \<Rightarrow> addr \<Rightarrow> nat option result" where
  "findTagInSet rs c cacheSet tag =
     ensure (tag = line_address rs tag) AssertFailed (
     case m_tag_index c tag of
       None \<Rightarrow> Inr None
     | Some i \<Rightarrow> rbind (cache_at c cacheSet i) (\<lambda>p. rbind (deref p) (\<lambda>e.
         Inr (if m_Permission e \<noteq> AccessPermission_NotPresent then Some i else None))))"

definition findTagInSetIgnorePermissions :: "ruby_system \<Rightarrow> cache_memory \<Rightarrow> nat \<Rightarrow> addr \<Rightarrow> nat option result" where
  "findTagInSetIgnorePermissions rs c cacheSet tag =
     ensure (tag = line_address rs tag) AssertFailed (Inr (m_tag_index c tag))"

text \<open>The location of an address, as most operations compute it first.\<close>

definition find_line :: "ruby_system \<Rightarrow> cache_memory \<Rightarrow> addr \<Rightarrow> (nat \<times> nat option) result" where
  "find_line rs c address = rbind (addressToCacheSet rs c address) (\<lambda>cacheSet.
     rbind (findTagInSet rs c cacheSet address) (\<lambda>loc. Inr (cacheSet, loc)))"

definition touch_way :: "tick \<Rightarrow> cache_memory \<Rightarrow> nat \<Rightarrow> nat \<Rightarrow> cache_memory result" where
  "touch_way now c cacheSet loc = rbind (deref (m_replacementPolicy_ptr c)) (\<lambda>rp.
     rbind (policy_touch rp cacheSet loc now) (\<lambda>rp'. Inr (c\<lparr>m_replacementPolicy_ptr := Some rp'\<rparr>)))"

definition tryCacheAccess :: "tick \<Rightarrow> ruby_system \<Rightarrow> cache_memory \<Rightarrow> addr \<Rightarrow> request_type \<Rightarrow>
    (bool \<times> data_block option \<times> cache_memory) result" where
  "tryCacheAccess now rs c address ty =
     ensure (address = line_address rs address) AssertFailed (
     rbind (find_line rs c address) (\<lambda>(cacheSet, loc). case loc of
       None \<Rightarrow> Inr (False, None, c)
     | Some i \<Rightarrow> rbind (cache_at c cacheSet i) (\<lambda>p. rbind (touch_way now c cacheSet i) (\<lambda>c'. rbind (deref p) (\<lambda>e.
         if m_Permission e = AccessPermission_Read_Write then Inr (True, Some (DataBlk e), c')
         else if m_Permission e = AccessPermission_Read_Only \<and> (ty = RubyRequestType_LD \<or> ty = RubyRequestType_IFETCH)
         then Inr (True, Some (DataBlk e), c')
         else Inr (False, None, c'))))))"

definition testCacheAccess :: "tick \<Rightarrow> ruby_system \<Rightarrow> cache_memory \<Rightarrow> addr \<Rightarrow> request_type \<Rightarrow>
    (bool \<times> data_block option \<times> cache_memory) result" where
  "testCacheAccess now rs c address ty =
     ensure (address = line_address rs address) AssertFailed (
     rbind (find_line rs c address) (\<lambda>(cacheSet, loc). case loc of
       None \<Rightarrow> Inr (False, None, c)
     | Some i \<Rightarrow> rbind (cache_at c cacheSet i) (\<lambda>p. rbind (touch_way now c cacheSet i) (\<lambda>c'. rbind (deref p) (\<lambda>e.
         Inr (m_Permission e \<noteq> AccessPermission_NotPresent, Some (DataBlk e), c'))))))"

definition isTagPresent :: "ruby_system \<Rightarrow> cache_memory \<Rightarrow> addr \<Rightarrow> bool result" where
  "isTagPresent rs c address = ensure (address = line_address rs address) AssertFailed (
     rbind (find_line rs c address) (\<lambda>(_, loc). Inr (loc \<noteq> None)))"

fun avail_scan :: "cache_memory \<Rightarrow> nat \<Rightarrow> addr \<Rightarrow> nat list \<Rightarrow> bool result" where
  "avail_scan c cacheSet address [] = Inr False"
| "avail_scan c cacheSet address (i # is) = rbind (cache_at c cacheSet i) (\<lambda>p. case p of
     None \<Rightarrow> Inr True
   | Some e \<Rightarrow> if m_Address e = address \<or> m_Permission e = AccessPermission_NotPresent then Inr True
               else avail_scan c cacheSet address is)"

definition cacheAvail :: "ruby_system \<Rightarrow> cache_memory \<Rightarrow> addr \<Rightarrow> bool result" where
  "cacheAvail rs c address = ensure (address = line_address rs address) AssertFailed (
     rbind (addressToCacheSet rs c address) (\<lambda>cacheSet. avail_scan c cacheSet address [0..<m_cache_assoc c]))"

text \<open>The first open slot, at which \<open>allocate\<close> stores the entry.\<close>

fun open_slot :: "cache_memory \<Rightarrow> nat \<Rightarrow> nat list \<Rightarrow> nat option result" where
  "open_slot c cacheSet [] = Inr None"
| "open_slot c cacheSet (i # is) = rbind (cache_at c cacheSet i) (\<lambda>p. case p of
     None \<Rightarrow> Inr (Some i)
   | Some e \<Rightarrow> if m_Permission e = AccessPermission_NotPresent then Inr (Some i) else open_slot c cacheSet is)"

definition CacheMemory_allocate :: "tick \<Rightarrow> ruby_system \<Rightarrow> cache_memory \<Rightarrow> addr \<Rightarrow> cache_entry \<Rightarrow>
    (cache_entry \<times> cache_memory) result" where
  "CacheMemory_allocate now rs c address entry =
     ensure (address = line_address rs address) AssertFailed (
     rbind (isTagPresent rs c address) (\<lambda>present. ensure (\<not> present) AssertFailed (
     rbind (cacheAvail rs c address) (\<lambda>avail. ensure avail AssertFailed (
     rbind (addressToCacheSet rs c address) (\<lambda>cacheSet.
     rbind (open_slot c cacheSet [0..<m_cache_assoc c]) (\<lambda>slot. case slot of
       None \<Rightarrow> Inl Panicked
     | Some i \<Rightarrow>
         let e = entry\<lparr>m_Address := address, m_Permission := AccessPermission_Invalid, m_locked := - 1\<rparr>
         in rbind (cache_put c cacheSet i (Some e)) (\<lambda>c1.
            rbind (touch_way now (c1\<lparr>m_tag_index := (m_tag_index c1)(address := Some i)\<rparr>) cacheSet i) (\<lambda>c2.
            Inr (e, c2))))))))))"

definition CacheMemory_deallocate :: "ruby_system \<Rightarrow> cache_memory \<Rightarrow> addr \<Rightarrow> cache_memory result" where
  "CacheMemory_deallocate rs c address =
     ensure (address = line_address rs address) AssertFailed (
     rbind (isTagPresent rs c address) (\<lambda>present. ensure present AssertFailed (
     rbind (find_line rs c address) (\<lambda>(cacheSet, loc). case loc of
       None \<Rightarrow> Inr c
     | Some i \<Rightarrow> rbind (cache_put c cacheSet i None) (\<lambda>c1. Inr (c1\<lparr>m_tag_index := (m_tag_index c1)(address := None)\<rparr>))))))"

definition cacheProbe :: "ruby_system \<Rightarrow> cache_memory \<Rightarrow> addr \<Rightarrow> addr result" where
  "cacheProbe rs c address =
     ensure (address = line_address rs address) AssertFailed (
     rbind (cacheAvail rs c address) (\<lambda>avail. ensure (\<not> avail) AssertFailed (
     rbind (addressToCacheSet rs c address) (\<lambda>cacheSet.
     rbind (deref (m_replacementPolicy_ptr c)) (\<lambda>rp.
     rbind (policy_getVictim rp cacheSet) (\<lambda>victim.
     rbind (cache_at c cacheSet victim) (\<lambda>p. rbind (deref p) (\<lambda>e. Inr (m_Address e)))))))))"

definition CacheMemory_lookup :: "ruby_system \<Rightarrow> cache_memory \<Rightarrow> addr \<Rightarrow> cache_entry option result" where
  "CacheMemory_lookup rs c address =
     ensure (address = line_address rs address) AssertFailed (
     rbind (find_line rs c address) (\<lambda>(cacheSet, loc). case loc of None \<Rightarrow> Inr None | Some i \<Rightarrow> cache_at c cacheSet i))"

definition setMRU :: "tick \<Rightarrow> ruby_system \<Rightarrow> cache_memory \<Rightarrow> addr \<Rightarrow> cache_memory result" where
  "setMRU now rs c address = rbind (find_line rs c address) (\<lambda>(cacheSet, loc). case loc of
     None \<Rightarrow> Inr c | Some i \<Rightarrow> touch_way now c cacheSet i)"

text \<open>The line of an address that must be in the cache, and a change of its entry.\<close>

definition present_line :: "ruby_system \<Rightarrow> cache_memory \<Rightarrow> addr \<Rightarrow> (nat \<times> nat \<times> cache_entry) result" where
  "present_line rs c address = ensure (address = line_address rs address) AssertFailed (
     rbind (find_line rs c address) (\<lambda>(cacheSet, loc). case loc of None \<Rightarrow> Inl AssertFailed
     | Some i \<Rightarrow> rbind (cache_at c cacheSet i) (\<lambda>p. rbind (deref p) (\<lambda>e. Inr (cacheSet, i, e)))))"

definition setLocked :: "ruby_system \<Rightarrow> cache_memory \<Rightarrow> addr \<Rightarrow> int \<Rightarrow> cache_memory result" where
  "setLocked rs c address context = rbind (present_line rs c address) (\<lambda>(cacheSet, i, e).
     cache_put c cacheSet i (Some (e\<lparr>m_locked := context\<rparr>)))"

definition clearLocked :: "ruby_system \<Rightarrow> cache_memory \<Rightarrow> addr \<Rightarrow> cache_memory result" where
  "clearLocked rs c address = rbind (present_line rs c address) (\<lambda>(cacheSet, i, e).
     cache_put c cacheSet i (Some (e\<lparr>m_locked := - 1\<rparr>)))"

definition isLocked :: "ruby_system \<Rightarrow> cache_memory \<Rightarrow> addr \<Rightarrow> int \<Rightarrow> bool result" where
  "isLocked rs c address context = rbind (present_line rs c address) (\<lambda>(cacheSet, i, e). Inr (m_locked e = context))"

text \<open>The records given to the cache recorder: address, request type, time and data.\<close>

definition recordCacheContents :: "cache_memory \<Rightarrow> (addr \<times> request_type \<times> tick \<times> data_block) list result" where
  "recordCacheContents c = rfold (\<lambda>tr (i, j). rbind (cache_at c i j) (\<lambda>p. case p of
       None \<Rightarrow> Inr tr
     | Some e \<Rightarrow>
         let request_type =
           (if m_Permission e = AccessPermission_Read_Only
            then if m_is_instruction_only_cache c then RubyRequestType_IFETCH else RubyRequestType_LD
            else if m_Permission e = AccessPermission_Read_Write then RubyRequestType_ST else RubyRequestType_NULL)
         in if request_type \<noteq> RubyRequestType_NULL
            then rbind (deref (m_replacementPolicy_ptr c)) (\<lambda>rp. rbind (policy_getLastAccess rp i j) (\<lambda>t.
                 Inr (tr @ [(m_Address e, request_type, t, DataBlk e)])))
            else Inr tr))
     [] (List.product [0..<m_cache_num_sets c] [0..<m_cache_assoc c])"

datatype cache_request_type =
    CacheRequestType_DataArrayRead | CacheRequestType_DataArrayWrite | CacheRequestType_TagArrayRead
  | CacheRequestType_TagArrayWrite

datatype cache_resource_type = CacheResourceType_DataArray | CacheResourceType_TagArray

definition recordRequestType :: "cache_memory \<Rightarrow> cache_request_type \<Rightarrow> cache_memory" where
  "recordRequestType c ty = (case ty of
     CacheRequestType_DataArrayRead \<Rightarrow> c\<lparr>numDataArrayReads := numDataArrayReads c + 1\<rparr>
   | CacheRequestType_DataArrayWrite \<Rightarrow> c\<lparr>numDataArrayWrites := numDataArrayWrites c + 1\<rparr>
   | CacheRequestType_TagArrayRead \<Rightarrow> c\<lparr>numTagArrayReads := numTagArrayReads c + 1\<rparr>
   | CacheRequestType_TagArrayWrite \<Rightarrow> c\<lparr>numTagArrayWrites := numTagArrayWrites c + 1\<rparr>)"

definition checkResourceAvailable :: "tick \<Rightarrow> tick \<Rightarrow> ruby_system \<Rightarrow> cache_memory \<Rightarrow> cache_resource_type \<Rightarrow> addr \<Rightarrow>
    (bool \<times> cache_memory) result" where
  "checkResourceAvailable now period rs c res address =
     (if \<not> m_resource_stalls c then Inr (True, c)
      else rbind (addressToCacheSet rs c address) (\<lambda>st. case res of
        CacheResourceType_TagArray \<Rightarrow> rbind (BankedArray_tryAccess now period (tagArray c) st) (\<lambda>(ok, ta).
          if ok then Inr (True, c\<lparr>tagArray := ta\<rparr>)
          else Inr (False, c\<lparr>tagArray := ta, numTagArrayStalls := numTagArrayStalls c + 1\<rparr>))
      | CacheResourceType_DataArray \<Rightarrow> rbind (BankedArray_tryAccess now period (dataArray c) st) (\<lambda>(ok, da).
          if ok then Inr (True, c\<lparr>dataArray := da\<rparr>)
          else Inr (False, c\<lparr>dataArray := da, numDataArrayStalls := numDataArrayStalls c + 1\<rparr>))))"

section \<open>The invariant\<close>

definition rp_wf :: "replacement_policy \<Rightarrow> bool" where
  "rp_wf rp \<longleftrightarrow> (case rp of LRU p \<Rightarrow> policy_wf p | PSEUDO_LRU p \<Rightarrow> plru_wf p)"

definition rp_sets :: "replacement_policy \<Rightarrow> nat" where
  "rp_sets rp = (case rp of LRU p \<Rightarrow> m_num_sets p | PSEUDO_LRU p \<Rightarrow> m_num_sets p)"

definition rp_ways :: "replacement_policy \<Rightarrow> nat" where
  "rp_ways rp = (case rp of LRU p \<Rightarrow> m_assoc p | PSEUDO_LRU p \<Rightarrow> m_assoc p)"

interpretation rp: victim_policy policy_touch policy_getVictim rp_wf rp_sets rp_ways
proof
  show "\<exists>p'. policy_touch p st w t = Inr p' \<and> rp_wf p' \<and> rp_sets p' = rp_sets p \<and> rp_ways p' = rp_ways p"
    if "rp_wf p" "st < rp_sets p" "w < rp_ways p" for p st w t
  proof (cases p)
    case (LRU q)
    then show ?thesis using that lru.touch_law [of q st w t] by (auto simp: policy_touch_def rp_wf_def rp_sets_def rp_ways_def)
  next
    case (PSEUDO_LRU q)
    then show ?thesis using that plru.touch_law [of q st w t] by (auto simp: policy_touch_def rp_wf_def rp_sets_def rp_ways_def)
  qed
  show "\<exists>v. policy_getVictim p st = Inr v \<and> v < rp_ways p" if "rp_wf p" "st < rp_sets p" for p st
  proof (cases p)
    case (LRU q)
    then show ?thesis using that lru.victim_law [of q st] by (simp add: policy_getVictim_def rp_wf_def rp_sets_def rp_ways_def)
  next
    case (PSEUDO_LRU q)
    then show ?thesis using that plru.victim_law [of q st] by (simp add: policy_getVictim_def rp_wf_def rp_sets_def rp_ways_def)
  qed
qed

definition cache_geometry :: "cache_memory \<Rightarrow> bool" where
  "cache_geometry c \<longleftrightarrow> length (m_cache c) = m_cache_num_sets c \<and> (\<forall>s \<in> set (m_cache c). length s = m_cache_assoc c) \<and>
     0 < m_cache_assoc c \<and> 0 < m_cache_num_set_bits c \<and> 2 ^ m_cache_num_set_bits c \<le> m_cache_num_sets c \<and>
     m_start_index_bit c < 64 \<and>
     (\<exists>rp. m_replacementPolicy_ptr c = Some rp \<and> rp_wf rp \<and> rp_sets rp = m_cache_num_sets c \<and> rp_ways rp = m_cache_assoc c)"

definition cache_set :: "cache_memory \<Rightarrow> addr \<Rightarrow> nat" where
  "cache_set c a = (unat a div 2 ^ m_start_index_bit c) mod 2 ^ m_cache_num_set_bits c"

text \<open>The tag index points exactly to the entries, every entry is in the set of its address, and no
  entry has the permission \<open>NotPresent\<close>, which the code treats as a free way.\<close>

definition cache_inv :: "ruby_system \<Rightarrow> cache_memory \<Rightarrow> bool" where
  "cache_inv rs c \<longleftrightarrow> cache_geometry c \<and>
     (\<forall>a i. m_tag_index c a = Some i \<longrightarrow> i < m_cache_assoc c \<and>
        (\<exists>e. m_cache c ! cache_set c a ! i = Some e \<and> m_Address e = a)) \<and>
     (\<forall>st < m_cache_num_sets c. \<forall>i < m_cache_assoc c. \<forall>e. m_cache c ! st ! i = Some e \<longrightarrow>
        m_tag_index c (m_Address e) = Some i \<and> cache_set c (m_Address e) = st \<and>
        m_Address e = line_address rs (m_Address e) \<and> m_Permission e \<noteq> AccessPermission_NotPresent)"

text \<open>The contents of the cache.\<close>

definition cache_map :: "cache_memory \<Rightarrow> addr \<Rightarrow> cache_entry option" where
  "cache_map c a = (case m_tag_index c a of None \<Rightarrow> None | Some i \<Rightarrow> m_cache c ! cache_set c a ! i)"

definition free_way :: "cache_memory \<Rightarrow> addr \<Rightarrow> bool" where
  "free_way c a \<longleftrightarrow> (\<exists>i < m_cache_assoc c. m_cache c ! cache_set c a ! i = None)"

lemma cache_set_less: "cache_geometry c \<Longrightarrow> cache_set c a < m_cache_num_sets c"
proof -
  assume "cache_geometry c"
  then have "2 ^ m_cache_num_set_bits c \<le> m_cache_num_sets c" by (simp add: cache_geometry_def)
  moreover have "cache_set c a < 2 ^ m_cache_num_set_bits c" by (simp add: cache_set_def)
  ultimately show ?thesis by linarith
qed

lemma addressToCacheSet_Inr:
  assumes "cache_geometry c" and "a = line_address rs a"
  shows "addressToCacheSet rs c a = Inr (cache_set c a)"
proof -
  let ?s = "m_start_index_bit c" and ?b = "m_cache_num_set_bits c"
  have "?s \<le> ?s + ?b - 1" "?s < 64" "?s + ?b - 1 + 1 - ?s = ?b" using assms(1) by (auto simp: cache_geometry_def)
  then obtain w where "bitSelect a ?s (?s + ?b - 1) = Inr w" "unat w = cache_set c a"
    using bitSelect_value [of ?s "?s + ?b - 1" a] by (auto simp: cache_set_def)
  then show ?thesis using assms(2) by (simp add: addressToCacheSet_def)
qed

lemma set_length: "cache_geometry c \<Longrightarrow> st < m_cache_num_sets c \<Longrightarrow> length (m_cache c ! st) = m_cache_assoc c"
  by (simp add: cache_geometry_def)

lemma cache_at_Inr:
  "cache_geometry c \<Longrightarrow> st < m_cache_num_sets c \<Longrightarrow> i < m_cache_assoc c \<Longrightarrow> cache_at c st i = Inr (m_cache c ! st ! i)"
  using set_length by (simp add: cache_at_def at_pos_in cache_geometry_def)

lemma cache_put_Inr:
  assumes "cache_geometry c" and "st < m_cache_num_sets c" and "i < m_cache_assoc c"
  shows "cache_put c st i e = Inr (c\<lparr>m_cache := (m_cache c)[st := (m_cache c ! st)[i := e]]\<rparr>)"
  using assms set_length [OF assms(1,2)] by (simp add: cache_put_def at_pos_in set_pos_in cache_geometry_def)

lemma cache_put_geometry:
  assumes "cache_geometry c" and "st < m_cache_num_sets c"
  shows "cache_geometry (c\<lparr>m_cache := (m_cache c)[st := (m_cache c ! st)[i := e]]\<rparr>)"
proof -
  have "length s = m_cache_assoc c" if "s \<in> set ((m_cache c)[st := (m_cache c ! st)[i := e]])" for s
    using that set_length [OF assms] assms set_update_subset_insert [THEN subsetD, OF that] by (auto simp: cache_geometry_def)
  then show ?thesis using assms(1) by (simp add: cache_geometry_def)
qed

lemma touch_way_Inr:
  assumes "cache_geometry c" and "st < m_cache_num_sets c" and "i < m_cache_assoc c"
  shows "\<exists>rp. touch_way now c st i = Inr (c\<lparr>m_replacementPolicy_ptr := Some rp\<rparr>) \<and>
    cache_geometry (c\<lparr>m_replacementPolicy_ptr := Some rp\<rparr>)"
proof -
  obtain rp where rp: "m_replacementPolicy_ptr c = Some rp" "rp_wf rp" "rp_sets rp = m_cache_num_sets c"
    "rp_ways rp = m_cache_assoc c"
    using assms(1) by (auto simp: cache_geometry_def)
  obtain rp' where "policy_touch rp st i now = Inr rp'" "rp_wf rp'" "rp_sets rp' = rp_sets rp" "rp_ways rp' = rp_ways rp"
    using rp.touch_law [OF rp(2), of st i now] rp(3,4) assms(2,3) by auto
  then show ?thesis using assms(1) rp by (auto simp: touch_way_def cache_geometry_def)
qed

lemma cache_inv_geometry: "cache_inv rs c \<Longrightarrow> cache_geometry c"
  by (simp add: cache_inv_def)

lemma tag_entry:
  assumes "cache_inv rs c" and "m_tag_index c a = Some i"
  obtains e where "i < m_cache_assoc c" "m_cache c ! cache_set c a ! i = Some e" "m_Address e = a"
  using assms unfolding cache_inv_def by blast

lemma cache_map_Some:
  assumes "cache_inv rs c"
  shows "cache_map c a = Some e \<longleftrightarrow> (\<exists>i < m_cache_assoc c. m_tag_index c a = Some i \<and>
    m_cache c ! cache_set c a ! i = Some e \<and> m_Address e = a)"
proof
  assume l: "cache_map c a = Some e"
  then obtain i where i: "m_tag_index c a = Some i" "m_cache c ! cache_set c a ! i = Some e"
    by (auto simp: cache_map_def split: option.splits)
  obtain e' where "i < m_cache_assoc c" "m_cache c ! cache_set c a ! i = Some e'" "m_Address e' = a"
    by (rule tag_entry [OF assms i(1)])
  then show "\<exists>i < m_cache_assoc c. m_tag_index c a = Some i \<and> m_cache c ! cache_set c a ! i = Some e \<and> m_Address e = a"
    using i by auto
next
  assume "\<exists>i < m_cache_assoc c. m_tag_index c a = Some i \<and> m_cache c ! cache_set c a ! i = Some e \<and> m_Address e = a"
  then show "cache_map c a = Some e" by (auto simp: cache_map_def)
qed

lemma cache_map_None:
  assumes "cache_inv rs c"
  shows "cache_map c a = None \<longleftrightarrow> m_tag_index c a = None"
proof (cases "m_tag_index c a")
  case None
  then show ?thesis by (simp add: cache_map_def)
next
  case (Some i)
  then show ?thesis using tag_entry [OF assms Some] by (auto simp: cache_map_def)
qed

lemma cache_map_at:
  assumes "cache_inv rs c" and "st < m_cache_num_sets c" and "i < m_cache_assoc c" and "m_cache c ! st ! i = Some e"
  shows "cache_map c (m_Address e) = Some e" "cache_set c (m_Address e) = st" "m_tag_index c (m_Address e) = Some i"
    "m_Address e = line_address rs (m_Address e)" "m_Permission e \<noteq> AccessPermission_NotPresent"
  using assms unfolding cache_inv_def cache_map_def by auto

lemma find_line_Inr:
  assumes "cache_inv rs c" and "a = line_address rs a"
  shows "find_line rs c a = Inr (cache_set c a, m_tag_index c a)"
proof -
  note g = cache_inv_geometry [OF assms(1)]
  have "findTagInSet rs c (cache_set c a) a = Inr (m_tag_index c a)"
  proof (cases "m_tag_index c a")
    case None
    then show ?thesis using assms(2) by (simp add: findTagInSet_def)
  next
    case (Some i)
    obtain e where e: "i < m_cache_assoc c" "m_cache c ! cache_set c a ! i = Some e"
      by (rule tag_entry [OF assms(1) Some])
    have "cache_at c (cache_set c a) i = Inr (Some e)" using cache_at_Inr [OF g cache_set_less [OF g] e(1)] e(2) by simp
    moreover have "m_Permission e \<noteq> AccessPermission_NotPresent"
      using cache_map_at(5) [OF assms(1) cache_set_less [OF g] e] .
    ultimately show ?thesis using assms(2) Some by (simp add: findTagInSet_def)
  qed
  then show ?thesis using addressToCacheSet_Inr [OF g assms(2)] by (simp add: find_line_def)
qed

lemma isTagPresent_Inr:
  assumes "cache_inv rs c" and "a = line_address rs a"
  shows "isTagPresent rs c a = Inr (cache_map c a \<noteq> None)"
  using assms find_line_Inr [OF assms] cache_map_None [OF assms(1), of a] by (simp add: isTagPresent_def)

lemma CacheMemory_lookup_Inr:
  assumes "cache_inv rs c" and "a = line_address rs a"
  shows "CacheMemory_lookup rs c a = Inr (cache_map c a)"
proof (cases "m_tag_index c a")
  case None
  then show ?thesis
    using assms(2) find_line_Inr [OF assms] by (simp add: CacheMemory_lookup_def cache_map_def)
next
  case (Some i)
  have "i < m_cache_assoc c" using tag_entry [OF assms(1) Some] .
  then show ?thesis
    using assms(2) find_line_Inr [OF assms] Some cache_inv_geometry [OF assms(1)] cache_set_less cache_at_Inr
    by (simp add: CacheMemory_lookup_def cache_map_def)
qed

section \<open>Allocation and deallocation\<close>

lemma avail_scan_Inr:
  assumes "cache_inv rs c" and "st < m_cache_num_sets c" and "\<forall>i \<in> set js. i < m_cache_assoc c"
  shows "avail_scan c st a js = Inr (\<exists>i \<in> set js. m_cache c ! st ! i = None \<or> (\<exists>e. m_cache c ! st ! i = Some e \<and> m_Address e = a))"
  using assms(3)
proof (induction js)
  case Nil
  then show ?case by simp
next
  case (Cons i js)
  note at = cache_at_Inr [OF cache_inv_geometry [OF assms(1)] assms(2), of i]
  show ?case
  proof (cases "m_cache c ! st ! i")
    case None
    then show ?thesis using at Cons.prems by simp
  next
    case (Some e)
    have "m_Permission e \<noteq> AccessPermission_NotPresent" using cache_map_at(5) [OF assms(1,2) _ Some] Cons.prems by simp
    then show ?thesis using at Cons Some by (cases "m_Address e = a") simp_all
  qed
qed

lemma cacheAvail_Inr:
  assumes "cache_inv rs c" and "a = line_address rs a"
  shows "cacheAvail rs c a = Inr (free_way c a \<or> cache_map c a \<noteq> None)"
proof -
  note g = cache_inv_geometry [OF assms(1)]
  let ?st = "cache_set c a"
  have "(\<exists>i < m_cache_assoc c. \<exists>e. m_cache c ! ?st ! i = Some e \<and> m_Address e = a) \<longleftrightarrow> cache_map c a \<noteq> None"
  proof
    assume "\<exists>i < m_cache_assoc c. \<exists>e. m_cache c ! ?st ! i = Some e \<and> m_Address e = a"
    then obtain i e where "i < m_cache_assoc c" "m_cache c ! ?st ! i = Some e" "m_Address e = a" by blast
    then show "cache_map c a \<noteq> None" using cache_map_at(1) [OF assms(1) cache_set_less [OF g]] by fastforce
  next
    assume "cache_map c a \<noteq> None"
    then obtain e where "cache_map c a = Some e" by blast
    then show "\<exists>i < m_cache_assoc c. \<exists>e. m_cache c ! ?st ! i = Some e \<and> m_Address e = a"
      using cache_map_Some [OF assms(1)] by blast
  qed
  then have "(\<exists>i \<in> set [0..<m_cache_assoc c]. m_cache c ! ?st ! i = None \<or> (\<exists>e. m_cache c ! ?st ! i = Some e \<and> m_Address e = a))
      \<longleftrightarrow> free_way c a \<or> cache_map c a \<noteq> None"
    unfolding free_way_def by auto
  then show ?thesis
    using avail_scan_Inr [OF assms(1) cache_set_less [OF g], of "[0..<m_cache_assoc c]" a a] addressToCacheSet_Inr [OF g assms(2)] assms(2)
    by (simp add: cacheAvail_def)
qed

lemma open_slot_Inr:
  assumes "cache_inv rs c" and "st < m_cache_num_sets c" and "\<forall>i \<in> set js. i < m_cache_assoc c"
    and "\<exists>i \<in> set js. m_cache c ! st ! i = None"
  shows "\<exists>i \<in> set js. open_slot c st js = Inr (Some i) \<and> m_cache c ! st ! i = None"
  using assms(3,4)
proof (induction js)
  case Nil
  then show ?case by simp
next
  case (Cons i js)
  note at = cache_at_Inr [OF cache_inv_geometry [OF assms(1)] assms(2), of i]
  show ?case
  proof (cases "m_cache c ! st ! i")
    case None
    then show ?thesis using at Cons.prems by simp
  next
    case (Some e)
    have "m_Permission e \<noteq> AccessPermission_NotPresent" using cache_map_at(5) [OF assms(1,2) _ Some] Cons.prems by simp
    then have "open_slot c st (i # js) = open_slot c st js" using at Cons.prems Some by simp
    moreover have "\<exists>i \<in> set js. open_slot c st js = Inr (Some i) \<and> m_cache c ! st ! i = None"
      using Cons Some by auto
    ultimately show ?thesis by simp
  qed
qed

lemma cache_set_update [simp]:
  "cache_set (c\<lparr>m_cache := x\<rparr>) = cache_set c" "cache_set (c\<lparr>m_tag_index := y\<rparr>) = cache_set c"
  "cache_set (c\<lparr>m_replacementPolicy_ptr := z\<rparr>) = cache_set c"
  by (simp_all add: cache_set_def fun_eq_iff)

lemma slot_update:
  assumes "cache_geometry c" and "st < m_cache_num_sets c" and "i < m_cache_assoc c" and "st' < m_cache_num_sets c"
  shows "(m_cache c)[st := (m_cache c ! st)[i := x]] ! st' ! j = (if st' = st \<and> j = i then x else m_cache c ! st' ! j)"
  using assms set_length [OF assms(1,2)] by (auto simp: cache_geometry_def nth_list_update)

text \<open>Storing an entry in a free way, and removing one.\<close>

lemma insert_entry:
  assumes "cache_inv rs c" and "a = line_address rs a" and "m_tag_index c a = None" and "i < m_cache_assoc c"
    and "m_cache c ! cache_set c a ! i = None" and "m_Address e = a" and "m_Permission e \<noteq> AccessPermission_NotPresent"
    and c': "c' = c\<lparr>m_cache := (m_cache c)[cache_set c a := (m_cache c ! cache_set c a)[i := Some e]],
        m_tag_index := (m_tag_index c)(a := Some i), m_replacementPolicy_ptr := rp\<rparr>"
    and "cache_geometry c'"
  shows "cache_inv rs c' \<and> cache_map c' = (cache_map c)(a \<mapsto> e)"
proof -
  note g = cache_inv_geometry [OF assms(1)]
  have slot: "m_cache c' ! st ! j = (if st = cache_set c a \<and> j = i then Some e else m_cache c ! st ! j)"
    if "st < m_cache_num_sets c" for st j
    using slot_update [OF g cache_set_less [OF g] assms(4) that] by (simp add: c')
  have same: "cache_set c' = cache_set c" "m_cache_assoc c' = m_cache_assoc c" "m_cache_num_sets c' = m_cache_num_sets c"
    "m_tag_index c' = (m_tag_index c)(a := Some i)" by (simp_all add: c')
  have "j < m_cache_assoc c \<and> (\<exists>e'. m_cache c' ! cache_set c b ! j = Some e' \<and> m_Address e' = b)"
    if t: "m_tag_index c' b = Some j" for b j
  proof (cases "b = a")
    case True
    then show ?thesis using t assms(4,6) slot [OF cache_set_less [OF g]] by (auto simp: same)
  next
    case False
    then have "m_tag_index c b = Some j" using t by (simp add: same)
    from tag_entry [OF assms(1) this] obtain e' where
      "j < m_cache_assoc c" "m_cache c ! cache_set c b ! j = Some e'" "m_Address e' = b" .
    then show ?thesis using slot [OF cache_set_less [OF g, of b], of j] assms(5) by auto
  qed
  moreover have "m_tag_index c' (m_Address e') = Some j \<and> cache_set c (m_Address e') = st \<and>
      m_Address e' = line_address rs (m_Address e') \<and> m_Permission e' \<noteq> AccessPermission_NotPresent"
    if st: "st < m_cache_num_sets c" "j < m_cache_assoc c" and s: "m_cache c' ! st ! j = Some e'" for st j e'
  proof (cases "st = cache_set c a \<and> j = i")
    case True
    then show ?thesis using s slot [OF st(1), of j] assms(2,6,7) by (auto simp: same)
  next
    case False
    then have "m_cache c ! st ! j = Some e'" using s slot [OF st(1), of j] by auto
    note e' = cache_map_at [OF assms(1) st this]
    moreover have "m_Address e' \<noteq> a" using e'(3) assms(3) by auto
    ultimately show ?thesis by (simp add: same)
  qed
  ultimately have inv: "cache_inv rs c'" using assms(9) unfolding cache_inv_def same by blast
  have "cache_map c' b = ((cache_map c)(a \<mapsto> e)) b" for b
  proof (cases "b = a")
    case True
    then show ?thesis using slot [OF cache_set_less [OF g]] by (simp add: cache_map_def same)
  next
    case False
    show ?thesis
    proof (cases "m_tag_index c b")
      case None
      then show ?thesis using False by (simp add: cache_map_def same)
    next
      case (Some j)
      obtain e' where "m_cache c ! cache_set c b ! j = Some e'" by (rule tag_entry [OF assms(1) Some])
      then have "\<not> (cache_set c b = cache_set c a \<and> j = i)" using assms(5) by auto
      then show ?thesis using slot [OF cache_set_less [OF g, of b], of j] Some False by (auto simp: cache_map_def same)
    qed
  qed
  then show ?thesis using inv by blast
qed

lemma remove_entry:
  assumes "cache_inv rs c" and "m_tag_index c a = Some i"
    and c': "c' = c\<lparr>m_cache := (m_cache c)[cache_set c a := (m_cache c ! cache_set c a)[i := None]],
        m_tag_index := (m_tag_index c)(a := None)\<rparr>"
  shows "cache_inv rs c' \<and> cache_map c' = (cache_map c)(a := None) \<and> m_cache c' ! cache_set c a ! i = None"
proof -
  note g = cache_inv_geometry [OF assms(1)]
  obtain ea where ea: "i < m_cache_assoc c" "m_cache c ! cache_set c a ! i = Some ea" "m_Address ea = a"
    by (rule tag_entry [OF assms(1,2)])
  have slot: "m_cache c' ! st ! j = (if st = cache_set c a \<and> j = i then None else m_cache c ! st ! j)"
    if "st < m_cache_num_sets c" for st j
    using slot_update [OF g cache_set_less [OF g] ea(1) that] by (simp add: c')
  have same: "cache_set c' = cache_set c" "m_cache_assoc c' = m_cache_assoc c" "m_cache_num_sets c' = m_cache_num_sets c"
    "m_tag_index c' = (m_tag_index c)(a := None)" by (simp_all add: c')
  have geo: "cache_geometry c'"
    using cache_put_geometry [OF g cache_set_less [OF g], of a i None] by (simp add: c' cache_geometry_def)
  have other: "m_cache c' ! cache_set c b ! j = m_cache c ! cache_set c b ! j"
    if tag: "m_tag_index c b = Some j" and ne: "b \<noteq> a" for b j
  proof -
    obtain e' where e': "m_cache c ! cache_set c b ! j = Some e'" "m_Address e' = b" by (rule tag_entry [OF assms(1) tag])
    have nn: "\<not> (cache_set c b = cache_set c a \<and> j = i)"
    proof
      assume eq: "cache_set c b = cache_set c a \<and> j = i"
      then have "Some e' = Some ea" using e'(1) ea(2) by simp
      then show False using e'(2) ea(3) ne by simp
    qed
    show ?thesis unfolding slot [OF cache_set_less [OF g, of b], of j] if_not_P [OF nn] ..
  qed
  have "j < m_cache_assoc c \<and> (\<exists>e'. m_cache c' ! cache_set c b ! j = Some e' \<and> m_Address e' = b)"
    if t: "m_tag_index c' b = Some j" for b j
  proof -
    have b: "b \<noteq> a" "m_tag_index c b = Some j" using t by (auto simp: same split: if_splits)
    from tag_entry [OF assms(1) b(2)] obtain e' where
      "j < m_cache_assoc c" "m_cache c ! cache_set c b ! j = Some e'" "m_Address e' = b" .
    then show ?thesis using other [OF b(2,1)] by simp
  qed
  moreover have "m_tag_index c' (m_Address e') = Some j \<and> cache_set c (m_Address e') = st \<and>
      m_Address e' = line_address rs (m_Address e') \<and> m_Permission e' \<noteq> AccessPermission_NotPresent"
    if st: "st < m_cache_num_sets c" "j < m_cache_assoc c" and s: "m_cache c' ! st ! j = Some e'" for st j e'
  proof -
    have nn: "\<not> (st = cache_set c a \<and> j = i)" using s slot [OF st(1), of j] by (cases "st = cache_set c a \<and> j = i") simp_all
    have s': "m_cache c ! st ! j = Some e'" using s unfolding slot [OF st(1), of j] if_not_P [OF nn] .
    note e' = cache_map_at [OF assms(1) st s']
    have "m_Address e' \<noteq> a"
    proof
      assume "m_Address e' = a"
      then show False using e'(2,3) assms(2) nn by simp
    qed
    then have "m_tag_index c' (m_Address e') = Some j" using e'(3) by (simp add: same)
    then show ?thesis using e'(2,4,5) by blast
  qed
  ultimately have inv: "cache_inv rs c'" using geo unfolding cache_inv_def same by blast
  have "cache_map c' b = ((cache_map c)(a := None)) b" for b
  proof (cases "b = a")
    case True
    then show ?thesis by (simp add: cache_map_def same)
  next
    case False
    then show ?thesis using other [of b] by (cases "m_tag_index c b") (simp_all add: cache_map_def same)
  qed
  then have "cache_map c' = (cache_map c)(a := None)" by (rule ext)
  moreover have "m_cache c' ! cache_set c a ! i = None" using slot [OF cache_set_less [OF g, of a], of i] by simp
  ultimately show ?thesis using inv by simp
qed

lemma CacheMemory_deallocate_Inr:
  assumes "cache_inv rs c" and "a = line_address rs a" and "cache_map c a \<noteq> None"
  shows "\<exists>c'. CacheMemory_deallocate rs c a = Inr c' \<and> cache_inv rs c' \<and> cache_map c' = (cache_map c)(a := None) \<and>
    cache_set c' = cache_set c \<and> free_way c' a"
proof -
  note g = cache_inv_geometry [OF assms(1)]
  obtain i where i: "m_tag_index c a = Some i" using assms(3) cache_map_None [OF assms(1), of a] by auto
  have ia: "i < m_cache_assoc c" by (rule tag_entry [OF assms(1) i])
  define c' where "c' = c\<lparr>m_cache := (m_cache c)[cache_set c a := (m_cache c ! cache_set c a)[i := None]],
        m_tag_index := (m_tag_index c)(a := None)\<rparr>"
  have "CacheMemory_deallocate rs c a = Inr c'"
    using assms(2,3) isTagPresent_Inr [OF assms(1,2)] find_line_Inr [OF assms(1,2)] i
      cache_put_Inr [OF g cache_set_less [OF g] ia]
    by (simp add: CacheMemory_deallocate_def c'_def)
  moreover have "cache_set c' = cache_set c" "m_cache_assoc c' = m_cache_assoc c" by (simp_all add: c'_def)
  ultimately show ?thesis
    using remove_entry [OF assms(1) i c'_def] ia by (auto simp: free_way_def)
qed

lemma CacheMemory_allocate_Inr:
  assumes "cache_inv rs c" and "a = line_address rs a" and "cache_map c a = None" and "free_way c a"
  shows "\<exists>e' c'. CacheMemory_allocate now rs c a e = Inr (e', c') \<and> cache_inv rs c' \<and>
    e' = e\<lparr>m_Address := a, m_Permission := AccessPermission_Invalid, m_locked := - 1\<rparr> \<and>
    cache_map c' = (cache_map c)(a \<mapsto> e')"
proof -
  note g = cache_inv_geometry [OF assms(1)]
  let ?st = "cache_set c a"
  define e' where "e' = e\<lparr>m_Address := a, m_Permission := AccessPermission_Invalid, m_locked := - 1\<rparr>"
  have nt: "m_tag_index c a = None" using assms(3) cache_map_None [OF assms(1)] by blast
  obtain i where i: "i < m_cache_assoc c" "open_slot c ?st [0..<m_cache_assoc c] = Inr (Some i)" "m_cache c ! ?st ! i = None"
  proof -
    have "\<exists>i \<in> set [0..<m_cache_assoc c]. m_cache c ! ?st ! i = None" using assms(4) by (auto simp: free_way_def)
    then show thesis
      using open_slot_Inr [OF assms(1) cache_set_less [OF g, of a], of "[0..<m_cache_assoc c]"] that by auto
  qed
  let ?c1 = "c\<lparr>m_cache := (m_cache c)[?st := (m_cache c ! ?st)[i := Some e']]\<rparr>"
  let ?c2 = "?c1\<lparr>m_tag_index := (m_tag_index c)(a := Some i)\<rparr>"
  have "cache_geometry ?c2" using cache_put_geometry [OF g cache_set_less [OF g], of a i "Some e'"] by (simp add: cache_geometry_def)
  then obtain rp where rp: "touch_way now ?c2 ?st i = Inr (?c2\<lparr>m_replacementPolicy_ptr := Some rp\<rparr>)"
    "cache_geometry (?c2\<lparr>m_replacementPolicy_ptr := Some rp\<rparr>)"
    using touch_way_Inr [of ?c2 ?st i now] cache_set_less [OF g] i(1) by auto
  have "CacheMemory_allocate now rs c a e = Inr (e', ?c2\<lparr>m_replacementPolicy_ptr := Some rp\<rparr>)"
    using assms isTagPresent_Inr [OF assms(1,2)] cacheAvail_Inr [OF assms(1,2)] addressToCacheSet_Inr [OF g assms(2)] i(2)
      cache_put_Inr [OF g cache_set_less [OF g] i(1), of a "Some e'"] rp(1)
    by (simp add: CacheMemory_allocate_def Let_def flip: e'_def)
  moreover have "cache_inv rs (?c2\<lparr>m_replacementPolicy_ptr := Some rp\<rparr>) \<and>
      cache_map (?c2\<lparr>m_replacementPolicy_ptr := Some rp\<rparr>) = (cache_map c)(a \<mapsto> e')"
    by (rule insert_entry [OF assms(1,2) nt i(1,3), of e' _ "Some rp"]) (use rp(2) in \<open>simp_all add: e'_def\<close>)
  ultimately show ?thesis by (auto simp: e'_def)
qed

lemma cacheProbe_Inr:
  assumes "cache_inv rs c" and "a = line_address rs a" and "cache_map c a = None" and "\<not> free_way c a"
  shows "\<exists>b. cacheProbe rs c a = Inr b \<and> b = line_address rs b \<and> cache_set c b = cache_set c a \<and> cache_map c b \<noteq> None"
proof -
  note g = cache_inv_geometry [OF assms(1)]
  let ?st = "cache_set c a"
  obtain rp where rp: "m_replacementPolicy_ptr c = Some rp" "rp_wf rp" "rp_sets rp = m_cache_num_sets c"
    "rp_ways rp = m_cache_assoc c"
    using g by (auto simp: cache_geometry_def)
  obtain v where v: "policy_getVictim rp ?st = Inr v" "v < m_cache_assoc c"
    using rp.victim_law [OF rp(2), of ?st] rp(3,4) cache_set_less [OF g, of a] by auto
  obtain e where e: "m_cache c ! ?st ! v = Some e" using assms(4) v(2) by (auto simp: free_way_def)
  note em = cache_map_at [OF assms(1) cache_set_less [OF g] v(2) e]
  have "cacheProbe rs c a = Inr (m_Address e)"
    using assms cacheAvail_Inr [OF assms(1,2)] addressToCacheSet_Inr [OF g assms(2)] rp(1) v(1)
      cache_at_Inr [OF g cache_set_less [OF g] v(2)] e
    by (simp add: cacheProbe_def)
  then show ?thesis using em(1,2,4) by auto
qed

lemma CacheMemory_init_inv:
  assumes "CacheMemory_init rs c = Inr c'" and "m_tag_index c = (\<lambda>_. None)" and "m_start_index_bit c < 64"
    and "m_cache_size c < 2 ^ 32"
  shows "cache_inv rs c' \<and> cache_map c' = (\<lambda>_. None)"
proof -
  let ?n = "(m_cache_size c div m_cache_assoc c) div block_size rs"
  obtain bits rp where i: "m_cache_assoc c \<noteq> 0" "1 < ?n" "floorLog2 (word_of_nat ?n) = Inr bits" "0 < bits"
    "(if m_policy c = ''PSEUDO_LRU'' then rmap PSEUDO_LRU (PseudoLRUPolicy_new ?n (m_cache_assoc c))
      else if m_policy c = ''LRU'' then Inr (LRU (LRUPolicy_new ?n (m_cache_assoc c))) else Inl AssertFailed) = Inr rp"
    "c' = c\<lparr>m_cache_num_sets := ?n, m_cache_num_set_bits := bits, m_replacementPolicy_ptr := Some rp,
       m_cache := replicate ?n (replicate (m_cache_assoc c) None)\<rparr>"
    using assms(1) by (auto simp: CacheMemory_init_def Let_def)
  have "?n \<le> m_cache_size c" by (meson div_le_dividend le_trans)
  then have "unat (word_of_nat ?n :: u32) = ?n" using assms(4) by (simp add: unsigned_of_nat take_bit_nat_eq_self)
  moreover have "0 < (word_of_nat ?n :: u32)" using calculation i(2) by (metis gr_implies_not_zero unat_0 word_gt_0)
  ultimately have bits: "2 ^ bits \<le> ?n" using floorLog2_correct [of "word_of_nat ?n"] i(3) by auto
  have "rp_wf rp \<and> rp_sets rp = ?n \<and> rp_ways rp = m_cache_assoc c"
  proof (cases "m_policy c = ''PSEUDO_LRU''")
    case True
    then obtain p where p: "PseudoLRUPolicy_new ?n (m_cache_assoc c) = Inr p" "rp = PSEUDO_LRU p"
      using i(5) by (cases "PseudoLRUPolicy_new ?n (m_cache_assoc c)") auto
    then have "1 < m_cache_assoc c" "m_cache_assoc c \<le> 32" by (auto simp: PseudoLRUPolicy_new_def)
    then show ?thesis using PseudoLRUPolicy_new_wf [of ?n "m_cache_assoc c"] i(2) p by (auto simp: rp_wf_def rp_sets_def rp_ways_def)
  next
    case False
    then have "rp = LRU (LRUPolicy_new ?n (m_cache_assoc c))" using i(5) by (auto split: if_splits)
    then show ?thesis using LRUPolicy_new_wf [of "m_cache_assoc c" ?n] i(1)
      by (simp add: rp_wf_def rp_sets_def rp_ways_def LRUPolicy_new_def AbstractReplacementPolicy_new_def)
  qed
  then have "cache_geometry c'" using i bits assms(3) by (simp add: cache_geometry_def)
  then show ?thesis using assms(2) by (simp add: cache_inv_def cache_map_def i(6) fun_eq_iff)
qed

section \<open>The interface of a cache\<close>

text \<open>What a controller relies on: a probe names a line of the same set, freeing that line makes room,
  and with room an allocation succeeds.\<close>

locale evicting_cache =
  fixes inv :: "'c \<Rightarrow> bool" and contents :: "'c \<Rightarrow> 'a \<Rightarrow> 'e option" and valid :: "'a \<Rightarrow> bool"
    and same_set :: "'c \<Rightarrow> 'a \<Rightarrow> 'a \<Rightarrow> bool" and room :: "'c \<Rightarrow> 'a \<Rightarrow> bool"
    and probe :: "'c \<Rightarrow> 'a \<Rightarrow> 'a result" and dealloc :: "'c \<Rightarrow> 'a \<Rightarrow> 'c result"
    and alloc :: "'c \<Rightarrow> 'a \<Rightarrow> 'e \<Rightarrow> ('e \<times> 'c) result"
  assumes probe_law: "inv c \<Longrightarrow> valid a \<Longrightarrow> contents c a = None \<Longrightarrow> \<not> room c a \<Longrightarrow>
      \<exists>b. probe c a = Inr b \<and> valid b \<and> contents c b \<noteq> None \<and> same_set c b a"
    and dealloc_law: "inv c \<Longrightarrow> valid b \<Longrightarrow> contents c b \<noteq> None \<Longrightarrow>
      \<exists>c'. dealloc c b = Inr c' \<and> inv c' \<and> contents c' = (contents c)(b := None) \<and> (\<forall>a. same_set c b a \<longrightarrow> room c' a)"
    and alloc_law: "inv c \<Longrightarrow> valid a \<Longrightarrow> contents c a = None \<Longrightarrow> room c a \<Longrightarrow>
      \<exists>e' c'. alloc c a e = Inr (e', c') \<and> inv c' \<and> contents c' = (contents c)(a \<mapsto> e')"
begin

lemma replace_line:
  assumes "inv c" and "valid a" and "contents c a = None" and "\<not> room c a"
  shows "\<exists>b c1 e' c2. probe c a = Inr b \<and> contents c b \<noteq> None \<and> same_set c b a \<and> dealloc c b = Inr c1 \<and>
    alloc c1 a e = Inr (e', c2) \<and> inv c2 \<and> contents c2 = (contents c)(b := None, a \<mapsto> e')"
proof -
  obtain b where b: "probe c a = Inr b" "valid b" "contents c b \<noteq> None" "same_set c b a"
    using probe_law [OF assms] by blast
  obtain c1 where c1: "dealloc c b = Inr c1" "inv c1" "contents c1 = (contents c)(b := None)" "room c1 a"
    using dealloc_law [OF assms(1) b(2,3)] b(4) by blast
  have "contents c1 a = None" using c1(3) assms(3) by simp
  then show ?thesis using alloc_law [OF c1(2) assms(2) _ c1(4), of e] b c1 by auto
qed

end

interpretation ec: evicting_cache "cache_inv rs" cache_map "\<lambda>a. a = line_address rs a"
  "\<lambda>c b a. cache_set c b = cache_set c a" free_way "cacheProbe rs" "CacheMemory_deallocate rs" "CacheMemory_allocate now rs"
  for rs now
proof
  fix c a and b and e :: cache_entry
  show "\<exists>b. cacheProbe rs c a = Inr b \<and> b = line_address rs b \<and> cache_map c b \<noteq> None \<and> cache_set c b = cache_set c a"
    if "cache_inv rs c" "a = line_address rs a" "cache_map c a = None" "\<not> free_way c a"
    using cacheProbe_Inr [OF that] by blast
  show "\<exists>c'. CacheMemory_deallocate rs c b = Inr c' \<and> cache_inv rs c' \<and> cache_map c' = (cache_map c)(b := None) \<and>
      (\<forall>a. cache_set c b = cache_set c a \<longrightarrow> free_way c' a)"
    if b: "cache_inv rs c" "b = line_address rs b" "cache_map c b \<noteq> None"
  proof -
    obtain c' where c': "CacheMemory_deallocate rs c b = Inr c'" "cache_inv rs c'" "cache_map c' = (cache_map c)(b := None)"
      "cache_set c' = cache_set c" "free_way c' b"
      using CacheMemory_deallocate_Inr [OF b] by blast
    have "free_way c' a" if "cache_set c b = cache_set c a" for a using c'(4,5) that by (simp add: free_way_def)
    then show ?thesis using c'(1-3) by blast
  qed
  show "\<exists>e' c'. CacheMemory_allocate now rs c a e = Inr (e', c') \<and> cache_inv rs c' \<and> cache_map c' = (cache_map c)(a \<mapsto> e')"
    if "cache_inv rs c" "a = line_address rs a" "cache_map c a = None" "free_way c a"
    using CacheMemory_allocate_Inr [OF that, of now e] by blast
qed

section \<open>Correctness\<close>

text \<open>A cache of two sets with two ways of 64 bytes, for the witnesses; the addresses 0, 0x80 and 0x100
  are in the same set.\<close>

definition small_array :: banked_array where
  "small_array = \<lparr>banks = 1, accessLatency = 1, bankBits = 0, startIndexBit = 6,
     busyBanks = [\<lparr>ar_idx = 0, startAccess = 0, endAccess = 0\<rparr>]\<rparr>"

definition small_cache :: cache_memory where
  "small_cache = CacheMemory_new 256 1 2 ''LRU'' 6 False False small_array small_array"

definition small_entry :: cache_entry where
  "small_entry = AbstractCacheEntry_new zero_block"

lemma small_cache_init: "\<exists>c. CacheMemory_init ruby64 small_cache = Inr c \<and> cache_inv ruby64 c \<and> cache_map c = (\<lambda>_. None)"
proof -
  have "is_ok (CacheMemory_init ruby64 small_cache)" by code_simp
  then obtain c where "CacheMemory_init ruby64 small_cache = Inr c" by (auto simp: is_ok_iff)
  then show ?thesis using CacheMemory_init_inv [of ruby64 small_cache c] by (simp add: small_cache_def CacheMemory_new_def)
qed

text \<open>C3: for line addresses the cache is a finite map from addresses to entries: lookup and tag test
  read it, an allocation of a line that is not in the cache adds it (with permission Invalid and no
  lock) whenever a way of its set is free, a deallocation removes it, availability means a free way or
  presence, and no operation fails an assertion.\<close>

theorem cache_refines_map:
  assumes "cache_inv rs c" and "a = line_address rs a"
  shows "CacheMemory_lookup rs c a = Inr (cache_map c a) \<and>
    isTagPresent rs c a = Inr (cache_map c a \<noteq> None) \<and>
    cacheAvail rs c a = Inr (free_way c a \<or> cache_map c a \<noteq> None) \<and>
    (if cache_map c a \<noteq> None
     then \<exists>c'. CacheMemory_deallocate rs c a = Inr c' \<and> cache_inv rs c' \<and> cache_map c' = (cache_map c)(a := None)
     else free_way c a \<longrightarrow> (\<exists>e' c'. CacheMemory_allocate now rs c a e = Inr (e', c') \<and> cache_inv rs c' \<and>
       cache_map c' = (cache_map c)(a \<mapsto> e') \<and>
       e' = e\<lparr>m_Address := a, m_Permission := AccessPermission_Invalid, m_locked := - 1\<rparr>))"
proof (cases "cache_map c a = None")
  case True
  then show ?thesis
    using CacheMemory_lookup_Inr [OF assms] isTagPresent_Inr [OF assms] cacheAvail_Inr [OF assms]
      CacheMemory_allocate_Inr [OF assms True, of now e] by auto
next
  case False
  obtain c' where "CacheMemory_deallocate rs c a = Inr c'" "cache_inv rs c'" "cache_map c' = (cache_map c)(a := None)"
    using CacheMemory_deallocate_Inr [OF assms False] by blast
  then show ?thesis
    using CacheMemory_lookup_Inr [OF assms] isTagPresent_Inr [OF assms] cacheAvail_Inr [OF assms] False by simp
qed

theorem cache_refines_map_witness:
  "\<exists>c. CacheMemory_init ruby64 small_cache = Inr c \<and> CacheMemory_lookup ruby64 c 0x80 = Inr None \<and>
     cacheAvail ruby64 c 0x80 = Inr (free_way c 0x80)"
proof -
  obtain c where c: "CacheMemory_init ruby64 small_cache = Inr c" "cache_inv ruby64 c" "cache_map c = (\<lambda>_. None)"
    using small_cache_init by blast
  have "(0x80 :: addr) = line_address ruby64 0x80" by code_simp
  from cache_refines_map [OF c(2) this] show ?thesis using c(1,3) by auto
qed

text \<open>C18: a replacement always works: when the set of an address is full, the probe names a line of the
  same set that is in the cache, deallocating it succeeds, the allocation of the address then succeeds,
  and the contents change by exactly these two lines. This holds for both replacement policies.\<close>

theorem replacement_makes_room:
  assumes "cache_inv rs c" and "a = line_address rs a" and "cache_map c a = None" and "\<not> free_way c a"
  shows "\<exists>b c1 e' c2. cacheProbe rs c a = Inr b \<and> cache_map c b \<noteq> None \<and> cache_set c b = cache_set c a \<and>
    CacheMemory_deallocate rs c b = Inr c1 \<and> CacheMemory_allocate now rs c1 a e = Inr (e', c2) \<and> cache_inv rs c2 \<and>
    cache_map c2 = (cache_map c)(b := None, a \<mapsto> e')"
  by (rule ec.replace_line [OF assms])

theorem replacement_makes_room_witness:
  "\<exists>c0 e1 c1 e2 c2 b. CacheMemory_init ruby64 small_cache = Inr c0 \<and> CacheMemory_allocate 1 ruby64 c0 0 small_entry = Inr (e1, c1) \<and>
     CacheMemory_allocate 2 ruby64 c1 0x80 small_entry = Inr (e2, c2) \<and> cacheProbe ruby64 c2 0x100 = Inr b \<and>
     cache_map c2 b \<noteq> None"
proof -
  obtain c0 where c0: "CacheMemory_init ruby64 small_cache = Inr c0" "cache_inv ruby64 c0" "cache_map c0 = (\<lambda>_. None)"
    using small_cache_init by blast
  have l: "(0 :: addr) = line_address ruby64 0" "(0x80 :: addr) = line_address ruby64 0x80"
    "(0x100 :: addr) = line_address ruby64 0x100" by code_simp+
  have "case rbind (CacheMemory_init ruby64 small_cache) (\<lambda>c. Inr (free_way c 0)) of Inl _ \<Rightarrow> False | Inr b \<Rightarrow> b" by code_simp
  then have "free_way c0 0" using c0(1) by simp
  then obtain e1 c1 where c1: "CacheMemory_allocate 1 ruby64 c0 0 small_entry = Inr (e1, c1)" "cache_inv ruby64 c1"
    "cache_map c1 = (cache_map c0)(0 \<mapsto> e1)"
    using CacheMemory_allocate_Inr [OF c0(2) l(1), of 1 small_entry] c0(3) by auto
  have "case rbind (CacheMemory_init ruby64 small_cache) (\<lambda>c. rbind (CacheMemory_allocate 1 ruby64 c 0 small_entry)
      (\<lambda>(_, c). Inr (free_way c 0x80))) of Inl _ \<Rightarrow> False | Inr b \<Rightarrow> b" by code_simp
  then have "free_way c1 0x80" using c0(1) c1(1) by simp
  then obtain e2 c2 where c2: "CacheMemory_allocate 2 ruby64 c1 0x80 small_entry = Inr (e2, c2)" "cache_inv ruby64 c2"
    "cache_map c2 = (cache_map c1)(0x80 \<mapsto> e2)"
    using CacheMemory_allocate_Inr [OF c1(2) l(2), of 2 small_entry] c0(3) c1(3) by auto
  have "case rbind (CacheMemory_init ruby64 small_cache) (\<lambda>c. rbind (CacheMemory_allocate 1 ruby64 c 0 small_entry)
      (\<lambda>(_, c). rbind (CacheMemory_allocate 2 ruby64 c 0x80 small_entry) (\<lambda>(_, c). Inr (\<not> free_way c 0x100)))) of
      Inl _ \<Rightarrow> False | Inr b \<Rightarrow> b" by code_simp
  then have "\<not> free_way c2 0x100" using c0(1) c1(1) c2(1) by simp
  moreover have "cache_map c2 0x100 = None" using c2(3) c1(3) c0(3) by simp
  ultimately show ?thesis
    using replacement_makes_room [OF c2(2) l(3)] c0(1) c1(1) c2(1) by blast
qed


end
