(* ===== verification/Ruby_Tables.thy ===== *)
theory Ruby_Tables
  imports Message_Buffer Net_Dest "HOL-Library.AList"
begin

text \<open>
  The tables a controller keeps beside its caches (src/gem5-stable/src/mem/ruby/structures):
  \<open>TBETable\<close>, the transactions in progress; \<open>TimerTable\<close>, the pending timeouts; \<open>PersistentTable\<close>, the
  persistent requests of a token protocol; and \<open>WireBuffer\<close>, the queue between closely coupled
  controllers. A \<open>hash_map\<close> is an association list with distinct keys, whose order no operation
  reads; the \<open>std::map\<close> of the timer table is a list in the order of its keys, which \<open>updateNext\<close>
  reads. Printing is left out.
\<close>

section \<open>TBETable\<close>

record 'e tbe_table =
  tbe_map :: "(addr \<times> 'e) list"
  m_number_of_TBEs :: int

definition TBETable_new :: "int \<Rightarrow> 'e tbe_table" where
  "TBETable_new n = \<lparr>tbe_map = [], m_number_of_TBEs = n\<rparr>"

text \<open>\<open>m_map.size()\<close> and the number of entries are compared as \<open>size_t\<close>.\<close>

definition tbe_size :: "'e tbe_table \<Rightarrow> u64" where
  "tbe_size t = word_of_nat (length (tbe_map t))"

definition tbe_limit :: "'e tbe_table \<Rightarrow> u64" where
  "tbe_limit t = word_of_int (m_number_of_TBEs t)"

definition TBETable_isPresent :: "ruby_system \<Rightarrow> 'e tbe_table \<Rightarrow> addr \<Rightarrow> bool result" where
  "TBETable_isPresent rs t a = ensure (a = line_address rs a) AssertFailed (
     ensure (tbe_size t \<le> tbe_limit t) AssertFailed (
     Inr (map_of (tbe_map t) a \<noteq> None)))"

text \<open>\<open>d\<close> is the entry that the constructor \<open>ENTRY()\<close> makes.\<close>

definition TBETable_allocate :: "ruby_system \<Rightarrow> 'e \<Rightarrow> 'e tbe_table \<Rightarrow> addr \<Rightarrow> 'e tbe_table result" where
  "TBETable_allocate rs d t a = rbind (TBETable_isPresent rs t a) (\<lambda>p.
     ensure (\<not> p) AssertFailed (
     ensure (tbe_size t < tbe_limit t) AssertFailed (
     Inr (t\<lparr>tbe_map := AList.update a d (tbe_map t)\<rparr>))))"

definition TBETable_deallocate :: "ruby_system \<Rightarrow> 'e tbe_table \<Rightarrow> addr \<Rightarrow> 'e tbe_table result" where
  "TBETable_deallocate rs t a = rbind (TBETable_isPresent rs t a) (\<lambda>p.
     ensure p AssertFailed (
     ensure (0 < tbe_size t) AssertFailed (
     Inr (t\<lparr>tbe_map := AList.delete a (tbe_map t)\<rparr>))))"

definition TBETable_areNSlotsAvailable :: "'e tbe_table \<Rightarrow> int \<Rightarrow> bool" where
  "TBETable_areNSlotsAvailable t n \<longleftrightarrow> word_of_int n \<le> tbe_limit t - tbe_size t"

definition TBETable_lookup :: "'e tbe_table \<Rightarrow> addr \<Rightarrow> 'e option" where
  "TBETable_lookup t a = map_of (tbe_map t) a"

section \<open>TimerTable\<close>

text \<open>\<open>m_map[a] = v\<close> on the ordered map.\<close>

fun amap_set :: "addr \<Rightarrow> 'v \<Rightarrow> (addr \<times> 'v) list \<Rightarrow> (addr \<times> 'v) list" where
  "amap_set a v [] = [(a, v)]"
| "amap_set a v ((b, w) # m) =
     (if a = b then (a, v) # m else if a < b then (a, v) # (b, w) # m else (b, w) # amap_set a v m)"

text \<open>\<open>tt_consumer\<close> says whether a consumer is connected; \<open>m_next_valid\<close>, \<open>m_next_time\<close> and
  \<open>m_next_address\<close> are mutable: the constant member functions change them too.\<close>

record timer_table =
  tt_map :: "(addr \<times> cycles) list"
  m_next_valid :: bool
  m_next_time :: cycles
  m_next_address :: addr
  tt_clockobj :: "clocked_object option"
  tt_consumer :: bool

definition TimerTable_new :: timer_table where
  "TimerTable_new = \<lparr>tt_map = [], m_next_valid = False, m_next_time = 0, m_next_address = 0,
     tt_clockobj = None, tt_consumer = False\<rparr>"

definition TimerTable_setConsumer :: "timer_table \<Rightarrow> timer_table result" where
  "TimerTable_setConsumer t = ensure (\<not> tt_consumer t) AssertFailed (Inr (t\<lparr>tt_consumer := True\<rparr>))"

definition TimerTable_setClockObj :: "timer_table \<Rightarrow> clocked_object \<Rightarrow> timer_table result" where
  "TimerTable_setClockObj t o1 = ensure (tt_clockobj t = None) AssertFailed (Inr (t\<lparr>tt_clockobj := Some o1\<rparr>))"

fun next_timer :: "addr \<times> cycles \<Rightarrow> (addr \<times> cycles) list \<Rightarrow> addr \<times> cycles" where
  "next_timer best [] = best"
| "next_timer best (i # m) = next_timer (if snd i < snd best then i else best) m"

definition TimerTable_updateNext :: "timer_table \<Rightarrow> timer_table result" where
  "TimerTable_updateNext t = (case tt_map t of
     [] \<Rightarrow> ensure (\<not> m_next_valid t) AssertFailed (Inr t)
   | i # m \<Rightarrow> let (a, c) = next_timer i m
               in Inr (t\<lparr>m_next_address := a, m_next_time := c, m_next_valid := True\<rparr>))"

definition TimerTable_isReady :: "tick \<Rightarrow> timer_table \<Rightarrow> (bool \<times> timer_table) result" where
  "TimerTable_isReady now t =
     (if tt_map t = [] then Inr (False, t)
      else rbind (if \<not> m_next_valid t then TimerTable_updateNext t else Inr t) (\<lambda>t'.
           ensure (m_next_valid t') AssertFailed (
           rbind (deref (tt_clockobj t')) (\<lambda>o1. Inr (m_next_time t' \<le> curCycle now o1, t')))))"

definition TimerTable_readyAddress :: "tick \<Rightarrow> timer_table \<Rightarrow> (addr \<times> timer_table) result" where
  "TimerTable_readyAddress now t = rbind (TimerTable_isReady now t) (\<lambda>(r, t1).
     ensure r AssertFailed (
     rbind (if \<not> m_next_valid t1 then TimerTable_updateNext t1 else Inr t1) (\<lambda>t2.
     ensure (m_next_valid t2) AssertFailed (Inr (m_next_address t2, t2)))))"

definition TimerTable_isSet :: "timer_table \<Rightarrow> addr \<Rightarrow> bool" where
  "TimerTable_isSet t a \<longleftrightarrow> map_of (tt_map t) a \<noteq> None"

definition TimerTable_set :: "tick \<Rightarrow> ruby_system \<Rightarrow> timer_table \<Rightarrow> addr \<Rightarrow> cycles \<Rightarrow>
    (timer_table \<times> consumer_call list) result" where
  "TimerTable_set now rs t a relative_latency =
     ensure (a = line_address rs a) AssertFailed (
     ensure (0 < relative_latency) AssertFailed (
     ensure (map_of (tt_map t) a = None) AssertFailed (
     rbind (deref (tt_clockobj t)) (\<lambda>o1.
     let ready_time = curCycle now o1 + relative_latency;
         t1 = t\<lparr>tt_map := amap_set a ready_time (tt_map t)\<rparr>
     in ensure (tt_consumer t1) AssertFailed (
        let t2 = t1\<lparr>m_next_valid := False\<rparr>
        in Inr (if ready_time \<le> m_next_time t2 then t2\<lparr>m_next_valid := False\<rparr> else t2,
                [ScheduleEventAbsolute (co_period o1 * ready_time)]))))))"

definition TimerTable_unset :: "ruby_system \<Rightarrow> timer_table \<Rightarrow> addr \<Rightarrow> timer_table result" where
  "TimerTable_unset rs t a =
     ensure (a = line_address rs a) AssertFailed (
     ensure (map_of (tt_map t) a \<noteq> None) AssertFailed (
     let t1 = t\<lparr>tt_map := AList.delete a (tt_map t)\<rparr>
     in Inr (if a = m_next_address t1 then t1\<lparr>m_next_valid := False\<rparr> else t1)))"

section \<open>WireBuffer\<close>

text \<open>The queue is a vector that \<open>enqueue\<close> appends to and \<open>dequeue\<close> pops as a heap. \<open>sys\<close> is the clock of
  the global \<open>g_system_ptr\<close>. A message pointer is modelled by the message it points to, so the check
  of \<open>peek\<close> for a null pointer has no counterpart.\<close>

record 'm wire_buffer =
  wb_message_queue :: "'m mb_node list"
  wb_msg_counter :: u64
  wb_consumer :: bool

definition WireBuffer_new :: "'m wire_buffer" where
  "WireBuffer_new = \<lparr>wb_message_queue = [], wb_msg_counter = 0, wb_consumer = False\<rparr>"

definition WireBuffer_setConsumer :: "'m wire_buffer \<Rightarrow> 'm wire_buffer" where
  "WireBuffer_setConsumer b = b\<lparr>wb_consumer := True\<rparr>"

definition WireBuffer_enqueue :: "tick \<Rightarrow> clocked_object \<Rightarrow> 'm wire_buffer \<Rightarrow> 'm message \<Rightarrow> cycles \<Rightarrow>
    ('m wire_buffer \<times> consumer_call list) result" where
  "WireBuffer_enqueue now sys b message latency =
     (let c = wb_msg_counter b + 1;
          current_time = curCycle now sys;
          arrival_time = current_time + latency
      in ensure (current_time < arrival_time) AssertFailed (
         let thisNode = \<lparr>m_time = arrival_time, m_msg_counter = c, m_msgptr = message\<rparr>
         in ensure (wb_consumer b) Panicked (
            Inr (b\<lparr>wb_msg_counter := c, wb_message_queue := wb_message_queue b @ [thisNode]\<rparr>,
                 [ScheduleEventAbsolute (co_period sys * arrival_time)]))))"

definition WireBuffer_isReady :: "tick \<Rightarrow> clocked_object \<Rightarrow> 'm wire_buffer \<Rightarrow> bool" where
  "WireBuffer_isReady now sys b = (case wb_message_queue b of
     [] \<Rightarrow> False | n # _ \<Rightarrow> m_time n \<le> curCycle now sys)"

definition WireBuffer_peekNode :: "tick \<Rightarrow> clocked_object \<Rightarrow> 'm wire_buffer \<Rightarrow> 'm mb_node result" where
  "WireBuffer_peekNode now sys b = ensure (WireBuffer_isReady now sys b) AssertFailed (
     front (wb_message_queue b))"

definition WireBuffer_peek :: "tick \<Rightarrow> clocked_object \<Rightarrow> 'm wire_buffer \<Rightarrow> 'm message result" where
  "WireBuffer_peek now sys b = rmap m_msgptr (WireBuffer_peekNode now sys b)"

definition WireBuffer_dequeue :: "tick \<Rightarrow> clocked_object \<Rightarrow> 'm wire_buffer \<Rightarrow> 'm wire_buffer result" where
  "WireBuffer_dequeue now sys b = ensure (WireBuffer_isReady now sys b) AssertFailed (
     rbind (pop_heap node_greater (wb_message_queue b)) (\<lambda>q.
     Inr (b\<lparr>wb_message_queue := butlast q\<rparr>)))"

definition WireBuffer_recycle :: "tick \<Rightarrow> clocked_object \<Rightarrow> 'm wire_buffer \<Rightarrow>
    ('m wire_buffer \<times> consumer_call list) result" where
  "WireBuffer_recycle now sys b = ensure (WireBuffer_isReady now sys b) AssertFailed (
     rbind (front (wb_message_queue b)) (\<lambda>node.
     rbind (pop_heap node_greater (wb_message_queue b)) (\<lambda>q.
     let node' = node\<lparr>m_time := curCycle now sys + 1\<rparr>
     in rbind (push_heap node_greater (butlast q @ [node'])) (\<lambda>q'.
        ensure (wb_consumer b) NullDereference (
        Inr (b\<lparr>wb_message_queue := q'\<rparr>, [ScheduleEventAbsolute (co_period sys * m_time node')]))))))"

definition WireBuffer_areNSlotsAvailable :: "'m wire_buffer \<Rightarrow> int \<Rightarrow> bool" where
  "WireBuffer_areNSlotsAvailable b n \<longleftrightarrow> True"

section \<open>PersistentTable\<close>

text \<open>\<open>ct\<close> is the list of controller counts per machine type, which the constructor of \<open>NetDest\<close> reads.\<close>

datatype AccessType = AccessType_Read | AccessType_Write

record persistent_entry =
  m_starving :: net_dest
  m_marked :: net_dest
  m_request_to_write :: net_dest

type_synonym persistent_table = "(addr \<times> persistent_entry) list"

definition PersistentTable_new :: persistent_table where
  "PersistentTable_new = []"

definition PersistentTableEntry_new :: "nat list \<Rightarrow> persistent_entry result" where
  "PersistentTableEntry_new ct = rbind (NetDest_new ct) (\<lambda>d.
     Inr \<lparr>m_starving = d, m_marked = d, m_request_to_write = d\<rparr>)"

definition persistentRequestLock :: "nat list \<Rightarrow> ruby_system \<Rightarrow> persistent_table \<Rightarrow> addr \<Rightarrow> machine_id \<Rightarrow>
    AccessType \<Rightarrow> persistent_table result" where
  "persistentRequestLock ct rs t a locker type =
     ensure (a = line_address rs a) AssertFailed (
     rbind (PersistentTableEntry_new ct) (\<lambda>dflt.
     let present = (map_of t a \<noteq> None);
         entry = (case map_of t a of Some e \<Rightarrow> e | None \<Rightarrow> dflt)
     in rbind (if present then NetDest_isElement ct (m_starving entry) locker else Inr False) (\<lambda>el.
        ensure (\<not> el) AssertFailed (
        rbind (NetDest_add ct (m_starving entry) locker) (\<lambda>st.
        rbind (if type = AccessType_Write then NetDest_add ct (m_request_to_write entry) locker
               else Inr (m_request_to_write entry)) (\<lambda>wr.
        rbind (if present then NetDest_isSubset (m_marked entry) st else Inr True) (\<lambda>sub.
        ensure sub AssertFailed (
        Inr (AList.update a (entry\<lparr>m_starving := st, m_request_to_write := wr\<rparr>) t)))))))))"

definition persistentRequestUnlock :: "nat list \<Rightarrow> ruby_system \<Rightarrow> persistent_table \<Rightarrow> addr \<Rightarrow> machine_id \<Rightarrow>
    persistent_table result" where
  "persistentRequestUnlock ct rs t a unlocker =
     ensure (a = line_address rs a) AssertFailed (
     (case map_of t a of
        None \<Rightarrow> Inl AssertFailed
      | Some entry \<Rightarrow>
          rbind (NetDest_isElement ct (m_starving entry) unlocker) (\<lambda>el. ensure el AssertFailed (
          rbind (NetDest_isSubset (m_marked entry) (m_starving entry)) (\<lambda>sub. ensure sub AssertFailed (
          rbind (NetDest_remove ct (m_starving entry) unlocker) (\<lambda>st.
          rbind (NetDest_remove ct (m_marked entry) unlocker) (\<lambda>mk.
          rbind (NetDest_remove ct (m_request_to_write entry) unlocker) (\<lambda>wr.
          rbind (NetDest_isSubset mk st) (\<lambda>sub'. ensure sub' AssertFailed (
          if NetDest_isEmpty st
          then ensure (NetDest_isEmpty mk) AssertFailed (Inr (AList.delete a t))
          else Inr (AList.update a \<lparr>m_starving = st, m_marked = mk, m_request_to_write = wr\<rparr> t))))))))))))"

definition okToIssueStarving :: "nat list \<Rightarrow> ruby_system \<Rightarrow> persistent_table \<Rightarrow> addr \<Rightarrow> machine_id \<Rightarrow> bool result" where
  "okToIssueStarving ct rs t a machId = ensure (a = line_address rs a) AssertFailed (
     case map_of t a of
       None \<Rightarrow> Inr True
     | Some entry \<Rightarrow> rbind (NetDest_isElement ct (m_starving entry) machId) (\<lambda>el.
         if el then Inr False else Inr (NetDest_isEmpty (m_marked entry))))"

definition findSmallest :: "nat list \<Rightarrow> ruby_system \<Rightarrow> persistent_table \<Rightarrow> addr \<Rightarrow> machine_id result" where
  "findSmallest ct rs t a = ensure (a = line_address rs a) AssertFailed (
     case map_of t a of
       None \<Rightarrow> Inl AssertFailed
     | Some entry \<Rightarrow> NetDest_smallestElement ct (m_starving entry))"

definition typeOfSmallest :: "nat list \<Rightarrow> ruby_system \<Rightarrow> persistent_table \<Rightarrow> addr \<Rightarrow> AccessType result" where
  "typeOfSmallest ct rs t a = ensure (a = line_address rs a) AssertFailed (
     case map_of t a of
       None \<Rightarrow> Inl AssertFailed
     | Some entry \<Rightarrow> rbind (NetDest_smallestElement ct (m_starving entry)) (\<lambda>m.
         rbind (NetDest_isElement ct (m_request_to_write entry) m) (\<lambda>w.
         Inr (if w then AccessType_Write else AccessType_Read))))"

definition markEntries :: "ruby_system \<Rightarrow> persistent_table \<Rightarrow> addr \<Rightarrow> persistent_table result" where
  "markEntries rs t a = ensure (a = line_address rs a) AssertFailed (
     case map_of t a of
       None \<Rightarrow> Inr t
     | Some entry \<Rightarrow> ensure (NetDest_isEmpty (m_marked entry)) AssertFailed (
         Inr (AList.update a (entry\<lparr>m_marked := m_starving entry\<rparr>) t)))"

definition PersistentTable_isLocked :: "ruby_system \<Rightarrow> persistent_table \<Rightarrow> addr \<Rightarrow> bool result" where
  "PersistentTable_isLocked rs t a = ensure (a = line_address rs a) AssertFailed (Inr (map_of t a \<noteq> None))"

definition countStarvingForAddress :: "ruby_system \<Rightarrow> persistent_table \<Rightarrow> addr \<Rightarrow> int result" where
  "countStarvingForAddress rs t a = ensure (a = line_address rs a) AssertFailed (
     Inr (case map_of t a of None \<Rightarrow> 0 | Some entry \<Rightarrow> int (NetDest_count (m_starving entry))))"

definition countReadStarvingForAddress :: "ruby_system \<Rightarrow> persistent_table \<Rightarrow> addr \<Rightarrow> int result" where
  "countReadStarvingForAddress rs t a = ensure (a = line_address rs a) AssertFailed (
     Inr (case map_of t a of
       None \<Rightarrow> 0
     | Some entry \<Rightarrow> int (NetDest_count (m_starving entry)) - int (NetDest_count (m_request_to_write entry))))"

section \<open>Transactions in progress\<close>

text \<open>Distinct line addresses, no more than the limit, which is a positive \<open>int\<close>.\<close>

definition tbe_wf :: "ruby_system \<Rightarrow> 'e tbe_table \<Rightarrow> bool" where
  "tbe_wf rs t \<longleftrightarrow> distinct (map fst (tbe_map t)) \<and> (\<forall>a \<in> fst ` set (tbe_map t). line_address rs a = a) \<and>
     int (length (tbe_map t)) \<le> m_number_of_TBEs t \<and> m_number_of_TBEs t < 2 ^ 31"

lemma unat_of_int_u64: "0 \<le> n \<Longrightarrow> n < 2 ^ 64 \<Longrightarrow> unat (word_of_int n :: u64) = nat n"
  by (simp add: unsigned_of_int take_bit_int_eq_self)

lemma unat_of_nat_u64: "n < 2 ^ 64 \<Longrightarrow> unat (word_of_nat n :: u64) = n"
  by (simp add: unsigned_of_nat take_bit_nat_eq_self)

lemma tbe_sizes:
  assumes "tbe_wf rs t"
  shows "unat (tbe_size t) = length (tbe_map t)" "unat (tbe_limit t) = nat (m_number_of_TBEs t)"
    "tbe_size t \<le> tbe_limit t"
proof -
  have n: "int (length (tbe_map t)) \<le> m_number_of_TBEs t" "m_number_of_TBEs t < 2 ^ 64" "length (tbe_map t) < 2 ^ 64"
    using assms by (simp_all add: tbe_wf_def)
  show s: "unat (tbe_size t) = length (tbe_map t)"
    unfolding tbe_size_def using n by (intro unat_of_nat_u64)
  show l: "unat (tbe_limit t) = nat (m_number_of_TBEs t)"
    unfolding tbe_limit_def using n by (intro unat_of_int_u64) auto
  show "tbe_size t \<le> tbe_limit t" using n s l by (simp add: word_le_nat_alt)
qed

lemma TBETable_isPresent_ok:
  "tbe_wf rs t \<Longrightarrow> line_address rs a = a \<Longrightarrow> TBETable_isPresent rs t a = Inr (map_of (tbe_map t) a \<noteq> None)"
  by (simp add: TBETable_isPresent_def tbe_sizes)

lemma length_update_new: "k \<notin> fst ` set al \<Longrightarrow> length (AList.update k v al) = Suc (length al)"
  by (induction al) auto

lemma length_delete_old:
  "distinct (map fst al) \<Longrightarrow> k \<in> fst ` set al \<Longrightarrow> Suc (length (AList.delete k al)) = length al"
proof (induction al)
  case Nil
  then show ?case by simp
next
  case (Cons p al)
  show ?case
  proof (cases "fst p = k")
    case True
    then have "AList.delete k al = al" using Cons.prems by (intro delete_id) auto
    then show ?thesis using True by (cases p) simp
  next
    case False
    then show ?thesis using Cons by (cases p) auto
  qed
qed

lemma TBETable_allocate_spec:
  assumes "tbe_wf rs t" and "line_address rs a = a" and "TBETable_lookup t a = None"
    and "int (length (tbe_map t)) < m_number_of_TBEs t"
  shows "\<exists>t'. TBETable_allocate rs d t a = Inr t' \<and> tbe_wf rs t' \<and> m_number_of_TBEs t' = m_number_of_TBEs t \<and>
    length (tbe_map t') = Suc (length (tbe_map t)) \<and> TBETable_lookup t' = (TBETable_lookup t)(a \<mapsto> d)"
proof -
  have new: "a \<notin> fst ` set (tbe_map t)" using assms(3) by (simp add: TBETable_lookup_def map_of_eq_None_iff)
  have "tbe_size t < tbe_limit t" using tbe_sizes [OF assms(1)] assms(4) by (simp add: word_less_nat_alt)
  then have "TBETable_allocate rs d t a = Inr (t\<lparr>tbe_map := AList.update a d (tbe_map t)\<rparr>)"
    using assms(3) by (simp add: TBETable_allocate_def TBETable_isPresent_ok [OF assms(1,2)] TBETable_lookup_def)
  moreover have "tbe_wf rs (t\<lparr>tbe_map := AList.update a d (tbe_map t)\<rparr>)"
    using assms new by (auto simp: tbe_wf_def length_update_new distinct_update dom_update)
  ultimately show ?thesis
    using new by (auto simp: TBETable_lookup_def length_update_new update_conv' fun_eq_iff)
qed

lemma TBETable_deallocate_spec:
  assumes "tbe_wf rs t" and "line_address rs a = a" and "TBETable_lookup t a \<noteq> None"
  shows "\<exists>t'. TBETable_deallocate rs t a = Inr t' \<and> tbe_wf rs t' \<and> m_number_of_TBEs t' = m_number_of_TBEs t \<and>
    Suc (length (tbe_map t')) = length (tbe_map t) \<and> TBETable_lookup t' = (TBETable_lookup t)(a := None)"
proof -
  have old: "a \<in> fst ` set (tbe_map t)" using assms(3) by (auto simp: TBETable_lookup_def map_of_eq_None_iff)
  have d: "distinct (map fst (tbe_map t))" using assms(1) by (simp add: tbe_wf_def)
  have len: "Suc (length (AList.delete a (tbe_map t))) = length (tbe_map t)" by (rule length_delete_old [OF d old])
  then have "0 < unat (tbe_size t)" using tbe_sizes(1) [OF assms(1)] by linarith
  then have "0 < tbe_size t" by (simp only: u64_pos)
  then have "TBETable_deallocate rs t a = Inr (t\<lparr>tbe_map := AList.delete a (tbe_map t)\<rparr>)"
    using assms(3) by (simp add: TBETable_deallocate_def TBETable_isPresent_ok [OF assms(1,2)] TBETable_lookup_def)
  moreover have "tbe_wf rs (t\<lparr>tbe_map := AList.delete a (tbe_map t)\<rparr>)"
    using assms(1) len d distinct_delete [OF d, of a] by (auto simp: tbe_wf_def AList.delete_eq)
  ultimately show ?thesis using len by (simp add: TBETable_lookup_def delete_conv' fun_eq_iff)
qed

lemma TBETable_areNSlotsAvailable_iff:
  assumes "tbe_wf rs t" and "0 \<le> n" and "n < 2 ^ 31"
  shows "TBETable_areNSlotsAvailable t n \<longleftrightarrow> int (length (tbe_map t)) + n \<le> m_number_of_TBEs t"
proof -
  note s = tbe_sizes [OF assms(1)]
  have "unat (tbe_limit t - tbe_size t) = nat (m_number_of_TBEs t) - length (tbe_map t)"
    using s by (simp add: unat_diff_u64)
  then show ?thesis
    using assms unfolding TBETable_areNSlotsAvailable_def word_le_nat_alt tbe_wf_def
    by (subst unat_of_int_u64) auto
qed

lemma TBETable_allocate_all:
  assumes "tbe_wf rs t" and "distinct as" and "\<forall>a \<in> set as. line_address rs a = a \<and> TBETable_lookup t a = None"
    and "int (length (tbe_map t)) + int (length as) \<le> m_number_of_TBEs t"
  shows "\<exists>t'. rfold (TBETable_allocate rs d) t as = Inr t' \<and> tbe_wf rs t' \<and>
    TBETable_lookup t' = (\<lambda>a. if a \<in> set as then Some d else TBETable_lookup t a)"
  using assms
proof (induction as arbitrary: t)
  case Nil
  then show ?case by simp
next
  case (Cons a as)
  have "line_address rs a = a" "TBETable_lookup t a = None" "int (length (tbe_map t)) < m_number_of_TBEs t"
    using Cons.prems(3,4) by auto
  from TBETable_allocate_spec [OF Cons.prems(1) this, of d]
  obtain t1 where t1: "TBETable_allocate rs d t a = Inr t1" "tbe_wf rs t1" "m_number_of_TBEs t1 = m_number_of_TBEs t"
    "length (tbe_map t1) = Suc (length (tbe_map t))" "TBETable_lookup t1 = (TBETable_lookup t)(a \<mapsto> d)" by blast
  have "\<exists>t'. rfold (TBETable_allocate rs d) t1 as = Inr t' \<and> tbe_wf rs t' \<and>
      TBETable_lookup t' = (\<lambda>a. if a \<in> set as then Some d else TBETable_lookup t1 a)"
    using Cons.prems t1 by (intro Cons.IH) auto
  then show ?case using t1 by (auto simp: fun_eq_iff)
qed

section \<open>Timeouts\<close>

text \<open>The map is in the order of its keys, and a valid cache holds the entry with the least deadline,
  the one with the least address among several.\<close>

definition earliest :: "(addr \<times> cycles) list \<Rightarrow> addr \<Rightarrow> cycles \<Rightarrow> bool" where
  "earliest m a c \<longleftrightarrow> (a, c) \<in> set m \<and> (\<forall>(b, d) \<in> set m. c < d \<or> c = d \<and> a \<le> b)"

definition timer_wf :: "timer_table \<Rightarrow> bool" where
  "timer_wf t \<longleftrightarrow> sorted_wrt (<) (map fst (tt_map t)) \<and>
     (m_next_valid t \<longrightarrow> earliest (tt_map t) (m_next_address t) (m_next_time t))"

lemma next_timer_earliest:
  assumes "sorted_wrt (<) (map fst (p # m))"
  shows "earliest (p # m) (fst (next_timer p m)) (snd (next_timer p m))"
  using assms
proof (induction m arbitrary: p)
  case Nil
  then show ?case by (cases p) (simp add: earliest_def)
next
  case (Cons i m)
  let ?q = "if snd i < snd p then i else p"
  have "sorted_wrt (<) (map fst (?q # m))" using Cons.prems by auto
  note IH = Cons.IH [OF this]
  have p: "fst p < fst i" "\<forall>b \<in> set m. fst p < fst b" using Cons.prems by auto
  obtain r where r: "next_timer ?q m = r" by blast
  have e: "(fst r, snd r) \<in> set (?q # m)" "\<And>b d. (b, d) \<in> set (?q # m) \<Longrightarrow> snd r < d \<or> snd r = d \<and> fst r \<le> b"
    using IH r unfolding earliest_def by auto
  have "snd r < d \<or> snd r = d \<and> fst r \<le> b" if bd: "(b, d) \<in> set (p # i # m)" for b d
  proof -
    have q: "snd r < snd ?q \<or> snd r = snd ?q \<and> fst r \<le> fst ?q" using e(2) [of "fst ?q" "snd ?q"] by simp
    consider "(b, d) \<in> set (?q # m)" | "(b, d) = p" "snd i < snd p" | "(b, d) = i" "\<not> snd i < snd p"
      using bd by (cases "snd i < snd p") auto
    then show ?thesis
    proof cases
      case 1
      then show ?thesis by (rule e(2))
    next
      case 2
      then show ?thesis using q by auto
    next
      case 3
      then have "snd p \<le> d" "fst p < b" using p(1) by (auto simp: not_less)
      then show ?thesis using q 3(2) by auto
    qed
  qed
  moreover have "(fst r, snd r) \<in> set (p # i # m)" using e(1) by (auto split: if_splits)
  ultimately show ?case using r by (auto simp: earliest_def)
qed

lemma updateNext_spec:
  assumes "timer_wf t" and "tt_map t \<noteq> []"
  shows "\<exists>t'. TimerTable_updateNext t = Inr t' \<and> timer_wf t' \<and> m_next_valid t' \<and> tt_map t' = tt_map t \<and>
    tt_clockobj t' = tt_clockobj t"
proof -
  obtain i m where im: "tt_map t = i # m" using assms(2) by (cases "tt_map t") auto
  have "earliest (i # m) (fst (next_timer i m)) (snd (next_timer i m))"
    using assms(1) im by (intro next_timer_earliest) (simp add: timer_wf_def)
  then show ?thesis
    using assms(1) im by (simp add: TimerTable_updateNext_def timer_wf_def split_def Let_def)
qed

lemma isReady_spec:
  assumes "timer_wf t" and "tt_map t \<noteq> []" and "tt_clockobj t = Some o1"
  shows "\<exists>t'. TimerTable_isReady now t = Inr (m_next_time t' \<le> curCycle now o1, t') \<and> timer_wf t' \<and>
    m_next_valid t' \<and> tt_map t' = tt_map t"
proof (cases "m_next_valid t")
  case True
  then show ?thesis using assms by (auto simp: TimerTable_isReady_def)
next
  case False
  obtain t' where "TimerTable_updateNext t = Inr t'" "timer_wf t'" "m_next_valid t'" "tt_map t' = tt_map t"
    "tt_clockobj t' = tt_clockobj t" using updateNext_spec [OF assms(1,2)] by blast
  then show ?thesis using False assms by (simp add: TimerTable_isReady_def)
qed

lemma amap_set_keys: "fst ` set (amap_set a v m) = insert a (fst ` set m)"
  by (induction a v m rule: amap_set.induct) auto

lemma amap_set_sorted: "sorted_wrt (<) (map fst m) \<Longrightarrow> sorted_wrt (<) (map fst (amap_set a v m))"
proof (induction m)
  case Nil
  then show ?case by simp
next
  case (Cons p m)
  obtain b w where p: "p = (b, w)" by (cases p)
  have keys: "\<forall>x \<in> set (map fst m). b < x" using Cons.prems p by simp
  have "\<forall>x \<in> set (map fst (amap_set a v m)). x = a \<or> b < x"
    using keys amap_set_keys [of a v m] by auto
  then show ?case using Cons p keys by (auto simp: not_less)
qed

lemma amap_set_map_of: "map_of (amap_set a v m) = (map_of m)(a \<mapsto> v)" if "sorted_wrt (<) (map fst m)"
  using that
proof (induction m)
  case Nil
  then show ?case by simp
next
  case (Cons p m)
  then show ?case by (cases p) (auto simp: fun_upd_twist)
qed

lemma sorted_delete: "sorted_wrt (<) (map fst m) \<Longrightarrow> sorted_wrt (<) (map fst (AList.delete a m))"
  by (induction m) (auto simp: AList.delete_eq)

lemma timer_wf_set:
  assumes "timer_wf t" and "TimerTable_set now rs t a c = Inr (t', calls)"
  shows "timer_wf t' \<and> \<not> m_next_valid t' \<and> tt_clockobj t' = tt_clockobj t \<and> tt_consumer t' = tt_consumer t"
  using assms
  by (auto simp: TimerTable_set_def timer_wf_def Let_def amap_set_sorted split: if_splits)

lemma TimerTable_set_ok:
  assumes "timer_wf t" and "line_address rs a = a" and "0 < c" and "\<not> TimerTable_isSet t a"
    and "tt_clockobj t = Some o1" and "tt_consumer t"
  shows "\<exists>t'. TimerTable_set now rs t a c = Inr (t', [ScheduleEventAbsolute (co_period o1 * (curCycle now o1 + c))]) \<and>
    timer_wf t' \<and> map_of (tt_map t') = (map_of (tt_map t))(a \<mapsto> curCycle now o1 + c)"
proof -
  obtain t' where t': "TimerTable_set now rs t a c = Inr (t', [ScheduleEventAbsolute (co_period o1 * (curCycle now o1 + c))])"
    "tt_map t' = amap_set a (curCycle now o1 + c) (tt_map t)"
    using assms(2-) by (simp add: TimerTable_set_def TimerTable_isSet_def Let_def)
  moreover have "sorted_wrt (<) (map fst (tt_map t))" using assms(1) by (simp add: timer_wf_def)
  ultimately show ?thesis using timer_wf_set [OF assms(1) t'(1)] by (simp add: amap_set_map_of)
qed

lemma earliest_delete: "earliest m a c \<Longrightarrow> b \<noteq> a \<Longrightarrow> earliest (AList.delete b m) a c"
  by (auto simp: earliest_def AList.delete_eq)

lemma TimerTable_unset_ok:
  assumes "timer_wf t" and "line_address rs a = a" and "TimerTable_isSet t a"
  shows "\<exists>t'. TimerTable_unset rs t a = Inr t' \<and> timer_wf t' \<and> tt_map t' = AList.delete a (tt_map t)"
  using assms
  by (auto simp: TimerTable_unset_def TimerTable_isSet_def timer_wf_def Let_def sorted_delete earliest_delete)

section \<open>Wires\<close>

text \<open>The clock of the system never goes back, and every message takes the same number \<open>L\<close> of
  cycles: the state is the buffer together with the cycle of the last enqueue.\<close>

definition wire_inv :: "cycles \<Rightarrow> cycles \<times> 'm wire_buffer \<Rightarrow> bool" where
  "wire_inv L = (\<lambda>(c, b). is_heap node_key (wb_message_queue b) \<and> distinct (map m_msg_counter (wb_message_queue b)) \<and>
     (\<forall>n \<in> set (wb_message_queue b). m_msg_counter n \<le> wb_msg_counter b) \<and>
     (\<forall>n \<in> set (wb_message_queue b). \<exists>k \<le> c. k < k + L \<and> m_time n = k + L))"

definition wire_contents :: "cycles \<times> 'm wire_buffer \<Rightarrow> 'm message list" where
  "wire_contents = (\<lambda>(c, b). map m_msgptr (sort_key node_key (wb_message_queue b)))"

definition wire_budget :: "cycles \<times> 'm wire_buffer \<Rightarrow> nat" where
  "wire_budget = (\<lambda>(c, b). 2 ^ 64 - 1 - unat (wb_msg_counter b))"

definition wire_enq :: "clocked_object \<Rightarrow> cycles \<Rightarrow> tick \<times> 'm message \<Rightarrow> cycles \<times> 'm wire_buffer \<Rightarrow>
    (cycles \<times> 'm wire_buffer) result" where
  "wire_enq sys L = (\<lambda>(now, m) (c, b). ensure (c \<le> curCycle now sys) AssertFailed (
     rmap (\<lambda>(b', calls). (curCycle now sys, b')) (WireBuffer_enqueue now sys b m L)))"

definition wire_deq :: "clocked_object \<Rightarrow> tick \<Rightarrow> cycles \<times> 'm wire_buffer \<Rightarrow>
    ('m message \<times> cycles \<times> 'm wire_buffer) result" where
  "wire_deq sys now = (\<lambda>(c, b). rbind (WireBuffer_peek now sys b) (\<lambda>m.
     rmap (\<lambda>b'. (m, c, b')) (WireBuffer_dequeue now sys b)))"

lemma u64_add_mono: "(k :: u64) \<le> c \<Longrightarrow> c < c + L \<Longrightarrow> k + L \<le> c + L \<and> (0 < L \<longrightarrow> k < k + L)"
proof -
  assume k: "k \<le> c" and c: "c < c + L"
  have "unat c + unat L < 2 ^ 64"
  proof (rule ccontr)
    assume "\<not> unat c + unat L < 2 ^ 64"
    then have "unat (c + L) = unat c + unat L - 2 ^ 64"
      using u64_bounded [of c] u64_bounded [of L] by (simp add: unat_word_ariths mod_if le_mod_geq)
    then show False using c u64_bounded [of L] by (simp add: word_less_nat_alt)
  qed
  then have "unat (c + L) = unat c + unat L" "unat (k + L) = unat k + unat L"
    using k by (simp_all add: unat_add_u64 word_le_nat_alt)
  then show ?thesis using k by (simp add: word_le_nat_alt word_less_nat_alt)
qed

text \<open>A node with the greatest key may be appended without sifting.\<close>

lemma is_heap_snoc:
  assumes "is_heap key xs" and "\<forall>x \<in> set xs. key x \<le> key n"
  shows "is_heap key (xs @ [n])"
  unfolding is_heap_def
proof (intro allI impI)
  fix i assume i: "0 < i \<and> i < length (xs @ [n])"
  then have p: "heap_parent i < length xs" using heap_parent_less [of i] by simp
  show "key ((xs @ [n]) ! heap_parent i) \<le> key ((xs @ [n]) ! i)"
  proof (cases "i < length xs")
    case True
    then show ?thesis using assms(1) i p by (simp add: is_heap_def nth_append)
  next
    case False
    then have "i = length xs" using i by simp
    then show ?thesis using assms(2) p by (simp add: nth_append)
  qed
qed

lemma wire_enq_contents:
  assumes "wire_inv L (c, b)" and "wb_msg_counter b \<noteq> - 1" and "wire_enq sys L (now, m) (c, b) = Inr (c', b')"
  shows "wire_inv L (c', b') \<and> wire_contents (c', b') = wire_contents (c, b) @ [m] \<and>
    wb_msg_counter b' = wb_msg_counter b + 1"
proof -
  let ?cur = "curCycle now sys" and ?q = "wb_message_queue b"
  define n where "n = \<lparr>m_time = ?cur + L, m_msg_counter = wb_msg_counter b + 1, m_msgptr = m\<rparr>"
  have e: "c \<le> ?cur" "?cur < ?cur + L" "c' = ?cur" "wb_message_queue b' = ?q @ [n]" "wb_msg_counter b' = wb_msg_counter b + 1"
    using assms(3) by (auto simp: wire_enq_def WireBuffer_enqueue_def Let_def ensure_def n_def split: if_splits)
  have inv: "is_heap node_key ?q" "distinct (map m_msg_counter ?q)" "\<forall>x \<in> set ?q. m_msg_counter x \<le> wb_msg_counter b"
    "\<forall>x \<in> set ?q. \<exists>k \<le> c. k < k + L \<and> m_time x = k + L" using assms(1) by (auto simp: wire_inv_def)
  have less: "m_msg_counter x < wb_msg_counter b + 1" if "x \<in> set ?q" for x
    using inv(3) that u64_less_plus_1 [OF assms(2)] by (meson le_less_trans)
  have old: "m_time x \<le> m_time n" if x: "x \<in> set ?q" for x
  proof -
    obtain k where "k \<le> c" "m_time x = k + L" using bspec [OF inv(4) x] by (elim exE conjE)
    then show ?thesis using u64_add_mono [of k ?cur L] e(1,2) by (simp add: n_def)
  qed
  have key: "\<forall>x \<in> set ?q. node_key x \<le> node_key n"
    using old less by (auto simp: node_key_def n_def less_imp_le)
  have d: "distinct (map m_msg_counter (?q @ [n]))" using inv(2) less [THEN less_imp_neq] unfolding n_def by (simp add: image_iff) metis
  have h: "is_heap node_key (?q @ [n])" using is_heap_snoc [OF inv(1) key] .
  have time: "\<forall>x \<in> set (?q @ [n]). \<exists>k \<le> c'. k < k + L \<and> m_time x = k + L"
  proof
    fix x assume "x \<in> set (?q @ [n])"
    then consider (old) "x \<in> set ?q" | (new) "x = n" by auto
    then show "\<exists>k \<le> c'. k < k + L \<and> m_time x = k + L"
    proof cases
      case old
      obtain k where k: "k \<le> c" "k < k + L" "m_time x = k + L" using bspec [OF inv(4) old] by (elim exE conjE)
      then have "k \<le> c'" using e(1,3) by simp
      then show ?thesis using k(2,3) by (intro exI conjI)
    next
      case new
      then have "m_time x = c' + L" "c' < c' + L" using e(2,3) by (simp_all add: n_def)
      then show ?thesis by (intro exI [of _ c']) simp
    qed
  qed
  have cnt: "\<forall>x \<in> set (?q @ [n]). m_msg_counter x \<le> wb_msg_counter b + 1"
  proof
    fix x assume "x \<in> set (?q @ [n])"
    then consider "x \<in> set ?q" | "x = n" by auto
    then show "m_msg_counter x \<le> wb_msg_counter b + 1" by cases (use less in \<open>simp_all add: n_def less_imp_le\<close>)
  qed
  have "wire_inv L (c', b')" unfolding wire_inv_def prod.case e(4,5) using h d cnt time by blast
  moreover have "sort_key node_key (?q @ [n]) = sort_key node_key ?q @ [n]"
    using key by (intro sort_key_snoc counters_keys_distinct d) auto
  ultimately show ?thesis by (simp add: wire_contents_def e(4,5) n_def)
qed

lemma wire_deq_contents:
  assumes "wire_inv L (c, b)" and "wire_deq sys now (c, b) = Inr (m, c', b')"
  shows "wire_inv L (c', b') \<and> wire_contents (c, b) = m # wire_contents (c', b') \<and>
    wb_msg_counter b' = wb_msg_counter b"
proof -
  let ?q = "wb_message_queue b"
  have ne: "?q \<noteq> []" and m: "m = m_msgptr (hd ?q)" "c' = c"
    using assms(2) by (auto simp: wire_deq_def WireBuffer_dequeue_def WireBuffer_peek_def WireBuffer_peekNode_def
        WireBuffer_isReady_def front_def rmap_def split: list.splits)
  have inv: "is_heap node_key ?q" "distinct (map m_msg_counter ?q)" using assms(1) by (auto simp: wire_inv_def)
  obtain ys where ys: "pop_heap node_greater ?q = Inr (ys @ [hd ?q])" "mset ?q = add_mset (hd ?q) (mset ys)"
    "is_heap node_key ys" "distinct (map m_msg_counter ys)" "set ys = set ?q - {hd ?q}"
    "\<forall>n \<in> set ?q. node_key (hd ?q) \<le> node_key n"
    using pop_node [OF inv ne] by blast
  have b': "b' = b\<lparr>wb_message_queue := ys\<rparr>"
    using assms(2) ys(1) by (auto simp: wire_deq_def WireBuffer_dequeue_def rmap_def)
  have "sort_key node_key ?q = hd ?q # sort_key node_key ys"
    using sort_key_cons [OF ys(2) counters_keys_distinct [OF inv(2)]] ys(5,6) by auto
  then show ?thesis using assms(1) ys b' m by (auto simp: wire_inv_def wire_contents_def)
qed

interpretation wbq: fifo_buffer "wire_inv L" wire_contents wire_budget "\<lambda>_. True" snd "wire_enq sys L" "wire_deq sys"
proof unfold_locales
  fix s s' :: "cycles \<times> 'm wire_buffer" and x :: "tick \<times> 'm message"
  assume a: "wire_inv L s" "0 < wire_budget s" "wire_enq sys L x s = Inr s'"
  obtain c b c' b' now m where p: "s = (c, b)" "s' = (c', b')" "x = (now, m)" by (cases s; cases s'; cases x)
  have max: "wb_msg_counter b \<noteq> - 1" using a(2) by (simp add: wire_budget_def p u64_not_max)
  have "unat (wb_msg_counter b + 1) = unat (wb_msg_counter b) + 1"
    using max by (simp add: u64_not_max unat_add_u64)
  then show "wire_inv L s' \<and> wire_contents s' = wire_contents s @ [snd x] \<and> wire_budget s = Suc (wire_budget s')"
    using wire_enq_contents [OF a(1) [unfolded p] max a(3) [unfolded p]] max
    by (simp add: p wire_budget_def u64_not_max)
next
  fix s s' :: "cycles \<times> 'm wire_buffer" and y v
  assume a: "wire_inv L s" "wire_deq sys y s = Inr (v, s')"
  obtain c b c' b' where p: "s = (c, b)" "s' = (c', b')" by (cases s; cases s')
  show "wire_inv L s' \<and> wire_contents s = v # wire_contents s' \<and> wire_budget s' = wire_budget s"
    using wire_deq_contents [OF a(1) [unfolded p(1)] a(2) [unfolded p]] by (simp add: p wire_budget_def)
qed

section \<open>Persistent requests\<close>

definition entry_wf :: "nat list \<Rightarrow> persistent_entry \<Rightarrow> bool" where
  "entry_wf ct e \<longleftrightarrow> net_dest_wf ct (m_starving e) \<and> net_dest_wf ct (m_marked e) \<and>
     net_dest_wf ct (m_request_to_write e) \<and> dests (m_starving e) \<noteq> {} \<and>
     dests (m_marked e) \<subseteq> dests (m_starving e) \<and> dests (m_request_to_write e) \<subseteq> dests (m_starving e)"

definition persistent_wf :: "nat list \<Rightarrow> ruby_system \<Rightarrow> persistent_table \<Rightarrow> bool" where
  "persistent_wf ct rs t \<longleftrightarrow> (\<forall>n \<in> set ct. n < 32) \<and>
     (\<forall>a e. map_of t a = Some e \<longrightarrow> line_address rs a = a \<and> entry_wf ct e)"

text \<open>The starving requesters of a line, and those of them that want to write.\<close>

definition starving :: "persistent_table \<Rightarrow> addr \<Rightarrow> (nat \<times> nat) set" where
  "starving t a = (case map_of t a of None \<Rightarrow> {} | Some e \<Rightarrow> dests (m_starving e))"

definition writers :: "persistent_table \<Rightarrow> addr \<Rightarrow> (nat \<times> nat) set" where
  "writers t a = (case map_of t a of None \<Rightarrow> {} | Some e \<Rightarrow> dests (m_request_to_write e))"

lemma persistent_wf_update:
  assumes "persistent_wf ct rs t" and "line_address rs a = a" and "entry_wf ct e"
  shows "persistent_wf ct rs (AList.update a e t)"
  using assms by (auto simp: persistent_wf_def update_conv')

lemma persistent_wf_entry:
  assumes "persistent_wf ct rs t" and "map_of t a = Some e"
  shows "entry_wf ct e" "line_address rs a = a"
  using assms by (auto simp: persistent_wf_def)

lemma PersistentTableEntry_new_spec:
  assumes "\<forall>n \<in> set ct. n < 32"
  shows "\<exists>e. PersistentTableEntry_new ct = Inr e \<and> net_dest_wf ct (m_starving e) \<and> net_dest_wf ct (m_marked e) \<and>
    net_dest_wf ct (m_request_to_write e) \<and> dests (m_starving e) = {} \<and> dests (m_marked e) = {} \<and>
    dests (m_request_to_write e) = {}"
  using NetDest_new_spec [OF assms] by (auto simp: PersistentTableEntry_new_def)

text \<open>The entry that a lock works on: the one present, or a new one.\<close>

lemma lock_entry:
  assumes "persistent_wf ct rs t"
  shows "\<exists>d. PersistentTableEntry_new ct = Inr d \<and>
    (let e = (case map_of t a of Some e \<Rightarrow> e | None \<Rightarrow> d)
     in net_dest_wf ct (m_starving e) \<and> net_dest_wf ct (m_marked e) \<and> net_dest_wf ct (m_request_to_write e) \<and>
        dests (m_starving e) = starving t a \<and> dests (m_request_to_write e) = writers t a \<and>
        dests (m_marked e) \<subseteq> starving t a \<and> writers t a \<subseteq> starving t a)"
proof -
  obtain d where d: "PersistentTableEntry_new ct = Inr d" "net_dest_wf ct (m_starving d)" "net_dest_wf ct (m_marked d)"
    "net_dest_wf ct (m_request_to_write d)" "dests (m_starving d) = {}" "dests (m_marked d) = {}"
    "dests (m_request_to_write d) = {}"
    using PersistentTableEntry_new_spec assms unfolding persistent_wf_def by blast
  show ?thesis
  proof (cases "map_of t a")
    case None
    then show ?thesis using d by (simp add: starving_def writers_def)
  next
    case (Some e)
    then show ?thesis
      using d(1) persistent_wf_entry [OF assms Some] by (simp add: starving_def writers_def entry_wf_def)
  qed
qed

lemma persistentRequestLock_spec:
  assumes "persistent_wf ct rs t" and "line_address rs a = a" and "u < length ct" and "i < ct ! u"
    and "(u, i) \<notin> starving t a"
  shows "\<exists>t'. persistentRequestLock ct rs t a \<lparr>mach_type = u, mach_num = i\<rparr> ty = Inr t' \<and> persistent_wf ct rs t' \<and>
    starving t' = (starving t)(a := insert (u, i) (starving t a)) \<and>
    writers t' = (writers t)(a := (if ty = AccessType_Write then insert (u, i) else id) (writers t a))"
proof -
  let ?m = "\<lparr>mach_type = u, mach_num = i\<rparr>"
  obtain d where d: "PersistentTableEntry_new ct = Inr d" and
    "let e = (case map_of t a of Some e \<Rightarrow> e | None \<Rightarrow> d)
     in net_dest_wf ct (m_starving e) \<and> net_dest_wf ct (m_marked e) \<and> net_dest_wf ct (m_request_to_write e) \<and>
        dests (m_starving e) = starving t a \<and> dests (m_request_to_write e) = writers t a \<and>
        dests (m_marked e) \<subseteq> starving t a \<and> writers t a \<subseteq> starving t a"
    using lock_entry [OF assms(1), of a] by blast
  moreover define e where "e = (case map_of t a of Some e \<Rightarrow> e | None \<Rightarrow> d)"
  ultimately have e: "net_dest_wf ct (m_starving e)" "net_dest_wf ct (m_marked e)" "net_dest_wf ct (m_request_to_write e)"
    "dests (m_starving e) = starving t a" "dests (m_request_to_write e) = writers t a"
    "dests (m_marked e) \<subseteq> starving t a" "writers t a \<subseteq> starving t a" by (simp_all add: Let_def)
  obtain st where st: "NetDest_add ct (m_starving e) ?m = Inr st" "net_dest_wf ct st" "dests st = insert (u, i) (starving t a)"
    using NetDest_add_spec [OF e(1) assms(3,4)] e(4) by auto
  obtain wr where wr: "(if ty = AccessType_Write then NetDest_add ct (m_request_to_write e) ?m
      else Inr (m_request_to_write e)) = Inr wr" "net_dest_wf ct wr"
    "dests wr = (if ty = AccessType_Write then insert (u, i) else id) (writers t a)"
    using NetDest_add_spec [OF e(3) assms(3,4)] e(3,5) by (cases ty) auto
  have el: "NetDest_isElement ct (m_starving e) ?m = Inr False"
    using NetDest_isElement_spec [OF e(1) assms(3,4)] e(4) assms(5) by simp
  have sub: "NetDest_isSubset (m_marked e) st = Inr True"
    using NetDest_test_spec(1) [OF st(2) e(2)] e(6) st(3) by (auto simp: NetDest_isSubset_def)
  let ?e' = "e\<lparr>m_starving := st, m_request_to_write := wr\<rparr>"
  have "persistentRequestLock ct rs t a ?m ty = Inr (AList.update a ?e' t)"
    unfolding persistentRequestLock_def d rbind_Inr Let_def e_def [symmetric] wr(1)
    using assms(2) el st(1) sub by auto
  moreover have "entry_wf ct ?e'" using e st wr by (auto simp: entry_wf_def)
  ultimately show ?thesis
    using persistent_wf_update [OF assms(1,2)] st(3) wr(3)
    by (auto simp: starving_def writers_def update_conv' fun_eq_iff)
qed

lemma markEntries_spec:
  assumes "persistent_wf ct rs t" and "markEntries rs t a = Inr t'"
  shows "persistent_wf ct rs t' \<and> starving t' = starving t \<and> writers t' = writers t"
proof (cases "map_of t a")
  case None
  then show ?thesis using assms by (simp add: markEntries_def)
next
  case (Some e)
  then have t': "t' = AList.update a (e\<lparr>m_marked := m_starving e\<rparr>) t" using assms(2) by (simp add: markEntries_def)
  have "entry_wf ct (e\<lparr>m_marked := m_starving e\<rparr>)"
    using persistent_wf_entry(1) [OF assms(1) Some] by (simp add: entry_wf_def)
  then show ?thesis
    using persistent_wf_update [OF assms(1) persistent_wf_entry(2) [OF assms(1) Some]] Some
    by (auto simp: t' starving_def writers_def update_conv' fun_eq_iff)
qed

lemma persistentRequestUnlock_spec:
  assumes "persistent_wf ct rs t" and "u < length ct" and "i < ct ! u" and "(u, i) \<in> starving t a"
  shows "\<exists>t'. persistentRequestUnlock ct rs t a \<lparr>mach_type = u, mach_num = i\<rparr> = Inr t' \<and> persistent_wf ct rs t' \<and>
    starving t' = (starving t)(a := starving t a - {(u, i)}) \<and> writers t' = (writers t)(a := writers t a - {(u, i)})"
proof -
  let ?m = "\<lparr>mach_type = u, mach_num = i\<rparr>"
  obtain e where some: "map_of t a = Some e" using assms(4) by (auto simp: starving_def split: option.splits)
  have line: "line_address rs a = a" and wf: "entry_wf ct e" using persistent_wf_entry [OF assms(1) some] by simp_all
  have e: "net_dest_wf ct (m_starving e)" "net_dest_wf ct (m_marked e)" "net_dest_wf ct (m_request_to_write e)"
    "dests (m_starving e) = starving t a" "dests (m_request_to_write e) = writers t a"
    "dests (m_marked e) \<subseteq> starving t a" "writers t a \<subseteq> starving t a"
    using wf some by (simp_all add: entry_wf_def starving_def writers_def)
  obtain st where st: "NetDest_remove ct (m_starving e) ?m = Inr st" "net_dest_wf ct st" "dests st = starving t a - {(u, i)}"
    using NetDest_remove_spec [OF e(1) assms(2,3)] e(4) by auto
  obtain mk where mk: "NetDest_remove ct (m_marked e) ?m = Inr mk" "net_dest_wf ct mk" "dests mk = dests (m_marked e) - {(u, i)}"
    using NetDest_remove_spec [OF e(2) assms(2,3)] by auto
  obtain wr where wr: "NetDest_remove ct (m_request_to_write e) ?m = Inr wr" "net_dest_wf ct wr" "dests wr = writers t a - {(u, i)}"
    using NetDest_remove_spec [OF e(3) assms(2,3)] e(5) by auto
  have el: "NetDest_isElement ct (m_starving e) ?m = Inr True"
    using NetDest_isElement_spec [OF e(1) assms(2,3)] e(4) assms(4) by simp
  have sub: "NetDest_isSubset (m_marked e) (m_starving e) = Inr True" "NetDest_isSubset mk st = Inr True"
    using NetDest_test_spec(1) [OF e(1,2)] NetDest_test_spec(1) [OF st(2) mk(2)] e(4,6) st(3) mk(3)
    by (auto simp: NetDest_isSubset_def)
  have emp: "NetDest_isEmpty st \<longleftrightarrow> dests st = {}" "NetDest_isEmpty mk \<longleftrightarrow> dests mk = {}"
    by (rule NetDest_isEmpty_spec, fact)+
  let ?e' = "\<lparr>m_starving = st, m_marked = mk, m_request_to_write = wr\<rparr>"
  have "persistentRequestUnlock ct rs t a ?m =
      (if dests st = {} then ensure (dests mk = {}) AssertFailed (Inr (AList.delete a t)) else Inr (AList.update a ?e' t))"
    using line some el sub st(1) mk(1) wr(1) emp by (simp add: persistentRequestUnlock_def)
  moreover have "dests mk \<subseteq> dests st" using e(6) mk(3) st(3) by auto
  moreover have "persistent_wf ct rs (AList.delete a t)"
    using assms(1) by (auto simp: persistent_wf_def delete_conv' split: if_splits)
  moreover have "persistent_wf ct rs (AList.update a ?e' t)" if "dests st \<noteq> {}"
    using that e(6,7) st mk wr by (intro persistent_wf_update [OF assms(1) line]) (auto simp: entry_wf_def)
  moreover have "writers t a - {(u, i)} = {}" if "dests st = {}" using that st(3) e(7) by auto
  ultimately show ?thesis
    using st(3) wr(3)
    by (cases "dests st = {}") (auto simp: starving_def writers_def update_conv' delete_conv' fun_eq_iff)
qed

lemma countReadStarving_spec:
  assumes "persistent_wf ct rs t" and "line_address rs a = a"
  shows "countReadStarvingForAddress rs t a = Inr (int (card (starving t a - writers t a)))"
proof (cases "map_of t a")
  case None
  then show ?thesis using assms by (simp add: countReadStarvingForAddress_def starving_def)
next
  case (Some e)
  have wf: "entry_wf ct e" by (rule persistent_wf_entry [OF assms(1) Some])
  then have "finite (dests (m_request_to_write e))" by (auto simp: entry_wf_def intro: dests_finite)
  then have "int (card (dests (m_starving e) - dests (m_request_to_write e))) =
      int (card (dests (m_starving e))) - int (card (dests (m_request_to_write e)))"
    using wf by (subst card_Diff_subset) (auto simp: entry_wf_def of_nat_diff card_mono dests_finite)
  moreover have "NetDest_count (m_starving e) = card (dests (m_starving e))"
    "NetDest_count (m_request_to_write e) = card (dests (m_request_to_write e))"
    using wf by (auto simp: entry_wf_def intro: NetDest_count_spec)
  ultimately show ?thesis
    using assms(2) Some by (simp add: countReadStarvingForAddress_def starving_def writers_def)
qed

section \<open>Properties\<close>

text \<open>C?: when \<open>areNSlotsAvailable\<close> of a transaction table says that \<open>n\<close> slots are free, any \<open>n\<close> distinct
  line addresses without an entry can be allocated one after the other: no assertion of \<open>allocate\<close>
  fails, each address then has a default entry, and no other entry changes; when it says no, the
  table would exceed its limit.\<close>

theorem tbe_slots_suffice:
  assumes "tbe_wf rs t" and "distinct as" and "length as < 2 ^ 31"
    and "\<forall>a \<in> set as. line_address rs a = a \<and> TBETable_lookup t a = None"
  shows "if TBETable_areNSlotsAvailable t (int (length as))
    then \<exists>t'. rfold (TBETable_allocate rs d) t as = Inr t' \<and> tbe_wf rs t' \<and>
      TBETable_lookup t' = (\<lambda>a. if a \<in> set as then Some d else TBETable_lookup t a)
    else m_number_of_TBEs t < int (length (tbe_map t) + length as)"
proof -
  have "TBETable_areNSlotsAvailable t (int (length as)) \<longleftrightarrow>
      int (length (tbe_map t)) + int (length as) \<le> m_number_of_TBEs t"
    using assms(1,3) by (intro TBETable_areNSlotsAvailable_iff) simp_all
  then show ?thesis using TBETable_allocate_all [OF assms(1,2,4)] by simp
qed

lemma line64: "line_address ruby64 64 = 64" "line_address ruby64 128 = 128"
  by code_simp+

theorem tbe_slots_suffice_witness:
  "\<exists>t'. rfold (TBETable_allocate ruby64 (0 :: nat)) (TBETable_new 2) [64, 128] = Inr t' \<and>
     TBETable_lookup t' 64 = Some 0"
proof -
  let ?t = "TBETable_new 2 :: nat tbe_table"
  have "TBETable_areNSlotsAvailable ?t (int (length [64 :: addr, 128]))" "tbe_wf ruby64 ?t"
    by (simp_all add: TBETable_new_def TBETable_areNSlotsAvailable_def tbe_limit_def tbe_size_def tbe_wf_def)
  moreover have "\<forall>a \<in> set [64, 128]. line_address ruby64 a = a \<and> TBETable_lookup ?t a = None"
    by (simp add: line64 TBETable_new_def TBETable_lookup_def)
  ultimately show ?thesis using tbe_slots_suffice [of ruby64 ?t "[64, 128]" 0] by auto
qed

text \<open>C?: the cached next timeout of a timer table is always the right one, whatever the order of \<open>set\<close>,
  \<open>unset\<close> and queries: \<open>isReady\<close> holds exactly when some deadline has passed, \<open>readyAddress\<close> then returns
  the address with the earliest deadline (the least address among equal deadlines), and \<open>set\<close> and
  \<open>unset\<close> of line addresses succeed, keep the invariant and change only the entry they name.\<close>

theorem timer_next_is_earliest:
  assumes "timer_wf t" and "tt_clockobj t = Some o1" and "tt_consumer t" and "line_address rs a = a" and "0 < c"
  shows "(\<exists>r t1. TimerTable_isReady now t = Inr (r, t1) \<and> timer_wf t1 \<and> tt_map t1 = tt_map t \<and>
      (r \<longleftrightarrow> (\<exists>(b, d) \<in> set (tt_map t). d \<le> curCycle now o1)) \<and>
      (if r then \<exists>b d t2. TimerTable_readyAddress now t = Inr (b, t2) \<and> earliest (tt_map t) b d \<and> timer_wf t2
       else TimerTable_readyAddress now t = Inl AssertFailed)) \<and>
    (if TimerTable_isSet t a
     then \<exists>t'. TimerTable_unset rs t a = Inr t' \<and> timer_wf t' \<and> map_of (tt_map t') = (map_of (tt_map t))(a := None)
     else \<exists>t' calls. TimerTable_set now rs t a c = Inr (t', calls) \<and> timer_wf t' \<and>
        map_of (tt_map t') = (map_of (tt_map t))(a \<mapsto> curCycle now o1 + c))" (is "?ready \<and> ?change")
proof -
  have ?change
  proof (cases "TimerTable_isSet t a")
    case True
    then show ?thesis using TimerTable_unset_ok [OF assms(1,4)] by (auto simp: delete_conv')
  next
    case False
    from TimerTable_set_ok [OF assms(1,4,5) this assms(2,3), of now] False show ?thesis by auto
  qed
  moreover have ?ready
  proof (cases "tt_map t = []")
    case True
    then have "TimerTable_isReady now t = Inr (False, t)" "TimerTable_readyAddress now t = Inl AssertFailed"
      by (simp_all add: TimerTable_isReady_def TimerTable_readyAddress_def)
    then show ?thesis using assms(1) True by auto
  next
    case False
    obtain t1 where t1: "TimerTable_isReady now t = Inr (m_next_time t1 \<le> curCycle now o1, t1)" "timer_wf t1"
      "m_next_valid t1" "tt_map t1 = tt_map t" using isReady_spec [OF assms(1) False assms(2)] by blast
    have e: "earliest (tt_map t) (m_next_address t1) (m_next_time t1)" using t1 by (simp add: timer_wf_def)
    have iff: "m_next_time t1 \<le> curCycle now o1 \<longleftrightarrow> (\<exists>(b, d) \<in> set (tt_map t). d \<le> curCycle now o1)"
      using e unfolding earliest_def by fastforce
    show ?thesis
    proof (cases "m_next_time t1 \<le> curCycle now o1")
      case True
      then have "TimerTable_readyAddress now t = Inr (m_next_address t1, t1)"
        using t1 by (simp add: TimerTable_readyAddress_def)
      then show ?thesis using t1 iff e True by auto
    next
      case late: False
      then have "TimerTable_readyAddress now t = Inl AssertFailed"
        using t1(1) by (simp add: TimerTable_readyAddress_def ensure_def)
      then show ?thesis using t1 iff late by auto
    qed
  qed
  ultimately show ?thesis by blast
qed

definition timer_example :: timer_table where
  "timer_example = \<lparr>tt_map = [(64, 9), (128, 3)], m_next_valid = False, m_next_time = 0, m_next_address = 0,
     tt_clockobj = Some clock500, tt_consumer = True\<rparr>"

theorem timer_next_is_earliest_witness:
  "\<exists>r t1. TimerTable_isReady 2000 timer_example = Inr (r, t1) \<and>
     (r \<longleftrightarrow> (\<exists>(b, d) \<in> set (tt_map timer_example). d \<le> curCycle 2000 clock500))"
proof -
  have "timer_wf timer_example" "tt_clockobj timer_example = Some clock500" "tt_consumer timer_example"
    by (simp_all add: timer_wf_def timer_example_def)
  from timer_next_is_earliest [OF this line64(1), of 1 2000, THEN conjunct1] show ?thesis by auto
qed

text \<open>A wire that gives every message the same latency is a queue: over any run of enqueues and
  dequeues in which the clock does not go back, the messages come out in the order they went in.\<close>

lemma wire_buffer_fifo:
  assumes "wire_inv L s" and "length (enqueued ops) \<le> wire_budget s"
    and "buffer_run (wire_enq sys L) (wire_deq sys) ops s = Inr (out, s')"
  shows "wire_inv L s' \<and> wire_contents s @ map snd (enqueued ops) = out @ wire_contents s'"
  using wbq.run_fifo [OF assms(1) _ assms(2,3)] by simp

definition wire_example :: "cycles \<times> nat wire_buffer" where
  "wire_example = (0, WireBuffer_setConsumer WireBuffer_new)"

definition wire_ops :: "(tick \<times> nat message, tick) buffer_op list" where
  "wire_ops = [Enq (0, Message_new 0 7), Enq (500, Message_new 500 8), Deq 2000]"

text \<open>With latencies that differ, \<open>push_back\<close> alone leaves the vector without the heap order: a message
  that has arrived is not seen behind one that has not.\<close>

lemma wire_buffer_overtaking_hidden:
  "rbind (WireBuffer_enqueue 0 clock500 (snd wire_example) (Message_new 0 7) 10) (\<lambda>(b, _).
     rbind (WireBuffer_enqueue 0 clock500 b (Message_new 0 8) 1) (\<lambda>(b', _).
     Inr (map m_time (wb_message_queue b'), WireBuffer_isReady 1000 clock500 b'))) = Inr ([10, 1], False)"
  by (simp add: wire_example_def WireBuffer_enqueue_def WireBuffer_isReady_def WireBuffer_new_def
      WireBuffer_setConsumer_def curCycle_def ClockedObject_update_def clock500_def divCeil_def Let_def)



end
