(* ===== verification/Topology.thy ===== *)
theory Topology
  imports Net_Dest "HOL-Library.AList"
begin

text \<open>
  The topology of the interconnect (src/gem5-stable/src/mem/ruby/network/Topology.hh, Topology.cc): the
  map of unidirectional links built from the links of the configuration, the all-pairs shortest
  path computation, the routing table entry of every link, and the links the network is asked to
  make. Switch numbers below \<open>2 * m_nodes\<close> are end points: the first \<open>m_nodes\<close> are the links into the
  network, the next \<open>m_nodes\<close> its output queues. The list \<open>ct\<close> holds the number of controllers of each
  machine type. Distances, weights and latencies are C++ \<open>int\<close>s, modelled by unbounded integers: the
  weights of a configuration are at most 10000. Debug output is left out.
\<close>

section \<open>Links\<close>

datatype LinkDirection = LinkDirection_In | LinkDirection_Out

record basic_link =
  link_latency :: cycles
  link_bandwidth_factor :: int
  link_weight :: int

text \<open>An external link joins the controller \<open>ext_node\<close> to a router, an internal one two routers.\<close>

record ext_link =
  ext_basic :: basic_link
  ext_node :: machine_id
  ext_router :: nat

record int_link =
  int_basic :: basic_link
  int_node_a :: nat
  int_node_b :: nat

record link_entry =
  le_link :: basic_link
  le_direction :: LinkDirection

type_synonym matrix = "int list list"

record topology =
  topo_nodes :: nat
  m_number_of_switches :: nat
  m_ext_link_vector :: "ext_link list"
  m_int_link_vector :: "int_link list"
  m_component_latencies :: matrix
  m_component_inter_switches :: matrix
  m_link_map :: "((nat \<times> nat) \<times> link_entry) list"

definition Topology_addLink :: "nat \<Rightarrow> nat \<Rightarrow> basic_link \<Rightarrow> LinkDirection \<Rightarrow> topology \<Rightarrow> topology" where
  "Topology_addLink src dest link dir t =
     t\<lparr>m_link_map := AList.update (src, dest) \<lparr>le_link = link, le_direction = dir\<rparr> (m_link_map t)\<rparr>"

definition add_ext_link :: "nat list \<Rightarrow> topology \<Rightarrow> ext_link \<Rightarrow> topology result" where
  "add_ext_link ct t l = rbind (MachineType_base_number ct (mach_type (ext_node l))) (\<lambda>machine_base_idx.
     let t1 = t\<lparr>m_ext_link_vector := m_ext_link_vector t @ [l]\<rparr>;
         ext_idx1 = machine_base_idx + mach_num (ext_node l);
         ext_idx2 = ext_idx1 + topo_nodes t;
         int_idx = ext_router l + 2 * topo_nodes t
     in Inr (Topology_addLink int_idx ext_idx2 (ext_basic l) LinkDirection_Out
               (Topology_addLink ext_idx1 int_idx (ext_basic l) LinkDirection_In t1)))"

definition add_int_link :: "topology \<Rightarrow> int_link \<Rightarrow> topology" where
  "add_int_link t l =
     (let t1 = t\<lparr>m_int_link_vector := m_int_link_vector t @ [l]\<rparr>;
          a = int_node_a l + 2 * topo_nodes t;
          b = int_node_b l + 2 * topo_nodes t
      in Topology_addLink b a (int_basic l) LinkDirection_Out
           (Topology_addLink a b (int_basic l) LinkDirection_In t1))"

definition Topology_new :: "nat list \<Rightarrow> nat \<Rightarrow> ext_link list \<Rightarrow> int_link list \<Rightarrow> topology result" where
  "Topology_new ct num_routers ext_links int_links =
     rbind (MachineType_base_number ct (length ct)) (\<lambda>nodes.
     ensure (1 < nodes) AssertFailed (
     ensure (nodes = length ext_links) Panicked (
     rbind (rfold (add_ext_link ct)
              \<lparr>topo_nodes = nodes, m_number_of_switches = num_routers, m_ext_link_vector = [], m_int_link_vector = [],
               m_component_latencies = [], m_component_inter_switches = [], m_link_map = []\<rparr> ext_links) (\<lambda>t.
     Inr (foldl add_int_link t int_links)))))"

section \<open>Shortest paths\<close>

definition INFINITE_LATENCY :: int where
  "INFINITE_LATENCY = 10000"

definition mat_get :: "matrix \<Rightarrow> nat \<Rightarrow> nat \<Rightarrow> int result" where
  "mat_get m i j = rbind (at_pos m i) (\<lambda>row. at_pos row j)"

definition mat_set :: "matrix \<Rightarrow> nat \<Rightarrow> nat \<Rightarrow> int \<Rightarrow> matrix result" where
  "mat_set m i j x = rbind (at_pos m i) (\<lambda>row. rbind (set_pos row j x) (\<lambda>row'. set_pos m i row'))"

text \<open>One step of the innermost loop: \<open>minimum\<close>, \<open>intermediate_switch\<close> and the matrix of switch counts,
  which the loop changes whenever the minimum drops.\<close>

definition via_switch :: "matrix \<Rightarrow> nat \<Rightarrow> nat \<Rightarrow> int \<times> int \<times> matrix \<Rightarrow> nat \<Rightarrow> (int \<times> int \<times> matrix) result" where
  "via_switch dist i j = (\<lambda>(minimum, intermediate_switch, inter_switches) k.
     rbind (mat_get dist i k) (\<lambda>a. rbind (mat_get dist k j) (\<lambda>b.
     let minimum' = min minimum (a + b)
     in if minimum \<noteq> minimum'
        then rbind (mat_get inter_switches i k) (\<lambda>x. rbind (mat_get inter_switches k j) (\<lambda>y.
             rbind (mat_set inter_switches i j (x + y + 1)) (\<lambda>inter.
             Inr (minimum', int k, inter))))
        else Inr (minimum', intermediate_switch, inter_switches))))"

type_synonym path_state = "bool \<times> matrix \<times> matrix \<times> matrix"

definition relax_pair :: "nat \<Rightarrow> path_state \<Rightarrow> nat \<times> nat \<Rightarrow> path_state result" where
  "relax_pair nodes = (\<lambda>(change, dist, latencies, inter_switches) (i, j).
     rbind (mat_get dist i j) (\<lambda>d.
     rbind (rfold (via_switch dist i j) (d, - 1, inter_switches) [0..<nodes]) (\<lambda>(minimum, intermediate_switch, inter).
     if d \<noteq> minimum
     then rbind (mat_set dist i j minimum) (\<lambda>dist'.
          ensure (0 \<le> intermediate_switch) AssertFailed (
          rbind (at_pos latencies i) (\<lambda>row.
          ensure (intermediate_switch < int (length row)) AssertFailed (
          rbind (mat_get latencies i (nat intermediate_switch)) (\<lambda>x.
          rbind (mat_get latencies (nat intermediate_switch) j) (\<lambda>y.
          rbind (mat_set latencies i j (x + y)) (\<lambda>lat.
          Inr (True, dist', lat, inter))))))))
     else Inr (change, dist, latencies, inter))))"

text \<open>One round of the \<open>while\<close> loop, over all pairs of switches.\<close>

definition relax_all :: "nat \<Rightarrow> matrix \<Rightarrow> matrix \<Rightarrow> matrix \<Rightarrow> path_state result" where
  "relax_all nodes dist latencies inter_switches =
     rfold (relax_pair nodes) (False, dist, latencies, inter_switches) (List.product [0..<nodes] [0..<nodes])"

text \<open>The loop runs while something changes. It need not end where a weight is negative, so it returns
  an option.\<close>

partial_function (option) extend_loop :: "nat \<Rightarrow> matrix \<Rightarrow> matrix \<Rightarrow> matrix \<Rightarrow> (matrix \<times> matrix \<times> matrix) result option" where
  "extend_loop nodes dist latencies inter_switches =
     (case relax_all nodes dist latencies inter_switches of
        Inl e \<Rightarrow> Some (Inl e)
      | Inr (change, dist', lat', inter') \<Rightarrow>
          if change then extend_loop nodes dist' lat' inter' else Some (Inr (dist', lat', inter')))"

definition extend_shortest_path :: "matrix \<Rightarrow> matrix \<Rightarrow> matrix \<Rightarrow> (matrix \<times> matrix \<times> matrix) result option" where
  "extend_shortest_path current_dist latencies inter_switches =
     extend_loop (length current_dist) current_dist latencies inter_switches"

definition shortest_path :: "matrix \<Rightarrow> matrix \<Rightarrow> matrix \<Rightarrow> (matrix \<times> matrix \<times> matrix) result option" where
  "shortest_path weights latencies inter_switches = extend_shortest_path weights latencies inter_switches"

definition link_is_shortest_path_to_node :: "nat \<Rightarrow> nat \<Rightarrow> nat \<Rightarrow> matrix \<Rightarrow> matrix \<Rightarrow> bool result" where
  "link_is_shortest_path_to_node src next final weights dist =
     rbind (mat_get weights src next) (\<lambda>w. rbind (mat_get dist next final) (\<lambda>a. rbind (mat_get dist src final) (\<lambda>b.
     Inr (w + a = b))))"

text \<open>The two loops over machine types and their controllers, as one list of machines in order; a link to
  the router with number \<open>m_nodes\<close>, the bus, gets every machine. Switch numbers are 32-bit unsigned.\<close>

definition is_bus :: "nat \<Rightarrow> nat \<Rightarrow> bool" where
  "is_bus next nodes \<longleftrightarrow> word_of_nat next - 2 * word_of_nat nodes = (word_of_nat nodes :: u32)"

definition all_machines :: "nat list \<Rightarrow> machine_id list result" where
  "all_machines ct = rfold (\<lambda>ms m. rbind (MachineType_base_count ct m) (\<lambda>n.
     Inr (ms @ map (\<lambda>i. \<lparr>mach_type = m, mach_num = i\<rparr>) [0..<n]))) [] [0..<length ct]"

definition shortest_path_to_node :: "nat list \<Rightarrow> nat \<Rightarrow> nat \<Rightarrow> matrix \<Rightarrow> matrix \<Rightarrow> nat \<Rightarrow> net_dest result" where
  "shortest_path_to_node ct src next weights dist nodes =
     rbind (NetDest_new ct) (\<lambda>result0.
     rbind (MachineType_base_number ct (length ct)) (\<lambda>max_machines.
     rbind (all_machines ct) (\<lambda>ms.
     rmap fst (rfold (\<lambda>(result, d) mach.
       if is_bus next nodes then rmap (\<lambda>r. (r, d + 1)) (NetDest_add ct result mach)
       else rbind (link_is_shortest_path_to_node src next (d + max_machines) weights dist) (\<lambda>b.
            if b then rmap (\<lambda>r. (r, d + 1)) (NetDest_add ct result mach) else Inr (result, d + 1)))
       (result0, 0) ms))))"

section \<open>Making the links\<close>

text \<open>The calls on the network, with their routing table entry.\<close>

datatype make_link =
    MakeInLink nat nat basic_link LinkDirection net_dest
  | MakeOutLink nat nat basic_link LinkDirection net_dest
  | MakeInternalLink nat nat basic_link LinkDirection net_dest

definition Topology_makeLink :: "topology \<Rightarrow> nat \<Rightarrow> nat \<Rightarrow> net_dest \<Rightarrow> make_link result" where
  "Topology_makeLink t src dest entry =
     (let n = topo_nodes t
      in ensure (2 * n \<le> src \<or> 2 * n \<le> dest) AssertFailed (
         rbind (deref (map_of (m_link_map t) (src, dest))) (\<lambda>e.
         if src < n
         then Inr (MakeInLink src (dest - 2 * n) (le_link e) (le_direction e) entry)
         else if dest < 2 * n
         then ensure (n \<le> dest) AssertFailed (
              Inr (MakeOutLink (src - 2 * n) (dest - n) (le_link e) (le_direction e) entry))
         else ensure (2 * n \<le> src \<and> 2 * n \<le> dest) AssertFailed (
              Inr (MakeInternalLink (src - 2 * n) (dest - 2 * n) (le_link e) (le_direction e) entry)))))"

definition max_switch :: "topology \<Rightarrow> nat" where
  "max_switch t = foldl (\<lambda>m ((s, d), e). max (max m s) d) 0 (m_link_map t)"

definition square_of :: "nat \<Rightarrow> int \<Rightarrow> matrix" where
  "square_of n x = replicate n (replicate n x)"

text \<open>The weights before the links are entered: infinite, and zero on the diagonal.\<close>

definition initial_weights :: "nat \<Rightarrow> matrix" where
  "initial_weights n = map (\<lambda>i. map (\<lambda>j. if i = j then 0 else INFINITE_LATENCY) [0..<n]) [0..<n]"

definition enter_link :: "matrix \<times> matrix \<Rightarrow> (nat \<times> nat) \<times> link_entry \<Rightarrow> (matrix \<times> matrix) result" where
  "enter_link = (\<lambda>(lat, w) ((src, dst), e).
     rbind (mat_set lat src dst (sint (ucast (link_latency (le_link e)) :: u32))) (\<lambda>lat'.
     rbind (mat_set w src dst (link_weight (le_link e))) (\<lambda>w'. Inr (lat', w'))))"

definition Topology_createLinks :: "nat list \<Rightarrow> topology \<Rightarrow> (topology \<times> make_link list) result option" where
  "Topology_createLinks ct t =
     (let num_switches = max_switch t + 1
      in case rfold enter_link (square_of num_switches (- 1), initial_weights num_switches) (m_link_map t) of
           Inl e \<Rightarrow> Some (Inl e)
         | Inr (lat, w) \<Rightarrow>
             (case shortest_path w lat (square_of num_switches 0) of
                None \<Rightarrow> None
              | Some r \<Rightarrow> Some (rbind r (\<lambda>(dist, lat', inter').
                  rbind (rfold (\<lambda>calls (i, j).
                      rbind (mat_get w i j) (\<lambda>weight.
                      if 0 < weight \<and> weight \<noteq> INFINITE_LATENCY
                      then rbind (shortest_path_to_node ct i j w dist (topo_nodes t)) (\<lambda>destination_set.
                           rbind (Topology_makeLink t i j destination_set) (\<lambda>c. Inr (calls @ [c])))
                      else Inr calls)) [] (List.product [0..<num_switches] [0..<num_switches])) (\<lambda>calls.
                  Inr (t\<lparr>m_component_latencies := lat', m_component_inter_switches := inter'\<rparr>, calls))))))"

section \<open>Square matrices\<close>

definition square :: "nat \<Rightarrow> matrix \<Rightarrow> bool" where
  "square n m \<longleftrightarrow> length m = n \<and> (\<forall>row \<in> set m. length row = n)"

definition mat_upd :: "matrix \<Rightarrow> nat \<Rightarrow> nat \<Rightarrow> int \<Rightarrow> matrix" where
  "mat_upd m i j x = m[i := (m ! i)[j := x]]"

lemma square_row: "square n m \<Longrightarrow> i < n \<Longrightarrow> i < length m \<and> length (m ! i) = n"
  by (simp add: square_def)

lemma mat_get_ok: "square n m \<Longrightarrow> i < n \<Longrightarrow> j < n \<Longrightarrow> mat_get m i j = Inr (m ! i ! j)"
  by (simp add: mat_get_def at_pos_in square_row)

lemma mat_set_ok: "square n m \<Longrightarrow> i < n \<Longrightarrow> j < n \<Longrightarrow> mat_set m i j x = Inr (mat_upd m i j x)"
  by (simp add: mat_set_def at_pos_in set_pos_in square_row mat_upd_def)

lemma mat_upd_nth: "square n m \<Longrightarrow> i < n \<Longrightarrow> j < n \<Longrightarrow> a < n \<Longrightarrow> b < n \<Longrightarrow>
    mat_upd m i j x ! a ! b = (if a = i \<and> b = j then x else m ! a ! b)"
  using square_row [of n m i] by (auto simp: mat_upd_def nth_list_update)

lemma square_upd: "square n m \<Longrightarrow> i < n \<Longrightarrow> square n (mat_upd m i j x)"
  unfolding square_def mat_upd_def
  by (auto dest!: set_update_subset_insert [THEN subsetD])

lemma square_square_of: "square n (square_of n x)" "a < n \<Longrightarrow> b < n \<Longrightarrow> square_of n x ! a ! b = x"
  by (auto simp: square_def square_of_def)

definition mat_total :: "nat \<Rightarrow> matrix \<Rightarrow> nat" where
  "mat_total n m = (\<Sum>(a, b) \<in> {..<n} \<times> {..<n}. nat (m ! a ! b))"

lemma mat_total_upd:
  assumes "square n m" and "i < n" and "j < n" and "x < m ! i ! j" and "0 \<le> x"
  shows "mat_total n (mat_upd m i j x) < mat_total n m"
  unfolding mat_total_def
proof (rule sum_strict_mono_ex1)
  show "\<forall>p \<in> {..<n} \<times> {..<n}. (case p of (a, b) \<Rightarrow> nat (mat_upd m i j x ! a ! b)) \<le> (case p of (a, b) \<Rightarrow> nat (m ! a ! b))"
    using assms by (auto simp: mat_upd_nth)
  show "\<exists>p \<in> {..<n} \<times> {..<n}. (case p of (a, b) \<Rightarrow> nat (mat_upd m i j x ! a ! b)) < (case p of (a, b) \<Rightarrow> nat (m ! a ! b))"
    using assms by (intro bexI [of _ "(i, j)"]) (auto simp: mat_upd_nth)
qed simp

section \<open>Paths\<close>

fun path_sum :: "matrix \<Rightarrow> nat list \<Rightarrow> int" where
  "path_sum m (a # b # p) = m ! a ! b + path_sum m (b # p)"
| "path_sum m p = 0"

text \<open>A path follows links, the pairs of switches with a finite weight.\<close>

definition is_path :: "nat \<Rightarrow> matrix \<Rightarrow> nat \<Rightarrow> nat \<Rightarrow> nat list \<Rightarrow> bool" where
  "is_path n w i j p \<longleftrightarrow> p \<noteq> [] \<and> hd p = i \<and> last p = j \<and> set p \<subseteq> {..<n} \<and>
     successively (\<lambda>a b. w ! a ! b < INFINITE_LATENCY) p"

lemma path_sum_join: "p \<noteq> [] \<Longrightarrow> q \<noteq> [] \<Longrightarrow> last p = hd q \<Longrightarrow> path_sum m (p @ tl q) = path_sum m p + path_sum m q"
  by (induction m p rule: path_sum.induct; cases q) simp_all

lemma is_path_join:
  assumes "is_path n w i k p" and "is_path n w k j q"
  shows "is_path n w i j (p @ tl q)" and "length (p @ tl q) + 1 = length p + length q"
    and "path_sum m (p @ tl q) = path_sum m p + path_sum m q"
proof -
  have pq: "p \<noteq> []" "q \<noteq> []" "last p = hd q" using assms by (auto simp: is_path_def)
  obtain b q' where q: "q = b # q'" using pq(2) by (cases q) auto
  have "successively (\<lambda>a b. w ! a ! b < INFINITE_LATENCY) (p @ q')"
    using assms pq q by (auto simp: is_path_def successively_append_iff successively_Cons)
  then show "is_path n w i j (p @ tl q)" using assms pq q by (auto simp: is_path_def)
  show "length (p @ tl q) + 1 = length p + length q" using q by simp
  show "path_sum m (p @ tl q) = path_sum m p + path_sum m q" using path_sum_join [OF pq] .
qed

section \<open>The relaxation\<close>

text \<open>\<open>via_inv\<close>: the state of the innermost loop after the intermediate switches in \<open>ks\<close>.\<close>

definition via_inv :: "nat \<Rightarrow> matrix \<Rightarrow> matrix \<Rightarrow> nat \<Rightarrow> nat \<Rightarrow> nat set \<Rightarrow> int \<times> int \<times> matrix \<Rightarrow> bool" where
  "via_inv n dist sws i j ks = (\<lambda>(m, im, sws').
     (\<forall>k \<in> ks. m \<le> dist ! i ! k + dist ! k ! j) \<and>
     (if m = dist ! i ! j then sws' = sws
      else m < dist ! i ! j \<and> (\<exists>k < n. im = int k \<and> k \<noteq> i \<and> k \<noteq> j \<and> m = dist ! i ! k + dist ! k ! j \<and>
        sws' = mat_upd sws i j (sws ! i ! k + sws ! k ! j + 1))))"

lemma mat_upd_twice: "i < length m \<Longrightarrow> mat_upd (mat_upd m i j x) i j y = mat_upd m i j y"
  by (simp add: mat_upd_def)

lemma via_inv_cases:
  assumes "via_inv n dist sws i j ks (m, im, sws')" and "square n sws" and "i < n" and "j < n"
  shows "square n sws' \<and> mat_upd sws' i j x = mat_upd sws i j x \<and>
    (\<forall>a < n. \<forall>b < n. a \<noteq> i \<or> b \<noteq> j \<longrightarrow> sws' ! a ! b = sws ! a ! b) \<and> m \<le> dist ! i ! j"
proof (cases "m = dist ! i ! j")
  case True
  then show ?thesis using assms by (simp add: via_inv_def)
next
  case False
  then obtain y where "sws' = mat_upd sws i j y" "m < dist ! i ! j" using assms(1) by (auto simp: via_inv_def)
  then show ?thesis using assms(2-) by (auto simp: square_upd mat_upd_nth mat_upd_twice square_row)
qed

lemma via_switch_step:
  assumes inv: "via_inv n dist sws i j ks (m, im, sws')" and sq: "square n dist" "square n sws"
    and ij: "i < n" "j < n" and k: "k < n" and diag: "dist ! i ! i = 0" "dist ! j ! j = 0"
  shows "\<exists>s. via_switch dist i j (m, im, sws') k = Inr s \<and> via_inv n dist sws i j (insert k ks) s"
proof (cases "m \<le> dist ! i ! k + dist ! k ! j")
  case True
  then have "via_switch dist i j (m, im, sws') k = Inr (m, im, sws')"
    using sq ij k by (simp add: via_switch_def mat_get_ok Let_def min_def)
  then show ?thesis using inv True by (auto simp: via_inv_def)
next
  case False
  let ?m = "dist ! i ! k + dist ! k ! j"
  note c = via_inv_cases [OF inv sq(2) ij]
  have "square n sws'" using c by simp
  have "m \<le> dist ! i ! j" using c by simp
  then have less: "?m < dist ! i ! j" using False by linarith
  then have ne: "k \<noteq> i" "k \<noteq> j" using diag by auto
  have same: "sws' ! i ! k = sws ! i ! k" "sws' ! k ! j = sws ! k ! j" using c ij k ne by auto
  let ?sws = "mat_upd sws i j (sws ! i ! k + sws ! k ! j + 1)"
  have "via_switch dist i j (m, im, sws') k = Inr (?m, int k, ?sws)"
    using False sq ij k c same
    by (simp add: via_switch_def mat_get_ok [of n] mat_set_ok [of n] Let_def min_def)
  moreover have "\<forall>l \<in> insert k ks. ?m \<le> dist ! i ! l + dist ! l ! j"
    using inv False by (fastforce simp: via_inv_def)
  then have "via_inv n dist sws i j (insert k ks) (?m, int k, ?sws)"
    using less ne k by (auto simp: via_inv_def)
  ultimately show ?thesis by blast
qed

lemma via_switch_loop:
  assumes "via_inv n dist sws i j ks s" and "square n dist" "square n sws" "i < n" "j < n" "set xs \<subseteq> {..<n}"
    and "dist ! i ! i = 0" "dist ! j ! j = 0"
  shows "\<exists>s'. rfold (via_switch dist i j) s xs = Inr s' \<and> via_inv n dist sws i j (set xs \<union> ks) s'"
  using assms
proof (induction xs arbitrary: s ks)
  case Nil
  then show ?case by simp
next
  case (Cons k xs)
  obtain m im sws' where s: "s = (m, im, sws')" by (cases s)
  obtain s1 where s1: "via_switch dist i j s k = Inr s1" "via_inv n dist sws i j (insert k ks) s1"
    using via_switch_step [OF Cons.prems(1) [unfolded s] Cons.prems(2-5) _ Cons.prems(7,8), of k] Cons.prems(6) s by auto
  then show ?case using Cons.IH [OF s1(2) Cons.prems(2-5) _ Cons.prems(7,8)] Cons.prems(6) by simp
qed

text \<open>The invariant of the outer loops: the diagonal is zero, and a finite distance, its latency and its
  number of switches belong to one path of links.\<close>

definition on_path :: "nat \<Rightarrow> matrix \<Rightarrow> matrix \<Rightarrow> nat \<Rightarrow> nat \<Rightarrow> int \<Rightarrow> int \<Rightarrow> int \<Rightarrow> bool" where
  "on_path n w l i j d la swa \<longleftrightarrow>
     (\<exists>p. is_path n w i j p \<and> path_sum w p = d \<and> path_sum l p = la \<and> int (length p) = swa + 2)"

definition dist_inv :: "nat \<Rightarrow> matrix \<Rightarrow> matrix \<Rightarrow> matrix \<Rightarrow> matrix \<Rightarrow> matrix \<Rightarrow> bool" where
  "dist_inv n w l dist lat sws \<longleftrightarrow> square n dist \<and> square n lat \<and> square n sws \<and> (\<forall>i < n. dist ! i ! i = 0) \<and>
     (\<forall>i < n. \<forall>j < n. 0 \<le> dist ! i ! j \<and> dist ! i ! j \<le> w ! i ! j \<and> dist ! i ! j \<le> INFINITE_LATENCY \<and>
       (i \<noteq> j \<and> dist ! i ! j < INFINITE_LATENCY \<longrightarrow> on_path n w l i j (dist ! i ! j) (lat ! i ! j) (sws ! i ! j)))"

lemma on_path_join:
  "on_path n w l i k d la swa \<Longrightarrow> on_path n w l k j d' la' swb \<Longrightarrow> on_path n w l i j (d + d') (la + la') (swa + swb + 1)"
  unfolding on_path_def
proof (elim exE conjE)
  fix p q
  assume p: "is_path n w i k p" "path_sum w p = d" "path_sum l p = la" "int (length p) = swa + 2"
    and q: "is_path n w k j q" "path_sum w q = d'" "path_sum l q = la'" "int (length q) = swb + 2"
  note j = is_path_join [OF p(1) q(1)]
  have "int (length (p @ tl q)) = swa + swb + 1 + 2" using j(2) p(4) q(4) by linarith
  then show "\<exists>p. is_path n w i j p \<and> path_sum w p = d + d' \<and> path_sum l p = la + la' \<and> int (length p) = swa + swb + 1 + 2"
    using j(1) j(3) [of w] j(3) [of l] p q by (intro exI [of _ "p @ tl q"]) simp
qed

lemma dist_inv_upd:
  assumes "dist_inv n w l dist lat sws" and "i < n" "j < n" "k < n" "k \<noteq> i" "k \<noteq> j"
    and m: "m = dist ! i ! k + dist ! k ! j" "m < dist ! i ! j"
  shows "dist_inv n w l (mat_upd dist i j m) (mat_upd lat i j (lat ! i ! k + lat ! k ! j))
    (mat_upd sws i j (sws ! i ! k + sws ! k ! j + 1))"
proof -
  have sq: "square n dist" "square n lat" "square n sws" using assms(1) by (simp_all add: dist_inv_def)
  have b: "0 \<le> dist ! a ! c" "dist ! a ! c \<le> w ! a ! c" "dist ! a ! c \<le> INFINITE_LATENCY" if "a < n" "c < n" for a c
    using assms(1) that by (simp_all add: dist_inv_def)
  have pth: "on_path n w l a c (dist ! a ! c) (lat ! a ! c) (sws ! a ! c)"
    if "a < n" "c < n" "a \<noteq> c" "dist ! a ! c < INFINITE_LATENCY" for a c
    using assms(1) that by (simp add: dist_inv_def)
  have diag: "dist ! a ! a = 0" if "a < n" for a using assms(1) that by (simp add: dist_inv_def)
  have ne: "i \<noteq> j" using m(2) diag [of i] b(1) [of i k] b(1) [of k j] assms(2-4) unfolding m(1) by auto
  have "0 \<le> dist ! i ! k" "0 \<le> dist ! k ! j" "dist ! i ! j \<le> INFINITE_LATENCY" using b assms(2-4) by auto
  then have small: "dist ! i ! k < INFINITE_LATENCY" "dist ! k ! j < INFINITE_LATENCY" "0 \<le> m" using m by linarith+
  have new: "on_path n w l i j m (lat ! i ! k + lat ! k ! j) (sws ! i ! k + sws ! k ! j + 1)"
    unfolding m(1) by (rule on_path_join [OF pth pth]) (use assms(2-6) small in auto)
  show ?thesis
    unfolding dist_inv_def
  proof (intro conjI allI impI)
    fix a c assume ac: "a < n" "c < n"
    note nth = mat_upd_nth [OF sq(1) assms(2,3) ac] mat_upd_nth [OF sq(2) assms(2,3) ac] mat_upd_nth [OF sq(3) assms(2,3) ac]
    show "0 \<le> mat_upd dist i j m ! a ! c" using b(1) [OF ac] small(3) by (simp add: nth)
    show "mat_upd dist i j m ! a ! c \<le> w ! a ! c" using b(2) [OF ac] m(2) by (auto simp: nth)
    show "mat_upd dist i j m ! a ! c \<le> INFINITE_LATENCY" using b(3) [OF ac] m(2) by (auto simp: nth)
    assume ne': "a \<noteq> c \<and> mat_upd dist i j m ! a ! c < INFINITE_LATENCY"
    show "on_path n w l a c (mat_upd dist i j m ! a ! c) (mat_upd lat i j (lat ! i ! k + lat ! k ! j) ! a ! c)
        (mat_upd sws i j (sws ! i ! k + sws ! k ! j + 1) ! a ! c)"
    proof (cases "a = i \<and> c = j")
      case True
      then show ?thesis unfolding nth using new by simp
    next
      case False
      then have "dist ! a ! c < INFINITE_LATENCY" "a \<noteq> c" using ne' unfolding nth if_not_P [OF False] by simp_all
      then show ?thesis unfolding nth if_not_P [OF False] by (intro pth [OF ac])
    qed
  next
    fix a assume a: "a < n"
    show "mat_upd dist i j m ! a ! a = 0"
      using mat_upd_nth [OF sq(1) assms(2,3) a a, of m] ne diag [OF a] by auto
  qed (use sq assms(2) in \<open>simp_all add: square_upd\<close>)
qed

definition triangle :: "nat \<Rightarrow> matrix \<Rightarrow> nat \<Rightarrow> nat \<Rightarrow> bool" where
  "triangle n dist i j \<longleftrightarrow> (\<forall>k < n. dist ! i ! j \<le> dist ! i ! k + dist ! k ! j)"

text \<open>A round over some pairs keeps the invariant. It reports a change only when the sum of the
  distances has dropped, and otherwise nothing has changed and no detour is shorter.\<close>

definition round_ok :: "nat \<Rightarrow> matrix \<Rightarrow> matrix \<Rightarrow> (nat \<times> nat) set \<Rightarrow> path_state \<Rightarrow> path_state \<Rightarrow> bool" where
  "round_ok n w l ps = (\<lambda>(change, dist, _) (change', dist', lat', sws').
     dist_inv n w l dist' lat' sws' \<and> mat_total n dist' \<le> mat_total n dist \<and>
     (change' \<longrightarrow> change \<or> mat_total n dist' < mat_total n dist) \<and>
     (\<not> change' \<longrightarrow> \<not> change \<and> dist' = dist \<and> (\<forall>(i, j) \<in> ps. triangle n dist i j)))"

lemma relax_pair_ok:
  assumes inv: "dist_inv n w l dist lat sws" and ij: "i < n" "j < n"
  shows "\<exists>st. relax_pair n (change, dist, lat, sws) (i, j) = Inr st \<and> round_ok n w l {(i, j)} (change, dist, lat, sws) st"
proof -
  have sq: "square n dist" "square n lat" "square n sws" and diag: "dist ! i ! i = 0" "dist ! j ! j = 0"
    using inv ij by (simp_all add: dist_inv_def)
  let ?d = "dist ! i ! j"
  have "via_inv n dist sws i j {} (?d, - 1, sws)" by (simp add: via_inv_def)
  from via_switch_loop [OF this sq(1,3) ij, of "[0..<n]"] diag
  obtain m im sws' where loop: "rfold (via_switch dist i j) (?d, - 1, sws) [0..<n] = Inr (m, im, sws')"
    "via_inv n dist sws i j {..<n} (m, im, sws')" by (auto simp: atLeast0LessThan)
  have get: "mat_get dist i j = Inr ?d" by (rule mat_get_ok [OF sq(1) ij])
  show ?thesis
  proof (cases "m = ?d")
    case True
    then have "sws' = sws" "triangle n dist i j" using loop(2) by (auto simp: via_inv_def triangle_def)
    moreover have "relax_pair n (change, dist, lat, sws) (i, j) = Inr (change, dist, lat, sws')"
      using True by (simp add: relax_pair_def get loop(1))
    ultimately show ?thesis using inv by (simp add: round_ok_def)
  next
    case False
    then obtain k where k: "m < ?d" "k < n" "im = int k" "k \<noteq> i" "k \<noteq> j" "m = dist ! i ! k + dist ! k ! j"
      "sws' = mat_upd sws i j (sws ! i ! k + sws ! k ! j + 1)" using loop(2) by (auto simp: via_inv_def)
    have "at_pos lat i = Inr (lat ! i)" "length (lat ! i) = n" using square_row [OF sq(2) ij(1)] by (simp_all add: at_pos_in)
    then have "relax_pair n (change, dist, lat, sws) (i, j) =
        Inr (True, mat_upd dist i j m, mat_upd lat i j (lat ! i ! k + lat ! k ! j), sws')"
      using False k(2,3) ij sq
      by (simp add: relax_pair_def get loop(1) mat_set_ok [of n] mat_get_ok [of n])
    moreover have "0 \<le> m" using inv ij k(2) unfolding k(6) dist_inv_def by simp
    then have "mat_total n (mat_upd dist i j m) < mat_total n dist" by (rule mat_total_upd [OF sq(1) ij k(1)])
    ultimately show ?thesis
      using dist_inv_upd [OF inv ij k(2,4,5,6,1)] k(7) by (simp add: round_ok_def)
  qed
qed

lemma relax_pairs_ok:
  assumes "dist_inv n w l dist lat sws" and "set ps \<subseteq> {..<n} \<times> {..<n}"
  shows "\<exists>st. rfold (relax_pair n) (change, dist, lat, sws) ps = Inr st \<and>
    round_ok n w l (set ps) (change, dist, lat, sws) st"
  using assms
proof (induction ps arbitrary: change dist lat sws)
  case Nil
  then show ?case by (simp add: round_ok_def)
next
  case (Cons p ps)
  obtain i j where p: "p = (i, j)" "i < n" "j < n" using Cons.prems(2) by auto
  obtain change1 dist1 lat1 sws1 where s1: "relax_pair n (change, dist, lat, sws) p = Inr (change1, dist1, lat1, sws1)"
    "round_ok n w l {p} (change, dist, lat, sws) (change1, dist1, lat1, sws1)"
    using relax_pair_ok [OF Cons.prems(1) p(2,3), of change] p(1) by auto
  have "dist_inv n w l dist1 lat1 sws1" using s1(2) by (simp add: round_ok_def)
  from Cons.IH [OF this, of change1] Cons.prems(2)
  obtain st where st: "rfold (relax_pair n) (change1, dist1, lat1, sws1) ps = Inr st"
    "round_ok n w l (set ps) (change1, dist1, lat1, sws1) st" by auto
  have "round_ok n w l (set (p # ps)) (change, dist, lat, sws) st"
    using s1(2) st(2) by (cases st) (auto simp: round_ok_def)
  then show ?case using s1(1) st(1) by auto
qed

lemma relax_all_ok:
  assumes "dist_inv n w l dist lat sws"
  shows "\<exists>st. relax_all n dist lat sws = Inr st \<and> round_ok n w l ({..<n} \<times> {..<n}) (False, dist, lat, sws) st"
  using relax_pairs_ok [OF assms, of "List.product [0..<n] [0..<n]" False]
  by (simp add: relax_all_def atLeast0LessThan)

text \<open>The loop ends: a round that changes something lowers the sum of the distances, which are not
  negative.\<close>

lemma extend_loop_ends:
  assumes "dist_inv n w l dist lat sws"
  shows "\<exists>dist' lat' sws'. extend_loop n dist lat sws = Some (Inr (dist', lat', sws')) \<and>
    dist_inv n w l dist' lat' sws' \<and> (\<forall>i < n. \<forall>j < n. triangle n dist' i j)"
  using assms
proof (induction "mat_total n dist" arbitrary: dist lat sws rule: less_induct)
  case less
  obtain change dist1 lat1 sws1 where st: "relax_all n dist lat sws = Inr (change, dist1, lat1, sws1)"
    "round_ok n w l ({..<n} \<times> {..<n}) (False, dist, lat, sws) (change, dist1, lat1, sws1)"
    using relax_all_ok [OF less.prems] by (metis prod_cases4)
  have inv: "dist_inv n w l dist1 lat1 sws1" using st(2) by (simp add: round_ok_def)
  show ?case
  proof (cases change)
    case True
    then have "mat_total n dist1 < mat_total n dist" using st(2) by (simp add: round_ok_def)
    from less.hyps [OF this inv] show ?thesis
      using True st(1) by (subst extend_loop.simps) simp
  next
    case False
    then have "\<forall>i < n. \<forall>j < n. triangle n dist1 i j" using st(2) by (auto simp: round_ok_def)
    then show ?thesis using False st(1) inv by (subst extend_loop.simps) simp
  qed
qed

text \<open>No path is shorter than a distance that satisfies the triangle inequality.\<close>

lemma triangle_shortest:
  assumes "dist_inv n w l dist lat sws" and "\<forall>i < n. \<forall>j < n. triangle n dist i j"
    and "is_path n w i j p"
  shows "dist ! i ! j \<le> path_sum w p"
  using assms(3)
proof (induction p arbitrary: i rule: induct_list012)
  case 1
  then show ?case by (simp add: is_path_def)
next
  case (2 a)
  then show ?case using assms(1) by (auto simp: is_path_def dist_inv_def)
next
  case (3 a b p)
  have "last (a # b # p) \<in> set (a # b # p)" by (rule last_in_set) simp
  then have ab: "a < n" "b < n" "j < n" "i = a" using "3.prems" unfolding is_path_def by auto
  have "is_path n w b j (b # p)" using "3.prems" by (auto simp: is_path_def)
  then have "dist ! b ! j \<le> path_sum w (b # p)" by (rule "3.IH"(2))
  moreover have "dist ! a ! b \<le> w ! a ! b" using assms(1) ab by (simp add: dist_inv_def)
  moreover have "dist ! a ! j \<le> dist ! a ! b + dist ! b ! j" using assms(2) ab by (simp add: triangle_def)
  ultimately show ?case using ab(4) by simp
qed

text \<open>The weights of a configuration: no link costs more than the infinite weight.\<close>

definition weights_wf :: "nat \<Rightarrow> matrix \<Rightarrow> bool" where
  "weights_wf n w \<longleftrightarrow> square n w \<and> (\<forall>i < n. w ! i ! i = 0) \<and>
     (\<forall>i < n. \<forall>j < n. 0 \<le> w ! i ! j \<and> w ! i ! j \<le> INFINITE_LATENCY)"

lemma dist_inv_initial:
  assumes "weights_wf n w" and "square n l"
  shows "dist_inv n w l w l (square_of n 0)"
proof -
  have "on_path n w l i j (w ! i ! j) (l ! i ! j) (square_of n 0 ! i ! j)"
    if "i < n" "j < n" "w ! i ! j < INFINITE_LATENCY" for i j
    unfolding on_path_def using that by (intro exI [of _ "[i, j]"]) (simp add: is_path_def square_square_of)
  then show ?thesis using assms by (simp add: dist_inv_def weights_wf_def square_square_of)
qed

lemma shortest_path_ok:
  assumes "weights_wf n w" and "square n l"
  shows "\<exists>dist lat sws. shortest_path w l (square_of n 0) = Some (Inr (dist, lat, sws)) \<and>
    dist_inv n w l dist lat sws \<and> (\<forall>i < n. \<forall>j < n. triangle n dist i j)"
  using extend_loop_ends [OF dist_inv_initial [OF assms]] assms(1)
  by (simp add: shortest_path_def extend_shortest_path_def weights_wf_def square_def)

lemma path_sum_nonneg:
  assumes "weights_wf n w" and "set p \<subseteq> {..<n}"
  shows "0 \<le> path_sum w p"
  using assms(2) by (induction p rule: induct_list012) (use assms(1) in \<open>auto simp: weights_wf_def\<close>)

text \<open>The first link of a shortest path leads to a switch that is nearer.\<close>

lemma next_switch:
  assumes "weights_wf n w" and inv: "dist_inv n w l dist lat sws" and tri: "\<forall>i < n. \<forall>j < n. triangle n dist i j"
    and "i < n" "j < n" "i \<noteq> j" "dist ! i ! j < INFINITE_LATENCY"
  shows "\<exists>k < n. w ! i ! k < INFINITE_LATENCY \<and> k \<noteq> i \<and> w ! i ! k + dist ! k ! j = dist ! i ! j"
proof -
  obtain p where p: "is_path n w i j p" "path_sum w p = dist ! i ! j"
    using inv assms(4-) unfolding dist_inv_def on_path_def by blast
  have "\<exists>k < n. w ! i ! k < INFINITE_LATENCY \<and> k \<noteq> i \<and> w ! i ! k + dist ! k ! j \<le> path_sum w p"
    if "is_path n w i j p" for p
    using that
  proof (induction p rule: induct_list012)
    case (3 a b p)
    have ab: "a = i" "b < n" "w ! i ! b < INFINITE_LATENCY" "is_path n w b j (b # p)"
      using "3.prems" by (auto simp: is_path_def)
    show ?case
    proof (cases "b = i")
      case True
      then show ?thesis using "3.IH"(2) ab(1,2,4) assms(1) by (auto simp: weights_wf_def)
    next
      case False
      have "dist ! b ! j \<le> path_sum w (b # p)" by (rule triangle_shortest [OF inv tri ab(4)])
      then show ?thesis using False ab by auto
    qed
  qed (use assms(6) in \<open>auto simp: is_path_def\<close>)
  from this [OF p(1)] obtain k where k: "k < n" "w ! i ! k < INFINITE_LATENCY" "k \<noteq> i" "w ! i ! k + dist ! k ! j \<le> dist ! i ! j"
    using p(2) by auto
  have "dist ! i ! j \<le> dist ! i ! k + dist ! k ! j" using tri assms(4,5) k(1) by (simp add: triangle_def)
  moreover have "dist ! i ! k \<le> w ! i ! k" using inv assms(4) k(1) by (simp add: dist_inv_def)
  ultimately show ?thesis using k by (intro exI [of _ k]) linarith
qed

section \<open>Routing table entries\<close>

lemma all_machines_eq:
  "all_machines ct = Inr (concat (map (\<lambda>m. map (\<lambda>i. \<lparr>mach_type = m, mach_num = i\<rparr>) [0..<ct ! m]) [0..<length ct]))"
proof -
  have "rfold (\<lambda>ms m. rbind (MachineType_base_count ct m) (\<lambda>n. Inr (ms @ map (\<lambda>i. \<lparr>mach_type = m, mach_num = i\<rparr>) [0..<n])))
      ms ts = Inr (ms @ concat (map (\<lambda>m. map (\<lambda>i. \<lparr>mach_type = m, mach_num = i\<rparr>) [0..<ct ! m]) ts))"
    if "set ts \<subseteq> {..<length ct}" for ms ts
    using that by (induction ts arbitrary: ms) (simp_all add: MachineType_base_count_def)
  from this [of "[0..<length ct]" "[]"] show ?thesis by (simp add: all_machines_def atLeast0LessThan)
qed

abbreviation machine_pair :: "machine_id \<Rightarrow> nat \<times> nat" where
  "machine_pair m \<equiv> (mach_type m, mach_num m)"

lemma all_machines_ids:
  assumes "all_machines ct = Inr ms"
  shows "map (\<lambda>m. global_id ct (machine_pair m)) ms = [0..<sum_list ct]"
    and "machine_pair ` set ms = (SIGMA t:{..<length ct}. {..<ct ! t})"
proof -
  let ?row = "\<lambda>m. map (\<lambda>i. \<lparr>mach_type = m, mach_num = i\<rparr>) [0..<ct ! m]"
  have ms: "ms = concat (map ?row [0..<length ct])" using assms by (simp add: all_machines_eq)
  have "map (\<lambda>m. global_id ct (machine_pair m)) (concat (map ?row [0..<t])) = [0..<sum_list (take t ct)]"
    if "t \<le> length ct" for t
    using that
  proof (induction t)
    case (Suc t)
    have "map (\<lambda>i. sum_list (take t ct) + i) [0..<ct ! t] = [sum_list (take t ct)..<sum_list (take t ct) + ct ! t]"
      using map_add_upt [of "sum_list (take t ct)" "ct ! t"] by (simp add: add.commute)
    moreover have "[0..<sum_list (take (Suc t) ct)] =
        [0..<sum_list (take t ct)] @ [sum_list (take t ct)..<sum_list (take t ct) + ct ! t]"
      using Suc.prems upt_add_eq_append [of 0 "sum_list (take t ct)" "ct ! t"] by (simp add: sum_list_take_Suc)
    ultimately show ?case using Suc by (simp add: global_id_def comp_def)
  qed simp
  from this [of "length ct"] show "map (\<lambda>m. global_id ct (machine_pair m)) ms = [0..<sum_list ct]" by (simp add: ms)
  show "machine_pair ` set ms = (SIGMA t:{..<length ct}. {..<ct ! t})"
  proof (intro equalityI subsetI)
    fix q assume "q \<in> (SIGMA t:{..<length ct}. {..<ct ! t})"
    then obtain t i where q: "q = (t, i)" "t < length ct" "i < ct ! t" by auto
    then have "\<lparr>mach_type = t, mach_num = i\<rparr> \<in> set (?row t)" "?row t \<in> set (map ?row [0..<length ct])" by simp_all
    then have "\<lparr>mach_type = t, mach_num = i\<rparr> \<in> set ms" unfolding ms set_concat by (rule UN_I [rotated])
    then have "machine_pair \<lparr>mach_type = t, mach_num = i\<rparr> \<in> machine_pair ` set ms" by (rule imageI)
    then show "q \<in> machine_pair ` set ms" using q(1) by simp
  next
    fix q assume "q \<in> machine_pair ` set ms"
    then obtain m where m: "m \<in> set (concat (map ?row [0..<length ct]))" "q = machine_pair m" unfolding ms by (rule imageE)
    from m(1) obtain t where "t < length ct" "m \<in> set (?row t)" by auto
    then show "q \<in> (SIGMA t:{..<length ct}. {..<ct ! t})" using m(2) by auto
  qed
qed

text \<open>The machines whose output queue the link from \<open>src\<close> to \<open>nxt\<close> leads to.\<close>

definition routed :: "nat list \<Rightarrow> nat \<Rightarrow> nat \<Rightarrow> matrix \<Rightarrow> matrix \<Rightarrow> nat \<Rightarrow> (nat \<times> nat) set" where
  "routed ct src nxt w dist nodes = {(t, i). t < length ct \<and> i < ct ! t \<and>
     (is_bus nxt nodes \<or> w ! src ! nxt + dist ! nxt ! (global_id ct (t, i) + sum_list ct) =
        dist ! src ! (global_id ct (t, i) + sum_list ct))}"

text \<open>The loop over the machines, with the counter \<open>d\<close> of the source.\<close>

lemma routing_loop:
  assumes "\<forall>m \<in> set (ms @ ms'). mach_type m < length ct \<and> mach_num m < ct ! mach_type m"
    and "map (\<lambda>m. global_id ct (machine_pair m)) (ms @ ms') = [0..<N]"
    and "net_dest_wf ct r" and "dests r = machine_pair ` {m \<in> set ms. P (global_id ct (machine_pair m))}"
    and "\<And>d. d < N \<Longrightarrow> test d = Inr (P d)"
  shows "\<exists>r'. rfold (\<lambda>(r, d) m. rbind (test d) (\<lambda>b.
        if b then rmap (\<lambda>r. (r, d + 1)) (NetDest_add ct r m) else Inr (r, d + 1))) (r, length ms) ms' = Inr (r', N) \<and>
    net_dest_wf ct r' \<and> dests r' = machine_pair ` {m \<in> set (ms @ ms'). P (global_id ct (machine_pair m))}"
  using assms
proof (induction ms' arbitrary: ms r)
  case Nil
  have "length (map (\<lambda>m. global_id ct (machine_pair m)) ms) = length [0..<N]" using Nil(2) by simp
  then have "length ms = N" by (simp only: length_map length_upt diff_zero)
  then show ?case using Nil by simp
next
  case (Cons m ms')
  have len: "length ms < N" using arg_cong [OF Cons.prems(2), of length] by simp
  have id: "global_id ct (machine_pair m) = length ms"
    using arg_cong [OF Cons.prems(2), of "\<lambda>xs. xs ! length ms"] len by (simp add: nth_append)
  have m: "mach_type m < length ct" "mach_num m < ct ! mach_type m" "m = \<lparr>mach_type = mach_type m, mach_num = mach_num m\<rparr>"
    using Cons.prems(1) by auto
  obtain r1 where r1: "(if P (length ms) then rmap (\<lambda>r. (r, length ms + 1)) (NetDest_add ct r m) else Inr (r, length ms + 1))
      = Inr (r1, length ms + 1)" "net_dest_wf ct r1"
    "dests r1 = machine_pair ` {k \<in> set (ms @ [m]). P (global_id ct (machine_pair k))}"
  proof (cases "P (length ms)")
    case True
    obtain r1 where "NetDest_add ct r m = Inr r1" "net_dest_wf ct r1" "dests r1 = insert (machine_pair m) (dests r)"
      using NetDest_add_spec [OF Cons.prems(3) m(1,2)] m(3) by metis
    moreover have "{k \<in> set (ms @ [m]). P (global_id ct (machine_pair k))} =
        insert m {k \<in> set ms. P (global_id ct (machine_pair k))}" using True id by auto
    ultimately show ?thesis using True Cons.prems(4) that by simp
  next
    case False
    then have "{k \<in> set (ms @ [m]). P (global_id ct (machine_pair k))} =
        {k \<in> set ms. P (global_id ct (machine_pair k))}" using id by auto
    then show ?thesis using False Cons.prems(3,4) that by simp
  qed
  have test: "test (length ms) = Inr (P (length ms))" by (rule Cons.prems(5) [OF len])
  have "\<exists>r'. rfold (\<lambda>(r, d) m. rbind (test d) (\<lambda>b.
        if b then rmap (\<lambda>r. (r, d + 1)) (NetDest_add ct r m) else Inr (r, d + 1))) (r1, length (ms @ [m])) ms' = Inr (r', N) \<and>
    net_dest_wf ct r' \<and> dests r' = machine_pair ` {k \<in> set ((ms @ [m]) @ ms'). P (global_id ct (machine_pair k))}"
    using Cons.prems(1,2) r1(2,3) by (intro Cons.IH Cons.prems(5)) simp_all
  then show ?case using r1(1) test by simp
qed

lemma shortest_path_to_node_spec:
  assumes "\<forall>n \<in> set ct. n < 32" and "square n w" and "square n dist" and "src < n" and "nxt < n"
    and "2 * sum_list ct \<le> n"
  shows "\<exists>d. shortest_path_to_node ct src nxt w dist nodes = Inr d \<and> net_dest_wf ct d \<and>
    dests d = routed ct src nxt w dist nodes"
proof -
  define P where "P = (\<lambda>d. is_bus nxt nodes \<or> w ! src ! nxt + dist ! nxt ! (d + sum_list ct) = dist ! src ! (d + sum_list ct))"
  define test where "test = (\<lambda>d. if is_bus nxt nodes then Inr True
    else link_is_shortest_path_to_node src nxt (d + sum_list ct) w dist)"
  obtain ms where ms: "all_machines ct = Inr ms" using that [OF all_machines_eq] .
  note ids = all_machines_ids [OF ms]
  obtain r where r: "NetDest_new ct = Inr r" "net_dest_wf ct r" "dests r = {}"
    using NetDest_new_spec [OF assms(1)] by blast
  have dom: "\<forall>m \<in> set ([] @ ms). mach_type m < length ct \<and> mach_num m < ct ! mach_type m"
    using ids(2) by (auto simp: set_eq_iff image_iff)
  have tst: "test d = Inr (P d)" if "d < sum_list ct" for d
    using that assms(2-) by (simp add: test_def P_def link_is_shortest_path_to_node_def mat_get_ok [of n])
  let ?body = "\<lambda>(r, d) m. rbind (test d) (\<lambda>b. if b then rmap (\<lambda>r. (r, d + 1)) (NetDest_add ct r m) else Inr (r, d + 1))"
  obtain r' where r': "rfold ?body (r, 0) ms = Inr (r', sum_list ct)" "net_dest_wf ct r'"
    "dests r' = machine_pair ` {m \<in> set ms. P (global_id ct (machine_pair m))}"
    using routing_loop [where P = P and test = test and N = "sum_list ct", OF dom _ r(2)] ids(1) r(3) tst by auto
  have "machine_pair ` {m \<in> set ms. P (global_id ct (machine_pair m))} =
      {q \<in> machine_pair ` set ms. P (global_id ct q)}" by auto
  then have "dests r' = routed ct src nxt w dist nodes"
    unfolding r'(3) ids(2) routed_def P_def by auto
  moreover have body: "(\<lambda>(result, d) mach.
       if is_bus nxt nodes then rmap (\<lambda>r. (r, d + 1)) (NetDest_add ct result mach)
       else rbind (link_is_shortest_path_to_node src nxt (d + sum_list ct) w dist) (\<lambda>b.
            if b then rmap (\<lambda>r. (r, d + 1)) (NetDest_add ct result mach) else Inr (result, d + 1))) = ?body"
    by (cases "is_bus nxt nodes") (simp_all add: test_def)
  have "MachineType_base_number ct (length ct) = Inr (sum_list ct)" by (simp add: mach_type_defs)
  then have "shortest_path_to_node ct src nxt w dist nodes = Inr r'"
    unfolding shortest_path_to_node_def by (simp only: r(1) ms rbind_Inr body r'(1) rmap_simps fst_conv)
  ultimately show ?thesis using r'(2) by blast
qed

section \<open>Properties\<close>

text \<open>C7: for weights between 0 and the infinite weight, with a zero diagonal, the shortest path
  computation ends, without a failing assertion. Its distances are the least weights of paths of
  links: where some path costs less than the infinite weight, the distance, the latency and the
  number of switches between belong to one path that no other path undercuts; everywhere else the
  distance is infinite.\<close>

theorem shortest_path_terminates_correct:
  assumes "weights_wf n w" and "square n l"
  shows "\<exists>dist lat sws. shortest_path w l (square_of n 0) = Some (Inr (dist, lat, sws)) \<and>
    (\<forall>i < n. \<forall>j < n. i \<noteq> j \<longrightarrow>
      (if \<exists>p. is_path n w i j p \<and> path_sum w p < INFINITE_LATENCY
       then on_path n w l i j (dist ! i ! j) (lat ! i ! j) (sws ! i ! j) \<and>
         (\<forall>p. is_path n w i j p \<longrightarrow> dist ! i ! j \<le> path_sum w p)
       else dist ! i ! j = INFINITE_LATENCY))"
proof -
  obtain dist lat sws where d: "shortest_path w l (square_of n 0) = Some (Inr (dist, lat, sws))"
    "dist_inv n w l dist lat sws" "\<forall>i < n. \<forall>j < n. triangle n dist i j" using shortest_path_ok [OF assms] by blast
  have "if \<exists>p. is_path n w i j p \<and> path_sum w p < INFINITE_LATENCY
      then on_path n w l i j (dist ! i ! j) (lat ! i ! j) (sws ! i ! j) \<and>
        (\<forall>p. is_path n w i j p \<longrightarrow> dist ! i ! j \<le> path_sum w p)
      else dist ! i ! j = INFINITE_LATENCY" if ij: "i < n" "j < n" "i \<noteq> j" for i j
  proof -
    have least: "dist ! i ! j \<le> path_sum w p" if "is_path n w i j p" for p
      by (rule triangle_shortest [OF d(2,3) that])
    have path: "on_path n w l i j (dist ! i ! j) (lat ! i ! j) (sws ! i ! j)" if "dist ! i ! j < INFINITE_LATENCY"
      using d(2) ij that by (simp add: dist_inv_def)
    have "dist ! i ! j \<le> INFINITE_LATENCY" using d(2) ij by (simp add: dist_inv_def)
    show ?thesis
    proof (cases "dist ! i ! j < INFINITE_LATENCY")
      case True
      then have "\<exists>p. is_path n w i j p \<and> path_sum w p < INFINITE_LATENCY"
        using path unfolding on_path_def by auto
      then show ?thesis using path [OF True] least by simp
    next
      case False
      then have no: "\<not> (\<exists>p. is_path n w i j p \<and> path_sum w p < INFINITE_LATENCY)" using least by force
      show ?thesis unfolding if_not_P [OF no] using False \<open>dist ! i ! j \<le> INFINITE_LATENCY\<close> by simp
    qed
  qed
  then show ?thesis using d(1) by blast
qed

text \<open>Three switches in a line, with the links 0 -- 1 and 1 -- 2.\<close>

definition line_weights :: matrix where
  "line_weights = [[0, 1, 10000], [1, 0, 1], [10000, 1, 0]]"

lemma line_weights_wf: "weights_wf 3 line_weights"
  by (auto simp: weights_wf_def square_def line_weights_def INFINITE_LATENCY_def less_Suc_eq numeral_3_eq_3)

theorem shortest_path_terminates_correct_witness:
  "\<exists>dist lat sws. shortest_path line_weights (square_of 3 1) (square_of 3 0) = Some (Inr (dist, lat, sws)) \<and>
     on_path 3 line_weights (square_of 3 1) 0 2 (dist ! 0 ! 2) (lat ! 0 ! 2) (sws ! 0 ! 2) \<and> dist ! 0 ! 2 \<le> 2"
proof -
  have p: "is_path 3 line_weights 0 2 [0, 1, 2]" "path_sum line_weights [0, 1, 2] = 2"
    by (simp_all add: is_path_def line_weights_def INFINITE_LATENCY_def)
  then have "\<exists>p. is_path 3 line_weights 0 2 p \<and> path_sum line_weights p < INFINITE_LATENCY"
    by (intro exI [of _ "[0, 1, 2]"]) (simp add: INFINITE_LATENCY_def)
  moreover obtain dist lat sws where d: "shortest_path line_weights (square_of 3 1) (square_of 3 0) = Some (Inr (dist, lat, sws))"
    "\<forall>i < 3. \<forall>j < 3. i \<noteq> j \<longrightarrow>
      (if \<exists>p. is_path 3 line_weights i j p \<and> path_sum line_weights p < INFINITE_LATENCY
       then on_path 3 line_weights (square_of 3 1) i j (dist ! i ! j) (lat ! i ! j) (sws ! i ! j) \<and>
         (\<forall>p. is_path 3 line_weights i j p \<longrightarrow> dist ! i ! j \<le> path_sum line_weights p)
       else dist ! i ! j = INFINITE_LATENCY)"
    using shortest_path_terminates_correct [OF line_weights_wf square_square_of(1)] by blast
  ultimately have "on_path 3 line_weights (square_of 3 1) 0 2 (dist ! 0 ! 2) (lat ! 0 ! 2) (sws ! 0 ! 2)"
    "\<forall>p. is_path 3 line_weights 0 2 p \<longrightarrow> dist ! 0 ! 2 \<le> path_sum line_weights p"
    using d(2) [rule_format, of 0 2] by simp_all
  then show ?thesis using d(1) p by metis
qed

text \<open>C6: the routing table entry of a link contains exactly the machines that the link brings nearer by
  its own weight, and every machine when the link leads to the bus; and from a switch that can reach
  an output queue some link has the machine of that queue in its entry, so that a message is never
  without a way on.\<close>

theorem routing_entry_exact:
  assumes "\<forall>n \<in> set ct. n < 32" and "weights_wf n w" and "square n l"
    and "shortest_path w l (square_of n 0) = Some (Inr (dist, lat, sws))"
    and "src < n" and "nxt < n" and "2 * sum_list ct \<le> n" and "t < length ct" and "i < ct ! t"
  shows "(\<exists>d. shortest_path_to_node ct src nxt w dist nodes = Inr d \<and>
      dests d = (if is_bus nxt nodes then (SIGMA t:{..<length ct}. {..<ct ! t}) else routed ct src nxt w dist nodes)) \<and>
    (let final = global_id ct (t, i) + sum_list ct
     in src \<noteq> final \<and> dist ! src ! final < INFINITE_LATENCY \<longrightarrow>
       (\<exists>k d. k < n \<and> k \<noteq> src \<and> w ! src ! k < INFINITE_LATENCY \<and>
         shortest_path_to_node ct src k w dist nodes = Inr d \<and> (t, i) \<in> dests d))"
proof -
  obtain dist1 lat1 sws1 where "shortest_path w l (square_of n 0) = Some (Inr (dist1, lat1, sws1))"
    "dist_inv n w l dist1 lat1 sws1" "\<forall>i < n. \<forall>j < n. triangle n dist1 i j"
    using shortest_path_ok [OF assms(2,3)] by (elim exE conjE)
  then have d: "dist_inv n w l dist lat sws" "\<forall>i < n. \<forall>j < n. triangle n dist i j" unfolding assms(4) by simp_all
  have sq: "square n w" "square n dist" using assms(2) d(1) by (simp_all add: weights_wf_def dist_inv_def)
  note spec = shortest_path_to_node_spec [OF assms(1) sq assms(5) _ assms(7), of _ nodes]
  have bus: "routed ct src nxt w dist nodes = (SIGMA t:{..<length ct}. {..<ct ! t})" if "is_bus nxt nodes"
    using that by (auto simp: routed_def)
  define final where "final = global_id ct (t, i) + sum_list ct"
  have "global_id ct (t, i) < sum_list ct"
    using global_id_less [OF assms(8,9), of "length ct" 0] assms(8) by (simp add: global_id_def)
  then have f: "final < n" using assms(7) by (simp add: final_def)
  have on: "\<exists>k d. k < n \<and> k \<noteq> src \<and> w ! src ! k < INFINITE_LATENCY \<and>
      shortest_path_to_node ct src k w dist nodes = Inr d \<and> (t, i) \<in> dests d"
    if r: "src \<noteq> final" "dist ! src ! final < INFINITE_LATENCY"
  proof -
    obtain k where k: "k < n" "w ! src ! k < INFINITE_LATENCY" "k \<noteq> src" "w ! src ! k + dist ! k ! final = dist ! src ! final"
      using next_switch [OF assms(2) d assms(5) f r] by blast
    then have "(t, i) \<in> routed ct src k w dist nodes" using assms(8,9) by (simp add: routed_def final_def)
    moreover obtain d where "shortest_path_to_node ct src k w dist nodes = Inr d" "dests d = routed ct src k w dist nodes"
      using spec [OF k(1)] by (elim exE conjE)
    ultimately show ?thesis using k by (intro exI [of _ k] exI [of _ d]) simp
  qed
  have entry: "\<exists>d. shortest_path_to_node ct src nxt w dist nodes = Inr d \<and>
      dests d = (if is_bus nxt nodes then (SIGMA t:{..<length ct}. {..<ct ! t}) else routed ct src nxt w dist nodes)"
    using spec [OF assms(6)] bus by (elim exE conjE) simp
  show ?thesis unfolding Let_def final_def [symmetric] by (intro conjI impI entry on) simp_all
qed

text \<open>Two controllers of one machine type and one router, switch 4: the links 0 -- 4, 1 -- 4, 4 -- 2 and 4 -- 3.\<close>

definition star_weights :: matrix where
  "star_weights = [[0, 10000, 10000, 10000, 1], [10000, 0, 10000, 10000, 1], [10000, 10000, 0, 10000, 10000],
     [10000, 10000, 10000, 0, 10000], [10000, 10000, 1, 1, 0]]"

lemma star_weights_wf: "weights_wf 5 star_weights"
  by code_simp

theorem routing_entry_exact_witness:
  "\<exists>dist lat sws d. shortest_path star_weights (square_of 5 1) (square_of 5 0) = Some (Inr (dist, lat, sws)) \<and>
     shortest_path_to_node [2] 4 3 star_weights dist 2 = Inr d \<and> dests d = routed [2] 4 3 star_weights dist 2"
proof -
  obtain dist lat sws where d: "shortest_path star_weights (square_of 5 1) (square_of 5 0) = Some (Inr (dist, lat, sws))"
    using shortest_path_ok [OF star_weights_wf square_square_of(1), of 1] by (elim exE conjE)
  have bus: "\<not> is_bus 3 2" by (simp add: is_bus_def)
  have "\<exists>e. shortest_path_to_node [2] 4 3 star_weights dist 2 = Inr e \<and> dests e =
      (if is_bus 3 2 then (SIGMA t:{..<length [2 :: nat]}. {..<[2] ! t}) else routed [2] 4 3 star_weights dist 2)"
    by (rule routing_entry_exact [OF _ star_weights_wf square_square_of(1) d, of "[2]" 4 3 0 0 2, THEN conjunct1]) simp_all
  then obtain e where e: "shortest_path_to_node [2] 4 3 star_weights dist 2 = Inr e"
    "dests e = routed [2] 4 3 star_weights dist 2" unfolding if_not_P [OF bus] by (elim exE conjE)
  show ?thesis using d e by (intro exI [of _ dist] exI [of _ lat] exI [of _ sws] exI [of _ e] conjI)
qed

end
