(* ===== verification/Perfect_Switch.thy ===== *)
theory Perfect_Switch
  imports Throttle
begin

text \<open>
  The switch of the simple network: \<open>PerfectSwitch\<close> of
  src/gem5-stable/src/mem/ruby/network/simple/PerfectSwitch.hh and PerfectSwitch.cc. It takes the messages
  of its input ports round robin and puts a copy into the output buffer of every link whose routing
  table entry meets the destinations of the message. Buffers are held by value: the inputs and the
  outputs of a switch are different buffers. The calls on the consumers of the output buffers are
  returned, each with the number of its link. Debug output, printing and the empty statistics
  functions are left out.
\<close>

section \<open>State\<close>

definition PRIORITY_SWITCH_LIMIT :: int where
  "PRIORITY_SWITCH_LIMIT = 128"

record link_order =
  lo_link :: nat
  lo_value :: int

definition LinkOrder_less :: "link_order \<Rightarrow> link_order \<Rightarrow> bool" where
  "LinkOrder_less l1 l2 \<longleftrightarrow> lo_value l1 < lo_value l2"

record 'd perfect_switch =
  ps_switch_id :: nat
  ps_in :: "'d net_buffer option list list"
  ps_out :: "'d net_buffer option list list"
  m_routing_table :: "net_dest list"
  m_link_order :: "link_order list"
  ps_virtual_networks :: nat
  m_round_robin_start :: nat
  ps_wakeups_wo_switch :: int
  m_pending_message_count :: "int list"

text \<open>What a switch finds around it: the current tick, the Ruby system, the machine counts, the settings of
  the network (\<open>getAdaptiveRouting\<close> and the vector that \<open>isVNetOrdered\<close> reads), and the random numbers by
  the number of the draw.\<close>

record switch_env =
  se_now :: tick
  se_rs :: ruby_system
  se_ct :: "nat list"
  se_adaptive :: bool
  se_ordered :: "bool list"
  se_random :: "nat \<Rightarrow> nat"
  se_random_time :: "nat \<Rightarrow> cycles \<times> cycles \<times> cycles"

definition PerfectSwitch_new :: "nat \<Rightarrow> nat \<Rightarrow> 'd perfect_switch" where
  "PerfectSwitch_new sid virt_nets = \<lparr>ps_switch_id = sid, ps_in = [], ps_out = [], m_routing_table = [], m_link_order = [],
     ps_virtual_networks = virt_nets, m_round_robin_start = 0, ps_wakeups_wo_switch = 0, m_pending_message_count = []\<rparr>"

definition PerfectSwitch_init :: "'d perfect_switch \<Rightarrow> 'd perfect_switch" where
  "PerfectSwitch_init sw =
     sw\<lparr>m_pending_message_count := m_pending_message_count sw @ replicate (ps_virtual_networks sw) 0\<rparr>"

text \<open>\<open>desc\<close> gives the description string of a queue from its number.\<close>

definition connect_input :: "(nat \<Rightarrow> string) \<Rightarrow> nat \<Rightarrow> 'd net_buffer option \<Rightarrow> nat \<Rightarrow> 'd net_buffer option result" where
  "connect_input desc port b i = (case b of
     None \<Rightarrow> Inr None
   | Some q \<Rightarrow> rbind (MessageBuffer_setConsumer q) (\<lambda>q1.
       Inr (Some (setVnet (setIncomingLink (MessageBuffer_setDescription q1 (desc i)) (int port)) (int i)))))"

definition PerfectSwitch_addInPort :: "(nat \<Rightarrow> string) \<Rightarrow> 'd perfect_switch \<Rightarrow> 'd net_buffer option list \<Rightarrow>
    'd perfect_switch result" where
  "PerfectSwitch_addInPort desc sw bs =
     rbind (rmap2 (connect_input desc (length (ps_in sw))) bs [0..<length bs]) (\<lambda>bs'.
     Inr (sw\<lparr>ps_in := ps_in sw @ [bs']\<rparr>))"

definition PerfectSwitch_addOutPort :: "'d perfect_switch \<Rightarrow> 'd net_buffer option list \<Rightarrow> net_dest \<Rightarrow> 'd perfect_switch" where
  "PerfectSwitch_addOutPort sw bs entry =
     sw\<lparr>m_link_order := m_link_order sw @ [\<lparr>lo_link = length (ps_out sw), lo_value = 0\<rparr>],
        ps_out := ps_out sw @ [bs], m_routing_table := m_routing_table sw @ [entry]\<rparr>"

definition PerfectSwitch_storeEventInfo :: "'d perfect_switch \<Rightarrow> nat \<Rightarrow> 'd perfect_switch result" where
  "PerfectSwitch_storeEventInfo sw info =
     rbind (at_pos (m_pending_message_count sw) info) (\<lambda>c.
     Inr (sw\<lparr>m_pending_message_count := (m_pending_message_count sw)[info := c + 1]\<rparr>))"

section \<open>Ports\<close>

definition port_buf :: "'d net_buffer option list list \<Rightarrow> nat \<Rightarrow> nat \<Rightarrow> 'd net_buffer result" where
  "port_buf ports p v = rbind (at_pos ports p) (\<lambda>bs. rbind (at_pos bs v) deref)"

definition put_buf :: "'d net_buffer option list list \<Rightarrow> nat \<Rightarrow> nat \<Rightarrow> 'd net_buffer \<Rightarrow> 'd net_buffer option list list" where
  "put_buf ports p v b = ports[p := (ports ! p)[v := Some b]]"

section \<open>The order of the links\<close>

text \<open>Without adaptive routing on an ordered network the links are in their own order.\<close>

definition plain_order :: "nat \<Rightarrow> link_order list" where
  "plain_order n = map (\<lambda>out. \<lparr>lo_link = out, lo_value = 0\<rparr>) [0..<n]"

text \<open>\<open>getSize\<close> records in the buffer that its size was read.\<close>

definition out_queue_length :: "switch_env \<Rightarrow> 'd perfect_switch \<Rightarrow> nat \<Rightarrow> (int \<times> 'd perfect_switch) result" where
  "out_queue_length env sw out = rfold (\<lambda>(len, sw) v.
     rbind (port_buf (ps_out sw) out v) (\<lambda>b. rbind (MessageBuffer_getSize (se_now env) b) (\<lambda>(sz, b').
     Inr (len + uint sz, sw\<lparr>ps_out := put_buf (ps_out sw) out v b'\<rparr>))))
     (0, sw) [0..<ps_virtual_networks sw]"

text \<open>\<open>random\<close> is at most 255. The queue lengths are far below \<open>2 ^ 23\<close>, where the shift would overflow.\<close>

definition clogged_order :: "switch_env \<Rightarrow> 'd perfect_switch \<Rightarrow> nat \<Rightarrow> (link_order list \<times> 'd perfect_switch) result" where
  "clogged_order env sw draw = rfold (\<lambda>(order, sw) out.
     rbind (out_queue_length env sw out) (\<lambda>(len, sw').
     Inr (order @ [\<lparr>lo_link = out, lo_value = push_bit 8 len OR int (se_random env (draw + out))\<rparr>], sw')))
     ([], sw) [0..<length (ps_out sw)]"

text \<open>\<open>std::sort\<close> on at most 16 links is an insertion sort, which keeps the order of equal links.\<close>

definition arrange_links :: "switch_env \<Rightarrow> nat \<Rightarrow> 'd perfect_switch \<Rightarrow> nat \<Rightarrow> ('d perfect_switch \<times> nat) result" where
  "arrange_links env vnet sw draw =
     (if se_adaptive env
      then rbind (at_pos (se_ordered env) vnet) (\<lambda>ordered.
           if ordered then Inr (sw\<lparr>m_link_order := plain_order (length (ps_out sw))\<rparr>, draw)
           else rbind (clogged_order env sw draw) (\<lambda>(order, sw').
                Inr (sw'\<lparr>m_link_order := sort_key lo_value order\<rparr>, draw + length (ps_out sw))))
      else Inr (sw, draw))"

section \<open>Routing a message\<close>

definition route_link :: "nat list \<Rightarrow> net_dest list \<Rightarrow> net_dest \<Rightarrow> (nat \<times> net_dest) list \<Rightarrow> link_order \<Rightarrow>
    (nat \<times> net_dest) list result" where
  "route_link ct table msg_dsts links lo =
     rbind (at_pos table (lo_link lo)) (\<lambda>dst.
     rbind (NetDest_intersectionIsNotEmpty msg_dsts dst) (\<lambda>meets.
     if \<not> meets then Inr links
     else rbind (NetDest_AND ct msg_dsts dst) (\<lambda>d. Inr (links @ [(lo_link lo, d)]))))"

text \<open>The links to use with the destinations each one is responsible for: \<open>output_links\<close> and
  \<open>output_link_destinations\<close>.\<close>

definition route :: "switch_env \<Rightarrow> 'd perfect_switch \<Rightarrow> net_dest \<Rightarrow> (nat \<times> net_dest) list result" where
  "route env sw msg_dsts = rfold (route_link (se_ct env) (m_routing_table sw) msg_dsts) [] (m_link_order sw)"

definition check_slot :: "switch_env \<Rightarrow> nat \<Rightarrow> bool \<times> 'd perfect_switch \<Rightarrow> nat \<times> net_dest \<Rightarrow> (bool \<times> 'd perfect_switch) result" where
  "check_slot env vnet = (\<lambda>(enough, sw) (outgoing, d).
     rbind (port_buf (ps_out sw) outgoing vnet) (\<lambda>b. rbind (areNSlotsAvailable (se_now env) b 1) (\<lambda>(ok, b').
     Inr (enough \<and> ok, sw\<lparr>ps_out := put_buf (ps_out sw) outgoing vnet b'\<rparr>))))"

text \<open>The first link gets the dequeued message itself, the others get clones of the message as it was
  before the dequeue. Its internal destination is set to the nodes the link is responsible for.\<close>

definition set_internal_dest :: "net_dest \<Rightarrow> 'd network_message message \<Rightarrow> 'd network_message message" where
  "set_internal_dest d m = m\<lparr>payload := (snd (getInternalDestination (payload m)))\<lparr>m_internal_dest := d\<rparr>\<rparr>"

text \<open>A switch below number 5, next to a core or the memory, does not send a message back over the port
  it came from; the central switch does.\<close>

definition forward_link :: "switch_env \<Rightarrow> nat \<Rightarrow> nat \<Rightarrow> 'd network_message message \<Rightarrow>
    'd perfect_switch \<times> (nat \<times> consumer_call) list \<times> nat \<Rightarrow> nat \<times> net_dest \<Rightarrow>
    ('d perfect_switch \<times> (nat \<times> consumer_call) list \<times> nat) result" where
  "forward_link env vnet incoming msg = (\<lambda>(sw, calls, draw) (outgoing, d).
     if ps_switch_id sw < 5 \<and> incoming = outgoing then Inr (sw, calls, draw)
     else rbind (port_buf (ps_out sw) outgoing vnet) (\<lambda>b.
          rbind (MessageBuffer_enqueue (se_now env) (se_rs env) (se_random_time env draw) b
                   (Some (set_internal_dest d msg)) 1 False) (\<lambda>(b', cs).
          Inr (sw\<lparr>ps_out := put_buf (ps_out sw) outgoing vnet b'\<rparr>, calls @ map (Pair outgoing) cs, draw + 1))))"

definition forward_all :: "switch_env \<Rightarrow> nat \<Rightarrow> nat \<Rightarrow> 'd network_message message \<Rightarrow> 'd network_message message \<Rightarrow>
    (nat \<times> net_dest) list \<Rightarrow> 'd perfect_switch \<times> (nat \<times> consumer_call) list \<times> nat \<Rightarrow>
    ('d perfect_switch \<times> (nat \<times> consumer_call) list \<times> nat) result" where
  "forward_all env vnet incoming msg clone links st = (case links of
     [] \<Rightarrow> Inr st
   | l # ls \<Rightarrow> rbind (forward_link env vnet incoming msg st l) (\<lambda>st'.
       rfold (forward_link env vnet incoming clone) st' ls))"

section \<open>One message\<close>

text \<open>The state of \<open>operateVnet\<close>: the switch, its event queue, the calls on the output buffers' consumers
  and the number of random numbers drawn.\<close>

type_synonym 'd operate_state = "'d perfect_switch \<times> consumer \<times> (nat \<times> consumer_call) list \<times> nat"

text \<open>Reading the internal destination of the message at the head of a buffer sets it there.\<close>

definition read_head :: "'d net_buffer \<Rightarrow> 'd network_message message \<Rightarrow> 'd net_buffer" where
  "read_head b m = b\<lparr>m_prio_heap := (m_prio_heap b)[0 := (hd (m_prio_heap b))\<lparr>m_msgptr := m\<rparr>]\<rparr>"

text \<open>One round of the loop over the ready messages of an input: the result says whether the loop goes on.\<close>

definition switch_message :: "switch_env \<Rightarrow> nat \<Rightarrow> nat \<Rightarrow> 'd operate_state \<Rightarrow> (bool \<times> 'd operate_state) result" where
  "switch_message env vnet incoming = (\<lambda>(sw, self, calls, draw).
     rbind (port_buf (ps_in sw) incoming vnet) (\<lambda>buffer.
     rbind (peekMsgPtr (se_now env) buffer) (\<lambda>msg0.
     let (msg_dsts, p) = getInternalDestination (payload msg0);
         msg_ptr = msg0\<lparr>payload := p\<rparr>;
         buffer1 = read_head buffer msg_ptr;
         sw1 = sw\<lparr>ps_in := put_buf (ps_in sw) incoming vnet buffer1\<rparr>
     in ensure (length (m_link_order sw1) = length (m_routing_table sw1)) AssertFailed (
        ensure (length (m_link_order sw1) = length (ps_out sw1)) AssertFailed (
        rbind (arrange_links env vnet sw1 draw) (\<lambda>(sw2, draw2).
        rbind (route env sw2 msg_dsts) (\<lambda>links.
        rbind (rfold (check_slot env vnet) (True, sw2) links) (\<lambda>(enough, sw3).
        if \<not> enough
        then rbind (scheduleEvent (se_now env) self 1) (\<lambda>self'. Inr (False, sw3, self', calls, draw2))
        else rbind (MessageBuffer_dequeue (se_now env) buffer1) (\<lambda>(cyc, msg, buffer2).
             rbind (at_pos (m_pending_message_count sw3) vnet) (\<lambda>c.
             let sw4 = sw3\<lparr>ps_in := put_buf (ps_in sw3) incoming vnet buffer2,
                           m_pending_message_count := (m_pending_message_count sw3)[vnet := c - 1]\<rparr>
             in rbind (forward_all env vnet incoming msg msg_ptr links (sw4, calls, draw2)) (\<lambda>(sw5, calls', draw').
                Inr (True, sw5, self, calls', draw'))))))))))))"

section \<open>What the steps leave alone\<close>

lemma port_buf_Inr: "port_buf ports p v = Inr b \<longleftrightarrow> p < length ports \<and> v < length (ports ! p) \<and> ports ! p ! v = Some b"
  by (auto simp: port_buf_def at_pos_def deref_def split: option.splits)

lemma put_buf_shape [simp]:
  "length (put_buf ports p v b) = length ports" "map length (put_buf ports p v b) = map length ports"
  by (simp_all add: put_buf_def) (cases "p < length ports"; simp add: map_update list_update_same_conv list_update_beyond)

lemma port_buf_put:
  assumes "p < length ports" and "v < length (ports ! p)"
  shows "port_buf (put_buf ports p v b) q u = (if q = p \<and> u = v then Inr b else port_buf ports q u)"
  using assms by (auto simp: port_buf_def put_buf_def at_pos_def nth_list_update)

text \<open>The messages waiting in a buffer, and in the buffer of a port.\<close>

definition contents_of :: "'d net_buffer \<Rightarrow> 'd network_message multiset" where
  "contents_of b = image_mset (\<lambda>n. payload (m_msgptr n)) (mset (m_prio_heap b))"

definition waiting :: "'d net_buffer option list list \<Rightarrow> nat \<Rightarrow> nat \<Rightarrow> 'd network_message multiset" where
  "waiting ports p v = (case port_buf ports p v of Inr b \<Rightarrow> contents_of b | Inl e \<Rightarrow> {#})"

lemma waiting_put:
  assumes "port_buf ports p v = Inr b0"
  shows "waiting (put_buf ports p v b) q u = (if q = p \<and> u = v then contents_of b else waiting ports q u)"
  using assms by (simp add: waiting_def port_buf_put port_buf_Inr)

text \<open>Everything but the output buffers, the link order and the statistics in the buffers.\<close>

definition out_frame :: "'d perfect_switch \<Rightarrow> 'd perfect_switch \<Rightarrow> bool" where
  "out_frame sw sw' \<longleftrightarrow> ps_switch_id sw' = ps_switch_id sw \<and> ps_in sw' = ps_in sw \<and>
     m_routing_table sw' = m_routing_table sw \<and> ps_virtual_networks sw' = ps_virtual_networks sw \<and>
     m_round_robin_start sw' = m_round_robin_start sw \<and> ps_wakeups_wo_switch sw' = ps_wakeups_wo_switch sw \<and>
     m_pending_message_count sw' = m_pending_message_count sw \<and> map length (ps_out sw') = map length (ps_out sw)"

definition quiet :: "'d perfect_switch \<Rightarrow> 'd perfect_switch \<Rightarrow> bool" where
  "quiet sw sw' \<longleftrightarrow> out_frame sw sw' \<and> (\<forall>p v. waiting (ps_out sw') p v = waiting (ps_out sw) p v)"

lemma out_frame_refl [simp]: "out_frame sw sw"
  by (simp add: out_frame_def)

lemma out_frame_trans: "out_frame a b \<Longrightarrow> out_frame b c \<Longrightarrow> out_frame a c"
  by (simp add: out_frame_def)

lemma quiet_refl [simp]: "quiet sw sw"
  by (simp add: quiet_def)

lemma quiet_trans: "quiet a b \<Longrightarrow> quiet b c \<Longrightarrow> quiet a c"
  by (auto simp: quiet_def intro: out_frame_trans)

lemma out_frame_length: "out_frame a b \<Longrightarrow> length (ps_out b) = length (ps_out a)"
  by (metis length_map out_frame_def)

lemma quiet_put:
  assumes "port_buf (ps_out sw) p v = Inr b" and "m_prio_heap b' = m_prio_heap b"
  shows "quiet sw (sw\<lparr>ps_out := put_buf (ps_out sw) p v b'\<rparr>)"
  using assms waiting_put [OF assms(1), of b'] by (simp add: quiet_def out_frame_def waiting_def contents_of_def)

lemma quiet_order: "quiet a b \<Longrightarrow> quiet a (b\<lparr>m_link_order := x\<rparr>)"
  by (simp add: quiet_def out_frame_def)

lemma getSize_heap: "MessageBuffer_getSize now b = Inr (sz, b') \<Longrightarrow> m_prio_heap b' = m_prio_heap b"
  by (auto simp: MessageBuffer_getSize_def Let_def split: if_splits)

lemma out_queue_length_quiet:
  assumes "rfold (\<lambda>(len, sw) v.
     rbind (port_buf (ps_out sw) out v) (\<lambda>b. rbind (MessageBuffer_getSize (se_now env) b) (\<lambda>(sz, b').
     Inr (len + uint sz, sw\<lparr>ps_out := put_buf (ps_out sw) out v b'\<rparr>)))) (len, sw) vs = Inr (len', sw')"
  shows "quiet sw sw' \<and> m_link_order sw' = m_link_order sw"
  using assms
proof (induction vs arbitrary: len sw)
  case Nil
  then show ?case by simp
next
  case (Cons v vs)
  from Cons.prems obtain b sz b' where b: "port_buf (ps_out sw) out v = Inr b" "MessageBuffer_getSize (se_now env) b = Inr (sz, b')"
    "rfold (\<lambda>(len, sw) v.
       rbind (port_buf (ps_out sw) out v) (\<lambda>b. rbind (MessageBuffer_getSize (se_now env) b) (\<lambda>(sz, b').
       Inr (len + uint sz, sw\<lparr>ps_out := put_buf (ps_out sw) out v b'\<rparr>))))
       (len + uint sz, sw\<lparr>ps_out := put_buf (ps_out sw) out v b'\<rparr>) vs = Inr (len', sw')" by auto
  show ?case using Cons.IH [OF b(3)] quiet_trans [OF quiet_put [OF b(1) getSize_heap [OF b(2)]]] by simp
qed

lemma clogged_order_quiet:
  assumes "rfold (\<lambda>(order, sw) out.
     rbind (out_queue_length env sw out) (\<lambda>(len, sw').
     Inr (order @ [\<lparr>lo_link = out, lo_value = push_bit 8 len OR int (se_random env (draw + out))\<rparr>], sw')))
     (order, sw) outs = Inr (order', sw')"
  shows "quiet sw sw' \<and> map lo_link order' = map lo_link order @ outs"
  using assms
proof (induction outs arbitrary: order sw)
  case Nil
  then show ?case by simp
next
  case (Cons out outs)
  from Cons.prems obtain len sw1 where l: "out_queue_length env sw out = Inr (len, sw1)"
    "rfold (\<lambda>(order, sw) out.
     rbind (out_queue_length env sw out) (\<lambda>(len, sw').
     Inr (order @ [\<lparr>lo_link = out, lo_value = push_bit 8 len OR int (se_random env (draw + out))\<rparr>], sw')))
     (order @ [\<lparr>lo_link = out, lo_value = push_bit 8 len OR int (se_random env (draw + out))\<rparr>], sw1) outs = Inr (order', sw')"
    by auto
  have "quiet sw sw1" using out_queue_length_quiet l(1) unfolding out_queue_length_def by blast
  then show ?case using Cons.IH [OF l(2)] quiet_trans by auto
qed

text \<open>The link order names every link once.\<close>

definition order_wf :: "'d perfect_switch \<Rightarrow> bool" where
  "order_wf sw \<longleftrightarrow> mset (map lo_link (m_link_order sw)) = mset [0..<length (ps_out sw)] \<and>
     length (m_routing_table sw) = length (ps_out sw)"

lemma arrange_links_quiet:
  assumes "arrange_links env vnet sw draw = Inr (sw', draw')"
  shows "quiet sw sw' \<and> (order_wf sw \<longrightarrow> order_wf sw')"
proof (cases "se_adaptive env")
  case False
  then show ?thesis using assms by (simp add: arrange_links_def)
next
  case True
  then obtain ordered where o: "at_pos (se_ordered env) vnet = Inr ordered" using assms by (auto simp: arrange_links_def)
  show ?thesis
  proof (cases ordered)
    case yes: True
    then have "sw' = sw\<lparr>m_link_order := plain_order (length (ps_out sw))\<rparr>"
      using assms o True by (simp add: arrange_links_def)
    then show ?thesis using quiet_order [of sw sw] by (simp add: order_wf_def plain_order_def comp_def)
  next
    case no: False
    then obtain order sw1 where c: "clogged_order env sw draw = Inr (order, sw1)" "sw' = sw1\<lparr>m_link_order := sort_key lo_value order\<rparr>"
      using assms o True by (auto simp: arrange_links_def)
    have q: "quiet sw sw1" "map lo_link order = [0..<length (ps_out sw)]"
      using clogged_order_quiet [OF c(1) [unfolded clogged_order_def]] by auto
    have "out_frame sw sw1" using q(1) by (simp add: quiet_def)
    then have "length (ps_out sw1) = length (ps_out sw)" "m_routing_table sw1 = m_routing_table sw"
      using out_frame_length by (auto simp: out_frame_def)
    moreover have "mset (map lo_link (sort_key lo_value order)) = mset (map lo_link order)"
      by (simp add: mset_map)
    ultimately show ?thesis using q quiet_order [OF q(1)] by (simp add: c(2) order_wf_def)
  qed
qed

lemma check_slot_quiet:
  assumes "rfold (check_slot env vnet) (enough, sw) links = Inr (enough', sw')"
  shows "quiet sw sw' \<and> m_link_order sw' = m_link_order sw"
  using assms
proof (induction links arbitrary: enough sw)
  case Nil
  then show ?case by simp
next
  case (Cons l links)
  obtain out d where l: "l = (out, d)" by (cases l)
  from Cons.prems obtain b ok b' where b: "port_buf (ps_out sw) out vnet = Inr b" "areNSlotsAvailable (se_now env) b 1 = Inr (ok, b')"
    "rfold (check_slot env vnet) (enough \<and> ok, sw\<lparr>ps_out := put_buf (ps_out sw) out vnet b'\<rparr>) links = Inr (enough', sw')"
    by (auto simp: check_slot_def l)
  show ?case using Cons.IH [OF b(3)] quiet_trans [OF quiet_put [OF b(1) areNSlots_heap [OF b(2)]]] by simp
qed

section \<open>Routing\<close>

definition table_wf :: "switch_env \<Rightarrow> 'd perfect_switch \<Rightarrow> bool" where
  "table_wf env sw \<longleftrightarrow> (\<forall>n \<in> set (se_ct env). n < 32) \<and> (\<forall>d \<in> set (m_routing_table sw). net_dest_wf (se_ct env) d)"

text \<open>The links that meet the destinations, in link order.\<close>

definition used_links :: "'d perfect_switch \<Rightarrow> net_dest \<Rightarrow> nat list" where
  "used_links sw d = filter (\<lambda>l. dests d \<inter> dests (m_routing_table sw ! l) \<noteq> {}) (map lo_link (m_link_order sw))"

lemma route_link_spec:
  assumes "\<forall>n \<in> set ct. n < 32" and "net_dest_wf ct d" and "l < length table" and "net_dest_wf ct (table ! l)"
    and "lo_link lo = l"
  shows "\<exists>links'. route_link ct table d links lo = Inr (links @ links') \<and>
    map fst links' = (if dests d \<inter> dests (table ! l) \<noteq> {} then [l] else []) \<and>
    (\<forall>(k, e) \<in> set links'. dests e = dests d \<inter> dests (table ! k))"
proof -
  have at: "at_pos table (lo_link lo) = Inr (table ! l)" using assms(3,5) by (simp add: at_pos_in)
  have test: "NetDest_intersectionIsNotEmpty d (table ! l) = Inr (dests d \<inter> dests (table ! l) \<noteq> {})"
    by (rule NetDest_test_spec(3) [OF assms(2,4)])
  obtain e where e: "NetDest_AND ct d (table ! l) = Inr e" "dests e = dests d \<inter> dests (table ! l)"
    using NetDest_result_spec(2) [OF assms(2,4,1)] by blast
  show ?thesis
  proof (cases "dests d \<inter> dests (table ! l) = {}")
    case True
    then show ?thesis unfolding route_link_def at rbind_Inr test by simp
  next
    case False
    then have "route_link ct table d links lo = Inr (links @ [(l, e)])"
      unfolding route_link_def at rbind_Inr test using e(1) assms(5) by simp
    then show ?thesis using False e(2) by (intro exI [of _ "[(l, e)]"]) simp
  qed
qed

lemma route_loop:
  assumes "\<forall>n \<in> set ct. n < 32" and "net_dest_wf ct d" and "\<forall>lo \<in> set los. lo_link lo < length table"
    and "\<forall>e \<in> set table. net_dest_wf ct e"
  shows "\<exists>links'. rfold (route_link ct table d) links los = Inr (links @ links') \<and>
    map fst links' = filter (\<lambda>l. dests d \<inter> dests (table ! l) \<noteq> {}) (map lo_link los) \<and>
    (\<forall>(k, e) \<in> set links'. dests e = dests d \<inter> dests (table ! k))"
  using assms(3)
proof (induction los arbitrary: links)
  case Nil
  then show ?case by simp
next
  case (Cons lo los)
  have "lo_link lo < length table" using Cons.prems by simp
  moreover from this have "net_dest_wf ct (table ! lo_link lo)" using assms(4) by simp
  ultimately obtain l1 where l1: "route_link ct table d links lo = Inr (links @ l1)"
    "map fst l1 = (if dests d \<inter> dests (table ! lo_link lo) \<noteq> {} then [lo_link lo] else [])"
    "\<forall>(k, e) \<in> set l1. dests e = dests d \<inter> dests (table ! k)"
    using route_link_spec [OF assms(1,2) _ _ refl] by blast
  have "\<forall>lo \<in> set los. lo_link lo < length table" using Cons.prems by simp
  from Cons.IH [OF this, of "links @ l1"]
  obtain l2 where l2: "rfold (route_link ct table d) (links @ l1) los = Inr (links @ l1 @ l2)"
    "map fst l2 = filter (\<lambda>l. dests d \<inter> dests (table ! l) \<noteq> {}) (map lo_link los)"
    "\<forall>(k, e) \<in> set l2. dests e = dests d \<inter> dests (table ! k)" by auto
  have "\<forall>(k, e) \<in> set (l1 @ l2). dests e = dests d \<inter> dests (table ! k)" using l1(3) l2(3) by auto
  then show ?case using l1(1,2) l2(1,2) by (intro exI [of _ "l1 @ l2"]) simp
qed

lemma order_wf_links:
  assumes "order_wf sw"
  shows "set (map lo_link (m_link_order sw)) = {..<length (ps_out sw)}" "distinct (map lo_link (m_link_order sw))"
    "length (m_link_order sw) = length (ps_out sw)"
proof -
  have m: "mset (map lo_link (m_link_order sw)) = mset [0..<length (ps_out sw)]" using assms by (simp add: order_wf_def)
  show "set (map lo_link (m_link_order sw)) = {..<length (ps_out sw)}"
    using mset_eq_setD [OF m] by (simp add: atLeast0LessThan)
  show "distinct (map lo_link (m_link_order sw))" using mset_eq_imp_distinct_iff [OF m] by simp
  show "length (m_link_order sw) = length (ps_out sw)" using mset_eq_length [OF m] by simp
qed

lemma route_spec:
  assumes "table_wf env sw" and "order_wf sw" and "net_dest_wf (se_ct env) d"
  shows "\<exists>links. route env sw d = Inr links \<and> map fst links = used_links sw d \<and>
    (\<forall>(k, e) \<in> set links. dests e = dests d \<inter> dests (m_routing_table sw ! k))"
proof -
  have "\<forall>lo \<in> set (m_link_order sw). lo_link lo < length (m_routing_table sw)"
    using order_wf_links(1) [OF assms(2)] assms(2) by (auto simp: order_wf_def)
  from route_loop [OF _ assms(3) this, of "[]"] assms(1) show ?thesis
    by (auto simp: route_def used_links_def table_wf_def)
qed

section \<open>Forwarding\<close>

text \<open>The links a message leaves over.\<close>

definition sent_over :: "'d perfect_switch \<Rightarrow> nat \<Rightarrow> nat \<Rightarrow> bool" where
  "sent_over sw incoming l \<longleftrightarrow> \<not> (ps_switch_id sw < 5 \<and> incoming = l)"

definition redirect :: "net_dest \<Rightarrow> 'd network_message \<Rightarrow> 'd network_message" where
  "redirect d m = (snd (getInternalDestination m))\<lparr>m_internal_dest := d\<rparr>"

lemma set_internal_dest_payload [simp]: "payload (set_internal_dest d m) = redirect d (payload m)"
  by (simp add: set_internal_dest_def redirect_def)

lemma forward_link_spec:
  assumes "forward_link env vnet incoming msg (sw, calls, draw) (l, d) = Inr (sw', calls', draw')"
  shows "out_frame sw sw' \<and> m_link_order sw' = m_link_order sw \<and>
    (\<forall>p v. waiting (ps_out sw') p v = waiting (ps_out sw) p v +
      (if p = l \<and> v = vnet \<and> sent_over sw incoming l then {#redirect d (payload msg)#} else {#}))"
proof (cases "sent_over sw incoming l")
  case False
  then show ?thesis using assms by (simp add: forward_link_def sent_over_def)
next
  case True
  then have no: "\<not> (ps_switch_id sw < 5 \<and> incoming = l)" by (simp add: sent_over_def)
  obtain b b' cs where b: "port_buf (ps_out sw) l vnet = Inr b"
    "MessageBuffer_enqueue (se_now env) (se_rs env) (se_random_time env draw) b (Some (set_internal_dest d msg)) 1 False = Inr (b', cs)"
    "sw' = sw\<lparr>ps_out := put_buf (ps_out sw) l vnet b'\<rparr>"
    using assms [unfolded forward_link_def prod.case if_not_P [OF no]] by (auto simp del: set_internal_dest_payload)
  obtain n where n: "mset (m_prio_heap b') = add_mset n (mset (m_prio_heap b))" "payload (m_msgptr n) = redirect d (payload msg)"
    using enqueue_moves [OF b(2)] by auto
  have c: "contents_of b' = waiting (ps_out sw) l vnet + {#redirect d (payload msg)#}"
    using n b(1) by (simp add: contents_of_def waiting_def)
  have "waiting (ps_out sw') p v = waiting (ps_out sw) p v +
      (if p = l \<and> v = vnet \<and> sent_over sw incoming l then {#redirect d (payload msg)#} else {#})" for p v
    using waiting_put [OF b(1), of b' p v] True c by (cases "p = l \<and> v = vnet") (simp_all add: b(3))
  then show ?thesis by (simp add: b(3) out_frame_def)
qed

lemma forward_rest_spec:
  assumes "rfold (forward_link env vnet incoming msg) (sw, calls, draw) links = Inr (sw', calls', draw')"
    and "distinct (map fst links)"
  shows "out_frame sw sw' \<and> m_link_order sw' = m_link_order sw \<and>
    (\<forall>p v. waiting (ps_out sw') p v = waiting (ps_out sw) p v +
      (if v = vnet \<and> sent_over sw incoming p then
         (case map_of links p of Some d \<Rightarrow> {#redirect d (payload msg)#} | None \<Rightarrow> {#}) else {#}))"
  using assms
proof (induction links arbitrary: sw calls draw)
  case Nil
  then show ?case by simp
next
  case (Cons l links)
  obtain k d where l: "l = (k, d)" by (cases l)
  from Cons.prems(1) obtain sw1 calls1 draw1 where f: "forward_link env vnet incoming msg (sw, calls, draw) (k, d) = Inr (sw1, calls1, draw1)"
    "rfold (forward_link env vnet incoming msg) (sw1, calls1, draw1) links = Inr (sw', calls', draw')" by (auto simp: l)
  note s1 = forward_link_spec [OF f(1)]
  have d: "distinct (map fst links)" "map_of links k = None" using Cons.prems(2) by (auto simp: l map_of_eq_None_iff)
  note s2 = Cons.IH [OF f(2) d(1)]
  have so: "sent_over sw1 incoming p = sent_over sw incoming p" for p using s1 by (simp add: sent_over_def out_frame_def)
  have "waiting (ps_out sw') p v = waiting (ps_out sw) p v +
      (if v = vnet \<and> sent_over sw incoming p then
         (case map_of (l # links) p of Some d \<Rightarrow> {#redirect d (payload msg)#} | None \<Rightarrow> {#}) else {#})" for p v
    using s1 s2 d(2) so by (cases "p = k") (simp_all add: l)
  moreover have "out_frame sw sw'" using s1 s2 out_frame_trans by blast
  ultimately show ?case using s1 s2 by simp
qed

lemma forward_all_spec:
  assumes "forward_all env vnet incoming msg clone links (sw, calls, draw) = Inr (sw', calls', draw')"
    and "distinct (map fst links)" and "payload clone = payload msg"
  shows "out_frame sw sw' \<and> m_link_order sw' = m_link_order sw \<and>
    (\<forall>p v. waiting (ps_out sw') p v = waiting (ps_out sw) p v +
      (if v = vnet \<and> sent_over sw incoming p then
         (case map_of links p of Some d \<Rightarrow> {#redirect d (payload msg)#} | None \<Rightarrow> {#}) else {#}))"
proof (cases links)
  case Nil
  then show ?thesis using assms(1) by (simp add: forward_all_def)
next
  case (Cons l ls)
  obtain k d where l: "l = (k, d)" by (cases l)
  from assms(1) obtain sw1 calls1 draw1 where f: "forward_link env vnet incoming msg (sw, calls, draw) (k, d) = Inr (sw1, calls1, draw1)"
    "rfold (forward_link env vnet incoming clone) (sw1, calls1, draw1) ls = Inr (sw', calls', draw')"
    by (auto simp: forward_all_def Cons l)
  note s1 = forward_link_spec [OF f(1)]
  have d: "distinct (map fst ls)" "map_of ls k = None" using assms(2) by (auto simp: Cons l map_of_eq_None_iff)
  note s2 = forward_rest_spec [OF f(2) d(1), unfolded assms(3)]
  have so: "sent_over sw1 incoming p = sent_over sw incoming p" for p using s1 by (simp add: sent_over_def out_frame_def)
  have "waiting (ps_out sw') p v = waiting (ps_out sw) p v +
      (if v = vnet \<and> sent_over sw incoming p then
         (case map_of links p of Some d \<Rightarrow> {#redirect d (payload msg)#} | None \<Rightarrow> {#}) else {#})" for p v
    using s1 s2 d(2) so by (cases "p = k") (simp_all add: Cons l)
  moreover have "out_frame sw sw'" using s1 s2 out_frame_trans by blast
  ultimately show ?thesis using s1 s2 by simp
qed

lemma forward_all_frame:
  assumes "forward_all env vnet incoming msg clone links (sw, calls, draw) = Inr (sw', calls', draw')"
  shows "out_frame sw sw' \<and> m_link_order sw' = m_link_order sw"
proof -
  have rest: "out_frame sw sw' \<and> m_link_order sw' = m_link_order sw"
    if "rfold (forward_link env vnet incoming m) (sw, calls, draw) ls = Inr (sw', calls', draw')" for m ls sw calls draw
    using that
  proof (induction ls arbitrary: sw calls draw)
    case Nil
    then show ?case by simp
  next
    case (Cons l ls)
    obtain k d where l: "l = (k, d)" by (cases l)
    from Cons.prems obtain sw1 calls1 draw1 where f: "forward_link env vnet incoming m (sw, calls, draw) (k, d) = Inr (sw1, calls1, draw1)"
      "rfold (forward_link env vnet incoming m) (sw1, calls1, draw1) ls = Inr (sw', calls', draw')" by (auto simp: l)
    show ?case using forward_link_spec [OF f(1)] Cons.IH [OF f(2)] out_frame_trans by metis
  qed
  show ?thesis
  proof (cases links)
    case Nil
    then show ?thesis using assms by (simp add: forward_all_def)
  next
    case (Cons l ls)
    obtain k d where l: "l = (k, d)" by (cases l)
    from assms obtain sw1 calls1 draw1 where f: "forward_link env vnet incoming msg (sw, calls, draw) (k, d) = Inr (sw1, calls1, draw1)"
      "rfold (forward_link env vnet incoming clone) (sw1, calls1, draw1) ls = Inr (sw', calls', draw')"
      by (auto simp: forward_all_def Cons l)
    show ?thesis using forward_link_spec [OF f(1)] rest [OF f(2)] out_frame_trans by metis
  qed
qed

lemma switch_messageE:
  assumes "switch_message env vnet incoming (sw, self, calls, draw) = Inr (go, sw', self', calls', draw')"
  obtains b msg0 d p msg_ptr sw1 sw2 draw2 links sw3 where
    "port_buf (ps_in sw) incoming vnet = Inr b" "peekMsgPtr (se_now env) b = Inr msg0"
    "getInternalDestination (payload msg0) = (d, p)" "msg_ptr = msg0\<lparr>payload := p\<rparr>"
    "sw1 = sw\<lparr>ps_in := put_buf (ps_in sw) incoming vnet (read_head b msg_ptr)\<rparr>"
    "arrange_links env vnet sw1 draw = Inr (sw2, draw2)" "route env sw2 d = Inr links"
    "rfold (check_slot env vnet) (True, sw2) links = Inr (go, sw3)"
    "\<not> go \<Longrightarrow> sw' = sw3 \<and> calls' = calls \<and> scheduleEvent (se_now env) self 1 = Inr self'"
    "go \<Longrightarrow> self' = self \<and> (\<exists>cyc msg b2 c. MessageBuffer_dequeue (se_now env) (read_head b msg_ptr) = Inr (cyc, msg, b2) \<and>
       at_pos (m_pending_message_count sw3) vnet = Inr c \<and>
       forward_all env vnet incoming msg msg_ptr links
         (sw3\<lparr>ps_in := put_buf (ps_in sw3) incoming vnet b2,
              m_pending_message_count := (m_pending_message_count sw3)[vnet := c - 1]\<rparr>, calls, draw2) = Inr (sw', calls', draw'))"
proof -
  obtain b where b: "port_buf (ps_in sw) incoming vnet = Inr b" using assms by (auto simp: switch_message_def)
  obtain msg0 where m: "peekMsgPtr (se_now env) b = Inr msg0" using assms b by (auto simp: switch_message_def)
  obtain d p where dp: "getInternalDestination (payload msg0) = (d, p)" by (cases "getInternalDestination (payload msg0)")
  define msg_ptr where "msg_ptr = msg0\<lparr>payload := p\<rparr>"
  define sw1 where "sw1 = sw\<lparr>ps_in := put_buf (ps_in sw) incoming vnet (read_head b msg_ptr)\<rparr>"
  note body = assms [unfolded switch_message_def prod.case b rbind_Inr m dp Let_def, folded msg_ptr_def, folded sw1_def]
  obtain sw2 draw2 where a: "arrange_links env vnet sw1 draw = Inr (sw2, draw2)" using body by auto
  note body = body [unfolded a rbind_Inr prod.case]
  obtain links where l: "route env sw2 d = Inr links" using body by auto
  note body = body [unfolded l rbind_Inr prod.case]
  obtain enough sw3 where e: "rfold (check_slot env vnet) (True, sw2) links = Inr (enough, sw3)" using body by auto
  note body = body [unfolded e rbind_Inr prod.case]
  have rest: "go = enough \<and> (\<not> enough \<longrightarrow> sw' = sw3 \<and> calls' = calls \<and> scheduleEvent (se_now env) self 1 = Inr self') \<and>
     (enough \<longrightarrow> self' = self \<and> (\<exists>cyc msg b2 c. MessageBuffer_dequeue (se_now env) (read_head b msg_ptr) = Inr (cyc, msg, b2) \<and>
       at_pos (m_pending_message_count sw3) vnet = Inr c \<and>
       forward_all env vnet incoming msg msg_ptr links
         (sw3\<lparr>ps_in := put_buf (ps_in sw3) incoming vnet b2,
              m_pending_message_count := (m_pending_message_count sw3)[vnet := c - 1]\<rparr>, calls, draw2) = Inr (sw', calls', draw')))"
  proof (cases enough)
    case True
    then show ?thesis using body by auto
  next
    case False
    then show ?thesis using body by auto
  qed
  have go: "go = enough" using rest by simp
  show thesis
    by (rule that [OF b m dp msg_ptr_def sw1_def a l e [folded go]]) (use rest go in blast)+
qed

text \<open>What the loop over one input leaves alone: everything but this input, the outputs, the pending count
  of the virtual network and the link order.\<close>

definition port_len :: "'d perfect_switch \<Rightarrow> nat \<Rightarrow> nat \<Rightarrow> nat" where
  "port_len sw p v = size (waiting (ps_in sw) p v)"

definition input_frame :: "nat \<Rightarrow> nat \<Rightarrow> 'd perfect_switch \<Rightarrow> 'd perfect_switch \<Rightarrow> bool" where
  "input_frame vnet incoming sw sw' \<longleftrightarrow> ps_switch_id sw' = ps_switch_id sw \<and>
     m_routing_table sw' = m_routing_table sw \<and> ps_virtual_networks sw' = ps_virtual_networks sw \<and>
     m_round_robin_start sw' = m_round_robin_start sw \<and> ps_wakeups_wo_switch sw' = ps_wakeups_wo_switch sw \<and>
     map length (ps_in sw') = map length (ps_in sw) \<and> map length (ps_out sw') = map length (ps_out sw) \<and>
     (\<forall>p v. p \<noteq> incoming \<or> v \<noteq> vnet \<longrightarrow> port_buf (ps_in sw') p v = port_buf (ps_in sw) p v) \<and>
     length (m_pending_message_count sw') = length (m_pending_message_count sw) \<and>
     (\<forall>v. v \<noteq> vnet \<longrightarrow> m_pending_message_count sw' ! v = m_pending_message_count sw ! v) \<and>
     (order_wf sw \<longrightarrow> order_wf sw')"

lemma peek_head:
  assumes "peekMsgPtr now b = Inr m"
  shows "m_prio_heap b \<noteq> []" "m_msgptr (hd (m_prio_heap b)) = m"
  using assms by (auto simp: peekMsgPtr_def front_def split: list.splits)

lemma read_head_simps:
  assumes "m_prio_heap b \<noteq> []"
  shows "hd (m_prio_heap (read_head b m)) = (hd (m_prio_heap b))\<lparr>m_msgptr := m\<rparr>"
    "contents_of (read_head b m) = add_mset (payload m) (contents_of b - {#payload (m_msgptr (hd (m_prio_heap b)))#})"
    "size (contents_of (read_head b m)) = size (contents_of b)"
  using assms by (cases "m_prio_heap b"; simp add: read_head_def contents_of_def)+

lemma order_wf_frame: "out_frame a b \<Longrightarrow> m_link_order b = m_link_order a \<Longrightarrow> order_wf a \<Longrightarrow> order_wf b"
  using out_frame_length [of a b] by (simp add: order_wf_def out_frame_def)

lemma quiet_frame: "quiet a b \<Longrightarrow> out_frame a b"
  by (simp add: quiet_def)

lemma port_len_put: "port_buf (ps_in sw) p v = Inr b0 \<Longrightarrow>
    port_len (sw\<lparr>ps_in := put_buf (ps_in sw) p v b\<rparr>) p v = size (contents_of b)"
  by (simp add: port_len_def waiting_put)

lemma switch_message_frame:
  assumes "switch_message env vnet incoming (sw, self, calls, draw) = Inr (go, sw', self', calls', draw')"
  shows "input_frame vnet incoming sw sw' \<and>
    (if go then port_len sw incoming vnet = Suc (port_len sw' incoming vnet) \<and> vnet < length (m_pending_message_count sw) \<and>
        m_pending_message_count sw' ! vnet = m_pending_message_count sw ! vnet - 1
     else port_len sw' incoming vnet = port_len sw incoming vnet \<and>
        m_pending_message_count sw' ! vnet = m_pending_message_count sw ! vnet)"
  using assms
proof (rule switch_messageE)
  fix b msg0 d p msg_ptr sw1 sw2 draw2 links sw3
  assume b: "port_buf (ps_in sw) incoming vnet = Inr b" and peek: "peekMsgPtr (se_now env) b = Inr msg0"
    and sw1: "sw1 = sw\<lparr>ps_in := put_buf (ps_in sw) incoming vnet (read_head b msg_ptr)\<rparr>"
    and a: "arrange_links env vnet sw1 draw = Inr (sw2, draw2)"
    and chk: "rfold (check_slot env vnet) (True, sw2) links = Inr (go, sw3)"
    and stop: "\<not> go \<Longrightarrow> sw' = sw3 \<and> calls' = calls \<and> scheduleEvent (se_now env) self 1 = Inr self'"
    and cont: "go \<Longrightarrow> self' = self \<and> (\<exists>cyc msg b2 c. MessageBuffer_dequeue (se_now env) (read_head b msg_ptr) = Inr (cyc, msg, b2) \<and>
       at_pos (m_pending_message_count sw3) vnet = Inr c \<and>
       forward_all env vnet incoming msg msg_ptr links
         (sw3\<lparr>ps_in := put_buf (ps_in sw3) incoming vnet b2,
              m_pending_message_count := (m_pending_message_count sw3)[vnet := c - 1]\<rparr>, calls, draw2) = Inr (sw', calls', draw'))"
  let ?b1 = "read_head b msg_ptr"
  have q2: "quiet sw1 sw2" "order_wf sw1 \<Longrightarrow> order_wf sw2" using arrange_links_quiet [OF a] by auto
  have q3: "quiet sw2 sw3" "m_link_order sw3 = m_link_order sw2" using check_slot_quiet [OF chk] by auto
  have f3: "out_frame sw1 sw3" using q2(1) q3(1) quiet_frame out_frame_trans by blast
  have in3: "ps_in sw3 = put_buf (ps_in sw) incoming vnet ?b1" using f3 by (simp add: out_frame_def sw1)
  have pos: "incoming < length (ps_in sw)" "vnet < length (ps_in sw ! incoming)" using b by (auto simp: port_buf_Inr)
  have b3: "port_buf (ps_in sw3) incoming vnet = Inr ?b1" using port_buf_put [OF pos] by (simp add: in3)
  have len: "size (contents_of ?b1) = port_len sw incoming vnet"
    using read_head_simps(3) [OF peek_head(1) [OF peek]] b by (simp add: port_len_def waiting_def)
  have "order_wf sw1 = order_wf sw" by (simp add: sw1 order_wf_def)
  then have ord: "order_wf sw \<Longrightarrow> order_wf sw3" using q2(2) order_wf_frame [OF quiet_frame [OF q3(1)] q3(2)] by simp
  have fr: "input_frame vnet incoming sw sw3"
    using f3 ord port_buf_put [OF pos] by (simp add: input_frame_def out_frame_def sw1)
  show ?thesis
  proof (cases go)
    case False
    have "port_len sw3 incoming vnet = port_len sw incoming vnet" using b3 len by (simp add: port_len_def waiting_def)
    moreover have "m_pending_message_count sw3 = m_pending_message_count sw" using f3 by (simp add: out_frame_def sw1)
    ultimately show ?thesis using False stop fr by simp
  next
    case True
    then obtain cyc msg b2 c where dq: "MessageBuffer_dequeue (se_now env) ?b1 = Inr (cyc, msg, b2)"
      and at: "at_pos (m_pending_message_count sw3) vnet = Inr c"
      and fw: "forward_all env vnet incoming msg msg_ptr links
         (sw3\<lparr>ps_in := put_buf (ps_in sw3) incoming vnet b2,
              m_pending_message_count := (m_pending_message_count sw3)[vnet := c - 1]\<rparr>, calls, draw2) = Inr (sw', calls', draw')"
      using cont by blast
    let ?sw4 = "sw3\<lparr>ps_in := put_buf (ps_in sw3) incoming vnet b2,
              m_pending_message_count := (m_pending_message_count sw3)[vnet := c - 1]\<rparr>"
    have f4: "out_frame ?sw4 sw'" "m_link_order sw' = m_link_order sw3" using forward_all_frame [OF fw] by auto
    have pend: "m_pending_message_count sw3 = m_pending_message_count sw" "vnet < length (m_pending_message_count sw)"
      "c = m_pending_message_count sw ! vnet"
      using f3 at by (auto simp: out_frame_def sw1 at_pos_def)
    have "order_wf sw3 \<Longrightarrow> order_wf ?sw4" by (simp add: order_wf_def)
    then have ord': "order_wf sw \<Longrightarrow> order_wf sw'" using ord order_wf_frame [OF f4(1)] f4(2) by simp
    have pos3: "incoming < length (ps_in sw3)" "vnet < length (ps_in sw3 ! incoming)" using b3 by (auto simp: port_buf_Inr)
    have inp: "ps_in sw' = put_buf (ps_in sw3) incoming vnet b2" using f4(1) by (simp add: out_frame_def)
    have "size (contents_of ?b1) = Suc (size (contents_of b2))"
      using dequeue_moves(2) [OF dq] by (simp add: contents_of_def)
    then have "port_len sw incoming vnet = Suc (port_len sw' incoming vnet)"
      using len port_buf_put [OF pos3] by (simp add: port_len_def waiting_def inp)
    moreover have "input_frame vnet incoming sw sw'"
      using f4(1) fr ord' port_buf_put [OF pos3] by (simp add: input_frame_def out_frame_def)
    moreover have "m_pending_message_count sw' = (m_pending_message_count sw)[vnet := c - 1]"
      using f4(1) pend(1) by (simp add: out_frame_def)
    ultimately show ?thesis using True pend by simp
  qed
qed

section \<open>The loops\<close>

lemma rbind_cong [fundef_cong]: "m = m' \<Longrightarrow> (\<And>x. m' = Inr x \<Longrightarrow> f x = f' x) \<Longrightarrow> rbind m f = rbind m' f'"
  by (cases m') simp_all

text \<open>The loop over the ready messages of one input ends, because each round but the last takes a message
  out of the input buffer.\<close>

function switch_port :: "switch_env \<Rightarrow> nat \<Rightarrow> nat \<Rightarrow> 'd operate_state \<Rightarrow> 'd operate_state result" where
  "switch_port env vnet incoming st =
     rbind (port_buf (ps_in (fst st)) incoming vnet) (\<lambda>buffer.
     rbind (MessageBuffer_isReady (se_now env) buffer) (\<lambda>ready.
     if \<not> ready then Inr st
     else rbind (switch_message env vnet incoming st) (\<lambda>r.
          if fst r then switch_port env vnet incoming (snd r) else Inr (snd r))))"
  by pat_completeness auto
termination
proof (relation "measure (\<lambda>(env, vnet, incoming, st). port_len (fst st) incoming vnet)")
  fix env :: switch_env and vnet incoming :: nat and st :: "'d operate_state" and buffer ready and r :: "bool \<times> 'd operate_state"
  assume "switch_message env vnet incoming st = Inr r" and "fst r"
  moreover obtain sw self calls draw where "st = (sw, self, calls, draw)" by (cases st)
  moreover obtain sw' self' calls' draw' where "r = (True, sw', self', calls', draw')" using \<open>fst r\<close> by (cases r) auto
  ultimately have "port_len sw incoming vnet = Suc (port_len sw' incoming vnet)" "st = (sw, self, calls, draw)"
    "r = (True, sw', self', calls', draw')"
    using switch_message_frame [of env vnet incoming sw self calls draw True sw' self' calls' draw'] by auto
  then show "((env, vnet, incoming, snd r), (env, vnet, incoming, st)) \<in> measure (\<lambda>(env, vnet, incoming, st). port_len (fst st) incoming vnet)"
    by simp
qed simp

declare switch_port.simps [simp del]

definition serve_port :: "switch_env \<Rightarrow> nat \<Rightarrow> 'd operate_state \<Rightarrow> nat \<Rightarrow> 'd operate_state result" where
  "serve_port env vnet st incoming =
     rbind (at_pos (ps_in (fst st)) incoming) (\<lambda>bs.
     if length bs \<le> vnet then Inr st
     else (case bs ! vnet of None \<Rightarrow> Inr st | Some buffer \<Rightarrow> switch_port env vnet incoming st))"

text \<open>The ports in the order the round-robin loop visits them, starting after \<open>incoming\<close>.\<close>

fun visit_ports :: "nat \<Rightarrow> nat \<Rightarrow> nat \<Rightarrow> nat list" where
  "visit_ports size_in 0 incoming = []"
| "visit_ports size_in (Suc left) incoming =
     (let next = (if size_in \<le> incoming + 1 then 0 else incoming + 1) in next # visit_ports size_in left next)"

definition PerfectSwitch_operateVnet :: "switch_env \<Rightarrow> 'd operate_state \<Rightarrow> nat \<Rightarrow> 'd operate_state result" where
  "PerfectSwitch_operateVnet env = (\<lambda>(sw, self, calls, draw) vnet.
     let size_in = length (ps_in sw);
         start = m_round_robin_start sw;
         sw1 = sw\<lparr>m_round_robin_start := (if size_in \<le> start + 1 then 0 else start + 1)\<rparr>
     in rbind (at_pos (m_pending_message_count sw1) vnet) (\<lambda>pending.
        if 0 < pending then rfold (serve_port env vnet) (sw1, self, calls, draw) (visit_ports size_in size_in start)
        else Inr (sw1, self, calls, draw)))"

text \<open>The virtual networks from the highest to the lowest, and the other way round once the priority
  counter passes its limit.\<close>

definition vnet_priority :: "nat \<Rightarrow> int \<Rightarrow> nat list \<times> int" where
  "vnet_priority vnets wakeups =
     (if PRIORITY_SWITCH_LIMIT < wakeups then ([0..<vnets], 0) else (rev [0..<vnets], wakeups))"

definition PerfectSwitch_wakeup :: "switch_env \<Rightarrow> 'd operate_state \<Rightarrow> 'd operate_state result" where
  "PerfectSwitch_wakeup env = (\<lambda>(sw, self, calls, draw).
     let (order, wakeups) = vnet_priority (ps_virtual_networks sw) (ps_wakeups_wo_switch sw + 1)
     in rfold (PerfectSwitch_operateVnet env) (sw\<lparr>ps_wakeups_wo_switch := wakeups\<rparr>, self, calls, draw) order)"

section \<open>The round-robin order\<close>

lemma visit_ports_eq: "start < n \<Longrightarrow> visit_ports n k start = map (\<lambda>i. (start + 1 + i) mod n) [0..<k]"
proof (induction k arbitrary: start)
  case 0
  then show ?case by simp
next
  case (Suc k)
  let ?next = "if n \<le> start + 1 then 0 else start + 1"
  have nx: "?next = (start + 1) mod n" "?next < n" using Suc.prems by (cases "n = start + 1"; simp)+
  have "visit_ports n k ?next = map (\<lambda>i. (?next + 1 + i) mod n) [0..<k]" by (rule Suc.IH [OF nx(2)])
  also have "\<dots> = map (\<lambda>i. (start + 1 + Suc i) mod n) [0..<k]" unfolding nx(1)
  proof (intro map_cong refl)
    fix i
    have "((start + 1) mod n + (1 + i)) mod n = (start + 1 + (1 + i)) mod n" by (rule mod_add_left_eq)
    then show "((start + 1) mod n + 1 + i) mod n = (start + 1 + Suc i) mod n" by (simp only: add.assoc plus_1_eq_Suc)
  qed
  finally have "visit_ports n (Suc k) start = (start + 1) mod n # map (\<lambda>i. (start + 1 + Suc i) mod n) [0..<k]"
    using nx(1) by (simp add: Let_def)
  also have "\<dots> = map (\<lambda>i. (start + 1 + i) mod n) [0..<Suc k]" by (simp add: upt_conv_Cons map_Suc_upt [symmetric] del: upt_Suc)
  finally show ?case .
qed

lemma rotation_le: "(s + i) mod n = (s + j) mod n \<Longrightarrow> i \<le> j \<Longrightarrow> j < n \<Longrightarrow> i = (j :: nat)"
proof -
  assume a: "(s + i) mod n = (s + j) mod n" "i \<le> j" "j < n"
  have "n dvd (s + j) - (s + i)" using a(1,2) by (subst mod_eq_dvd_iff_nat [symmetric]) simp_all
  then have "n dvd j - i" by simp
  then show "i = j" using a(2,3) by (cases "j - i = 0") (auto dest: dvd_imp_le)
qed

lemma rotation_inj: "inj_on (\<lambda>i. (s + i) mod n) {..<n :: nat}"
proof (rule inj_onI)
  fix i j assume a: "i \<in> {..<n}" "j \<in> {..<n}" "(s + i) mod n = (s + j) mod n"
  show "i = j"
  proof (cases "i \<le> j")
    case True
    then show ?thesis using rotation_le [OF a(3)] a(2) by simp
  next
    case False
    then show ?thesis using rotation_le [OF a(3) [symmetric]] a(1) by simp
  qed
qed

lemma visit_ports_all:
  assumes "start < n"
  shows "distinct (visit_ports n n start)" "set (visit_ports n n start) = {..<n}"
proof -
  have inj: "inj_on (\<lambda>i. (start + 1 + i) mod n) {..<n}" by (rule rotation_inj)
  then show "distinct (visit_ports n n start)"
    using assms by (simp add: visit_ports_eq distinct_map atLeast0LessThan)
  have "(\<lambda>i. (start + 1 + i) mod n) ` {..<n} \<subseteq> {..<n}" using assms by auto
  then have "(\<lambda>i. (start + 1 + i) mod n) ` {..<n} = {..<n}" using inj by (rule endo_inj_surj [rotated]) simp
  then show "set (visit_ports n n start) = {..<n}" using assms by (simp add: visit_ports_eq atLeast0LessThan)
qed

section \<open>Pending counts\<close>

definition total_waiting :: "'d perfect_switch \<Rightarrow> nat \<Rightarrow> nat" where
  "total_waiting sw v = (\<Sum>p < length (ps_in sw). port_len sw p v)"

text \<open>The pending count of a virtual network is the number of messages in its input buffers, each of
  which knows its virtual network.\<close>

definition pending_inv :: "'d perfect_switch \<Rightarrow> bool" where
  "pending_inv sw \<longleftrightarrow> (\<forall>v. int (total_waiting sw v) =
       (if v < length (m_pending_message_count sw) then m_pending_message_count sw ! v else 0)) \<and>
     (\<forall>p v b. port_buf (ps_in sw) p v = Inr b \<longrightarrow> m_vnet_id b = int v) \<and>
     (m_round_robin_start sw = 0 \<or> m_round_robin_start sw < length (ps_in sw))"

lemma port_len_other: "port_buf (ps_in sw') p v = port_buf (ps_in sw) p v \<Longrightarrow> port_len sw' p v = port_len sw p v"
  by (simp add: port_len_def waiting_def)

lemma input_frame_length:
  assumes "input_frame vnet incoming sw sw'"
  shows "length (ps_in sw') = length (ps_in sw)"
proof -
  have "map length (ps_in sw') = map length (ps_in sw)" using assms by (simp add: input_frame_def)
  then show ?thesis by (rule map_eq_imp_length_eq)
qed

lemma total_waiting_frame:
  assumes "input_frame vnet incoming sw sw'" and "incoming < length (ps_in sw)"
  shows "int (total_waiting sw' v) = int (total_waiting sw v) +
    (if v = vnet then int (port_len sw' incoming vnet) - int (port_len sw incoming vnet) else 0)"
proof -
  have len: "length (ps_in sw') = length (ps_in sw)" by (rule input_frame_length [OF assms(1)])
  have same: "port_len sw' p v = port_len sw p v" if "p \<noteq> incoming \<or> v \<noteq> vnet" for p
    using assms(1) that by (intro port_len_other) (simp add: input_frame_def)
  let ?rest = "{..<length (ps_in sw)} - {incoming}"
  have split: "total_waiting s v = port_len s incoming v + (\<Sum>p \<in> ?rest. port_len s p v)"
    if "length (ps_in s) = length (ps_in sw)" for s :: "'a perfect_switch"
    unfolding total_waiting_def that using assms(2) by (intro sum.remove) auto
  have "(\<Sum>p \<in> ?rest. port_len sw' p v) = (\<Sum>p \<in> ?rest. port_len sw p v)"
    by (rule sum.cong) (auto intro: same)
  then show ?thesis using split [OF len] split [OF refl] same [of incoming] by (cases "v = vnet") simp_all
qed

lemma read_head_vnet [simp]: "m_vnet_id (read_head b m) = m_vnet_id b"
  by (simp add: read_head_def)

text \<open>The virtual network of an input buffer stays.\<close>

lemma switch_message_vnet:
  assumes "switch_message env vnet incoming (sw, self, calls, draw) = Inr (go, sw', self', calls', draw')"
  shows "\<exists>b b'. port_buf (ps_in sw) incoming vnet = Inr b \<and> port_buf (ps_in sw') incoming vnet = Inr b' \<and> m_vnet_id b' = m_vnet_id b"
  using assms
proof (rule switch_messageE)
  fix b msg0 d p msg_ptr sw1 sw2 draw2 links sw3
  assume b: "port_buf (ps_in sw) incoming vnet = Inr b"
    and sw1: "sw1 = sw\<lparr>ps_in := put_buf (ps_in sw) incoming vnet (read_head b msg_ptr)\<rparr>"
    and a: "arrange_links env vnet sw1 draw = Inr (sw2, draw2)"
    and chk: "rfold (check_slot env vnet) (True, sw2) links = Inr (go, sw3)"
    and stop: "\<not> go \<Longrightarrow> sw' = sw3 \<and> calls' = calls \<and> scheduleEvent (se_now env) self 1 = Inr self'"
    and cont: "go \<Longrightarrow> self' = self \<and> (\<exists>cyc msg b2 c. MessageBuffer_dequeue (se_now env) (read_head b msg_ptr) = Inr (cyc, msg, b2) \<and>
       at_pos (m_pending_message_count sw3) vnet = Inr c \<and>
       forward_all env vnet incoming msg msg_ptr links
         (sw3\<lparr>ps_in := put_buf (ps_in sw3) incoming vnet b2,
              m_pending_message_count := (m_pending_message_count sw3)[vnet := c - 1]\<rparr>, calls, draw2) = Inr (sw', calls', draw'))"
  let ?b1 = "read_head b msg_ptr"
  have "out_frame sw1 sw3"
    using arrange_links_quiet [OF a] check_slot_quiet [OF chk] quiet_frame out_frame_trans by blast
  then have in3: "ps_in sw3 = put_buf (ps_in sw) incoming vnet ?b1" by (simp add: out_frame_def sw1)
  have pos: "incoming < length (ps_in sw)" "vnet < length (ps_in sw ! incoming)" using b by (auto simp: port_buf_Inr)
  have b3: "port_buf (ps_in sw3) incoming vnet = Inr ?b1" using port_buf_put [OF pos] by (simp add: in3)
  show ?thesis
  proof (cases go)
    case False
    then show ?thesis using stop b b3 by (intro exI [of _ b] exI [of _ ?b1]) simp
  next
    case True
    then obtain cyc msg b2 c where dq: "MessageBuffer_dequeue (se_now env) ?b1 = Inr (cyc, msg, b2)"
      and fw: "forward_all env vnet incoming msg msg_ptr links
         (sw3\<lparr>ps_in := put_buf (ps_in sw3) incoming vnet b2,
              m_pending_message_count := (m_pending_message_count sw3)[vnet := c - 1]\<rparr>, calls, draw2) = Inr (sw', calls', draw')"
      using cont by blast
    have "ps_in sw' = put_buf (ps_in sw3) incoming vnet b2" using forward_all_frame [OF fw] by (simp add: out_frame_def)
    moreover have "incoming < length (ps_in sw3)" "vnet < length (ps_in sw3 ! incoming)" using b3 by (auto simp: port_buf_Inr)
    ultimately have "port_buf (ps_in sw') incoming vnet = Inr b2" by (simp add: port_buf_put)
    then show ?thesis using b dequeue_moves(4) [OF dq] by (intro exI [of _ b] exI [of _ b2]) simp
  qed
qed

definition switch_inv :: "'d perfect_switch \<Rightarrow> bool" where
  "switch_inv sw \<longleftrightarrow> order_wf sw \<and> pending_inv sw"

lemma switch_message_inv:
  assumes "switch_message env vnet incoming (sw, self, calls, draw) = Inr (go, sw', self', calls', draw')" and "switch_inv sw"
  shows "switch_inv sw'"
proof -
  note fr = switch_message_frame [OF assms(1)]
  have inf: "input_frame vnet incoming sw sw'" using fr by simp
  obtain b b' where b: "port_buf (ps_in sw) incoming vnet = Inr b" "port_buf (ps_in sw') incoming vnet = Inr b'" "m_vnet_id b' = m_vnet_id b"
    using switch_message_vnet [OF assms(1)] by blast
  have inc: "incoming < length (ps_in sw)" using b(1) by (simp add: port_buf_Inr)
  have inv: "\<And>v. int (total_waiting sw v) = (if v < length (m_pending_message_count sw) then m_pending_message_count sw ! v else 0)"
    "\<And>p v b. port_buf (ps_in sw) p v = Inr b \<Longrightarrow> m_vnet_id b = int v" "m_round_robin_start sw = 0 \<or> m_round_robin_start sw < length (ps_in sw)"
    using assms(2) by (simp_all add: switch_inv_def pending_inv_def)
  have same: "length (m_pending_message_count sw') = length (m_pending_message_count sw)"
    "\<And>v. v \<noteq> vnet \<Longrightarrow> m_pending_message_count sw' ! v = m_pending_message_count sw ! v"
    "m_round_robin_start sw' = m_round_robin_start sw" "length (ps_in sw') = length (ps_in sw)"
    "\<And>p v. p \<noteq> incoming \<or> v \<noteq> vnet \<Longrightarrow> port_buf (ps_in sw') p v = port_buf (ps_in sw) p v"
    using inf input_frame_length [OF inf] by (simp_all add: input_frame_def)
  have "int (total_waiting sw' v) = (if v < length (m_pending_message_count sw') then m_pending_message_count sw' ! v else 0)" for v
    using total_waiting_frame [OF inf inc, of v] inv(1) [of v] fr same(1) same(2) [of v]
    by (cases "v = vnet"; cases go) auto
  moreover have "m_vnet_id c = int v" if c: "port_buf (ps_in sw') p v = Inr c" for p v c
  proof (cases "p = incoming \<and> v = vnet")
    case True
    then show ?thesis using c b inv(2) by simp
  next
    case False
    then show ?thesis using c same(5) [of p v] inv(2) by simp
  qed
  moreover have "m_round_robin_start sw' = 0 \<or> m_round_robin_start sw' < length (ps_in sw')" using inv(3) same(3,4) by simp
  moreover have "order_wf sw'" using inf assms(2) by (simp add: input_frame_def switch_inv_def)
  ultimately show ?thesis by (simp add: switch_inv_def pending_inv_def)
qed

text \<open>A property that every moved message keeps is kept by the loops.\<close>

lemma switch_port_keeps:
  assumes "switch_port env vnet incoming st = Inr st'" and "I st"
    and "\<And>st go st'. I st \<Longrightarrow> switch_message env vnet incoming st = Inr (go, st') \<Longrightarrow> I st'"
  shows "I st'"
  using assms
proof (induction env vnet incoming st rule: switch_port.induct)
  case (1 env vnet incoming st)
  from 1(2) obtain buffer ready where b: "port_buf (ps_in (fst st)) incoming vnet = Inr buffer"
    "MessageBuffer_isReady (se_now env) buffer = Inr ready"
    by (subst (asm) switch_port.simps) auto
  show ?case
  proof (cases ready)
    case False
    then have "st' = st" using 1(2) b by (subst (asm) switch_port.simps) simp
    then show ?thesis using 1(3) by simp
  next
    case True
    obtain r where r: "switch_message env vnet incoming st = Inr r"
      "(if fst r then switch_port env vnet incoming (snd r) else Inr (snd r)) = Inr st'"
      using 1(2) b \<open>ready\<close> unfolding switch_port.simps [of env vnet incoming st]
      by (cases "switch_message env vnet incoming st") simp_all
    obtain go st1 where "r = (go, st1)" by (cases r)
    then have m: "switch_message env vnet incoming st = Inr (go, st1)"
      and rest: "(if go then switch_port env vnet incoming st1 else Inr st1) = Inr st'"
      using r by (simp_all split: if_splits)
    have I1: "I st1" by (rule 1(4) [OF 1(3) m])
    show ?thesis
    proof (cases go)
      case False
      then show ?thesis using rest I1 by simp
    next
      case True
      show ?thesis
        by (rule 1(1) [OF b(1,2) _ m]) (use \<open>ready\<close> True rest I1 1(4) in simp_all)
    qed
  qed
qed

lemma serve_port_keeps:
  assumes "serve_port env vnet st incoming = Inr st'" and "I st"
    and "\<And>st go st'. I st \<Longrightarrow> switch_message env vnet incoming st = Inr (go, st') \<Longrightarrow> I st'"
  shows "I st'"
proof -
  consider "st' = st" | "switch_port env vnet incoming st = Inr st'"
    using assms(1) by (auto simp: serve_port_def split: if_splits option.splits)
  then show ?thesis
  proof cases
    case 1
    then show ?thesis using assms(2) by simp
  next
    case 2
    then show ?thesis by (rule switch_port_keeps) (fact assms(2), fact assms(3))
  qed
qed

definition start_vnet :: "'d perfect_switch \<Rightarrow> 'd perfect_switch" where
  "start_vnet sw = sw\<lparr>m_round_robin_start :=
     (if length (ps_in sw) \<le> m_round_robin_start sw + 1 then 0 else m_round_robin_start sw + 1)\<rparr>"

lemma switch_vnet_cases:
  assumes "PerfectSwitch_operateVnet env (sw, self, calls, draw) vnet = Inr st'"
  shows "vnet < length (m_pending_message_count sw) \<and>
    (if 0 < m_pending_message_count sw ! vnet
     then rfold (serve_port env vnet) (start_vnet sw, self, calls, draw)
            (visit_ports (length (ps_in sw)) (length (ps_in sw)) (m_round_robin_start sw)) = Inr st'
     else st' = (start_vnet sw, self, calls, draw))"
  using assms
  by (cases "vnet < length (m_pending_message_count sw)")
    (simp_all add: PerfectSwitch_operateVnet_def Let_def at_pos_def start_vnet_def eq_commute split: if_splits)

lemma switch_vnet_keeps:
  assumes "PerfectSwitch_operateVnet env (sw, self, calls, draw) vnet = Inr st'" and "I (start_vnet sw, self, calls, draw)"
    and "\<And>st incoming go st'. I st \<Longrightarrow> switch_message env vnet incoming st = Inr (go, st') \<Longrightarrow> I st'"
  shows "I st'"
proof (cases "0 < m_pending_message_count sw ! vnet")
  case True
  then have "rfold (serve_port env vnet) (start_vnet sw, self, calls, draw)
      (visit_ports (length (ps_in sw)) (length (ps_in sw)) (m_round_robin_start sw)) = Inr st'"
    using switch_vnet_cases [OF assms(1)] by simp
  then show ?thesis
  proof (rule rfold_keeps)
    show "I (start_vnet sw, self, calls, draw)" by (fact assms(2))
    show "I t'" if "I t" "serve_port env vnet t y = Inr t'" for t y t'
      using serve_port_keeps [OF that(2), of I] that(1) assms(3) by blast
  qed
next
  case False
  then show ?thesis using switch_vnet_cases [OF assms(1)] assms(2) by simp
qed

lemma start_vnet_inv: "switch_inv sw \<Longrightarrow> switch_inv (start_vnet sw)"
  by (simp add: switch_inv_def start_vnet_def order_wf_def pending_inv_def total_waiting_def port_len_def)

lemma operateVnet_inv:
  assumes "PerfectSwitch_operateVnet env (sw, self, calls, draw) vnet = Inr (sw', self', calls', draw')" and "switch_inv sw"
  shows "switch_inv sw'"
proof -
  have "switch_inv (fst (sw', self', calls', draw'))"
  proof (rule switch_vnet_keeps [OF assms(1)])
    show "switch_inv (fst (start_vnet sw, self, calls, draw))" using start_vnet_inv [OF assms(2)] by simp
    show "switch_inv (fst t')" if "switch_inv (fst t)" "switch_message env vnet incoming t = Inr (go, t')" for t incoming go t'
      using switch_message_inv that by (cases t; cases t') auto
  qed
  then show ?thesis by simp
qed

lemma wakeup_inv:
  assumes "PerfectSwitch_wakeup env (sw, self, calls, draw) = Inr (sw', self', calls', draw')" and "switch_inv sw"
  shows "switch_inv sw'"
proof -
  obtain order wakeups where o: "vnet_priority (ps_virtual_networks sw) (ps_wakeups_wo_switch sw + 1) = (order, wakeups)"
    by (cases "vnet_priority (ps_virtual_networks sw) (ps_wakeups_wo_switch sw + 1)")
  have "switch_inv (fst (sw', self', calls', draw'))"
  proof (rule rfold_keeps [where I = "\<lambda>t. switch_inv (fst t)"])
    show "rfold (PerfectSwitch_operateVnet env) (sw\<lparr>ps_wakeups_wo_switch := wakeups\<rparr>, self, calls, draw) order = Inr (sw', self', calls', draw')"
      using assms(1) by (simp add: PerfectSwitch_wakeup_def o)
    show "switch_inv (fst (sw\<lparr>ps_wakeups_wo_switch := wakeups\<rparr>, self, calls, draw))"
      using assms(2) by (simp add: switch_inv_def order_wf_def pending_inv_def total_waiting_def port_len_def)
    show "switch_inv (fst t')" if "switch_inv (fst t)" "PerfectSwitch_operateVnet env t v = Inr t'" for t v t'
      using operateVnet_inv that by (cases t; cases t') auto
  qed
  then show ?thesis by simp
qed

text \<open>What can happen to a switch: it is built and initialised, ports are added, a message is put into one
  of its input buffers, which tells the switch, the switch wakes up, and the throttles take messages out
  of its output buffers.\<close>

inductive switch_reach :: "'d perfect_switch \<Rightarrow> bool" where
  new: "switch_reach (PerfectSwitch_new sid virt_nets)"
| init: "switch_reach sw \<Longrightarrow> switch_reach (PerfectSwitch_init sw)"
| in_port: "switch_reach sw \<Longrightarrow> (\<And>b. Some b \<in> set bs \<Longrightarrow> m_prio_heap b = []) \<Longrightarrow>
    PerfectSwitch_addInPort desc sw bs = Inr sw' \<Longrightarrow> switch_reach sw'"
| out_port: "switch_reach sw \<Longrightarrow> switch_reach (PerfectSwitch_addOutPort sw bs entry)"
| arrive: "switch_reach sw \<Longrightarrow> port_buf (ps_in sw) p v = Inr b \<Longrightarrow>
    MessageBuffer_enqueue now rs rnd b (Some m) delta False = Inr (b', [ScheduleEventAbsolute t, StoreEventInfo k]) \<Longrightarrow>
    PerfectSwitch_storeEventInfo (sw\<lparr>ps_in := put_buf (ps_in sw) p v b'\<rparr>) (nat k) = Inr sw' \<Longrightarrow> switch_reach sw'"
| wakeup: "switch_reach sw \<Longrightarrow> PerfectSwitch_wakeup env (sw, self, calls, draw) = Inr (sw', self', calls', draw') \<Longrightarrow> switch_reach sw'"
| drain: "switch_reach sw \<Longrightarrow> map length outs = map length (ps_out sw) \<Longrightarrow> switch_reach (sw\<lparr>ps_out := outs\<rparr>)"

lemma init_inv:
  assumes "switch_inv sw"
  shows "switch_inv (PerfectSwitch_init sw)"
proof -
  have t: "total_waiting (PerfectSwitch_init sw) v = total_waiting sw v" for v
    by (simp add: PerfectSwitch_init_def total_waiting_def port_len_def)
  have "int (total_waiting sw v) = (if v < length (m_pending_message_count sw) then m_pending_message_count sw ! v else 0)" for v
    using assms by (simp add: switch_inv_def pending_inv_def)
  then have "int (total_waiting sw v) = (if v < length (m_pending_message_count (PerfectSwitch_init sw))
       then m_pending_message_count (PerfectSwitch_init sw) ! v else 0)" for v
    by (simp add: PerfectSwitch_init_def nth_append)
  then show ?thesis using assms t by (simp add: switch_inv_def order_wf_def pending_inv_def) (simp add: PerfectSwitch_init_def)
qed

lemma connect_input_Some:
  assumes "connect_input desc port b i = Inr (Some q)"
  shows "\<exists>q0. b = Some q0 \<and> m_prio_heap q = m_prio_heap q0 \<and> m_vnet_id q = int i"
  using assms
  by (auto simp: connect_input_def MessageBuffer_setConsumer_def MessageBuffer_setDescription_def setVnet_def
      setIncomingLink_def ensure_def split: option.splits if_splits)

lemma addInPort_inv:
  assumes "PerfectSwitch_addInPort desc sw bs = Inr sw'" and "switch_inv sw" and "\<And>b. Some b \<in> set bs \<Longrightarrow> m_prio_heap b = []"
  shows "switch_inv sw'"
proof -
  obtain bs' where bs': "rmap2 (connect_input desc (length (ps_in sw))) bs [0..<length bs] = Inr bs'"
    "sw' = sw\<lparr>ps_in := ps_in sw @ [bs']\<rparr>"
    using assms(1) by (auto simp: PerfectSwitch_addInPort_def)
  have added: "m_vnet_id q = int v \<and> m_prio_heap q = []" if q: "v < length bs'" "bs' ! v = Some q" for v q
  proof -
    have c: "v < length bs" "connect_input desc (length (ps_in sw)) (bs ! v) v = Inr (Some q)"
      using rmap2_nth [OF bs'(1) q(1)] q(2) by auto
    obtain q0 where "bs ! v = Some q0" "m_prio_heap q = m_prio_heap q0" "m_vnet_id q = int v" using connect_input_Some [OF c(2)] by blast
    moreover have "Some q0 \<in> set bs" using c(1) \<open>bs ! v = Some q0\<close> nth_mem by fastforce
    ultimately show ?thesis using assms(3) by simp
  qed
  have pb: "port_buf (ps_in sw') p v = (if p = length (ps_in sw) then rbind (at_pos bs' v) deref else port_buf (ps_in sw) p v)" for p v
    by (simp add: bs'(2) port_buf_def at_pos_def nth_append)
  have old: "port_len sw' p v = port_len sw p v" if "p < length (ps_in sw)" for p v
    using that by (intro port_len_other) (simp add: pb)
  have fresh: "port_len sw' (length (ps_in sw)) v = 0" for v
    using added by (auto simp: port_len_def waiting_def pb contents_of_def at_pos_def deref_def split: sum.splits option.splits if_splits)
  have t: "total_waiting sw' v = total_waiting sw v" for v
    using old fresh by (simp add: total_waiting_def bs'(2))
  have "m_vnet_id c = int v" if c: "port_buf (ps_in sw') p v = Inr c" for p v c
  proof (cases "p = length (ps_in sw)")
    case True
    then have "v < length bs'" "bs' ! v = Some c" using c by (simp_all add: pb at_pos_def deref_def split: if_splits option.splits)
    then show ?thesis using added by simp
  next
    case False
    then show ?thesis using c assms(2) by (simp add: pb switch_inv_def pending_inv_def)
  qed
  moreover have "m_round_robin_start sw' < length (ps_in sw')"
    using assms(2) by (auto simp: bs'(2) switch_inv_def pending_inv_def)
  ultimately show ?thesis using assms(2) t by (simp add: switch_inv_def order_wf_def pending_inv_def) (simp add: bs'(2))
qed

lemma addOutPort_inv:
  assumes "switch_inv sw"
  shows "switch_inv (PerfectSwitch_addOutPort sw bs entry)"
  using assms
  by (simp add: switch_inv_def order_wf_def pending_inv_def total_waiting_def port_len_def PerfectSwitch_addOutPort_def)

lemma drain_inv:
  assumes "switch_inv sw" and "map length outs = map length (ps_out sw)"
  shows "switch_inv (sw\<lparr>ps_out := outs\<rparr>)"
  using assms map_eq_imp_length_eq [OF assms(2)]
  by (simp add: switch_inv_def order_wf_def pending_inv_def total_waiting_def port_len_def)

lemma arrive_inv:
  assumes "switch_inv sw" and b: "port_buf (ps_in sw) p v = Inr b"
    and e: "MessageBuffer_enqueue now rs rnd b (Some m) delta False = Inr (b', [ScheduleEventAbsolute t, StoreEventInfo k])"
    and s: "PerfectSwitch_storeEventInfo (sw\<lparr>ps_in := put_buf (ps_in sw) p v b'\<rparr>) (nat k) = Inr sw'"
  shows "switch_inv sw'"
proof -
  have inv: "\<And>v. int (total_waiting sw v) = (if v < length (m_pending_message_count sw) then m_pending_message_count sw ! v else 0)"
    "\<And>p v b. port_buf (ps_in sw) p v = Inr b \<Longrightarrow> m_vnet_id b = int v"
    using assms(1) by (simp_all add: switch_inv_def pending_inv_def)
  obtain n where n: "mset (m_prio_heap b') = add_mset n (mset (m_prio_heap b))" "k = m_vnet_id b" "m_vnet_id b' = m_vnet_id b"
    using enqueue_moves [OF e] by auto
  have k: "nat k = v" "m_vnet_id b' = int v" using inv(2) [OF b] n by simp_all
  let ?sw = "sw\<lparr>ps_in := put_buf (ps_in sw) p v b'\<rparr>"
  have sw': "v < length (m_pending_message_count sw)"
    "sw' = ?sw\<lparr>m_pending_message_count := (m_pending_message_count sw)[v := m_pending_message_count sw ! v + 1]\<rparr>"
    using s k(1) by (auto simp: PerfectSwitch_storeEventInfo_def at_pos_def split: if_splits)
  have pos: "p < length (ps_in sw)" "v < length (ps_in sw ! p)" using b by (simp_all add: port_buf_Inr)
  have pb: "port_buf (ps_in sw') q u = (if q = p \<and> u = v then Inr b' else port_buf (ps_in sw) q u)" for q u
    using port_buf_put [OF pos] by (simp add: sw'(2))
  have fr: "input_frame v p sw sw'" using pb assms(1) by (simp add: input_frame_def sw'(2) switch_inv_def order_wf_def)
  have "port_len sw' p v = Suc (port_len sw p v)"
    using pb b n(1) by (simp add: port_len_def waiting_def contents_of_def flip: size_mset)
  then have "int (total_waiting sw' u) = (if u < length (m_pending_message_count sw') then m_pending_message_count sw' ! u else 0)" for u
    using total_waiting_frame [OF fr pos(1), of u] inv(1) [of u] sw' by (cases "u = v") auto
  moreover have "m_vnet_id c = int u" if "port_buf (ps_in sw') q u = Inr c" for q u c
    using that inv(2) [of q u c] k(2) by (simp add: pb split: if_splits)
  ultimately show ?thesis using assms(1) fr by (simp add: switch_inv_def pending_inv_def) (simp add: input_frame_def sw'(2))
qed

lemma switch_reach_inv: "switch_reach sw \<Longrightarrow> switch_inv sw"
proof (induction rule: switch_reach.induct)
  case (new sid virt_nets)
  show ?case by (simp add: PerfectSwitch_new_def switch_inv_def order_wf_def pending_inv_def total_waiting_def port_buf_def at_pos_def)
next
  case (init sw)
  show ?case by (rule init_inv [OF init.IH])
next
  case (in_port sw bs desc sw')
  show ?case by (rule addInPort_inv [OF in_port(3) in_port.IH in_port(2)])
next
  case (out_port sw bs entry)
  show ?case by (rule addOutPort_inv [OF out_port.IH])
next
  case (arrive sw p v b now rs rnd m delta b' t k sw')
  show ?case by (rule arrive_inv [OF arrive.IH arrive(2-4)])
next
  case (wakeup sw env self calls draw sw' self' calls' draw')
  show ?case by (rule wakeup_inv [OF wakeup(2) wakeup.IH])
next
  case (drain sw outs)
  show ?case by (rule drain_inv [OF drain.IH drain(2)])
qed

section \<open>No ready message is forgotten\<close>

text \<open>The next cycle of the switch, and the event queue as the wakeups need it: the next cycle is not in
  the past.\<close>

definition next_cycle :: "switch_env \<Rightarrow> consumer \<Rightarrow> tick" where
  "next_cycle env self = clockEdge (se_now env) (consumer_em self) 1"

definition wake_ok :: "switch_env \<Rightarrow> consumer \<Rightarrow> bool" where
  "wake_ok env self \<longleftrightarrow> consumer_inv (se_now env) self \<and>
     clockEdge (se_now env) (consumer_em self) 0 \<le> next_cycle env self \<and> se_now env \<le> next_cycle env self"

text \<open>Events are only added.\<close>

definition wake_grows :: "switch_env \<Rightarrow> consumer \<Rightarrow> consumer \<Rightarrow> bool" where
  "wake_grows env self self' \<longleftrightarrow> wake_ok env self' \<and> consumer_em self' = consumer_em self \<and>
     set (consumer_events self) \<subseteq> set (consumer_events self')"

lemma wake_grows_refl: "wake_ok env self \<Longrightarrow> wake_grows env self self"
  by (simp add: wake_grows_def)

lemma wake_grows_trans: "wake_grows env a b \<Longrightarrow> wake_grows env b c \<Longrightarrow> wake_grows env a c"
  by (auto simp: wake_grows_def)

lemma next_cycle_grows: "wake_grows env a b \<Longrightarrow> next_cycle env b = next_cycle env a"
  by (simp add: wake_grows_def next_cycle_def)

lemma switch_message_wakes:
  assumes "switch_message env vnet incoming (sw, self, calls, draw) = Inr (go, sw', self', calls', draw')" and "wake_ok env self"
  shows "wake_grows env self self' \<and> (\<not> go \<longrightarrow> next_cycle env self \<in> set (consumer_events self'))"
proof (cases go)
  case True
  then have "self' = self" using switch_messageE [OF assms(1)] by metis
  then show ?thesis using True wake_grows_refl [OF assms(2)] by simp
next
  case False
  then have s: "scheduleEventAbsolute (se_now env) self (next_cycle env self) = Inr self'"
    using switch_messageE [OF assms(1)] unfolding scheduleEvent_def next_cycle_def by metis
  from assms(2) have "consumer_inv (se_now env) self" "clockEdge (se_now env) (consumer_em self) 0 \<le> next_cycle env self"
    "se_now env \<le> next_cycle env self" by (simp_all add: wake_ok_def)
  from scheduleEventAbsolute_spec [OF this] s
  have "consumer_inv (se_now env) self'" "consumer_em self' = consumer_em self"
    "consumer_events self' = consumer_events self @ (if next_cycle env self \<in> set (consumer_events self) then [] else [next_cycle env self])"
    by auto
  then show ?thesis using assms(2) by (auto simp: wake_grows_def wake_ok_def next_cycle_def)
qed

lemma switch_message_grows:
  assumes "switch_message env vnet incoming st = Inr (go, st')" and "wake_ok env (fst (snd st))"
  shows "wake_grows env (fst (snd st)) (fst (snd st')) \<and> (\<not> go \<longrightarrow> next_cycle env (fst (snd st)) \<in> set (consumer_events (fst (snd st'))))"
proof -
  obtain sw self calls draw sw' self' calls' draw' where "st = (sw, self, calls, draw)" "st' = (sw', self', calls', draw')"
    by (cases st; cases st')
  then show ?thesis using switch_message_wakes [of env vnet incoming sw self calls draw go sw' self' calls' draw'] assms by simp
qed

lemma wake_grows_step:
  assumes "wake_grows env s0 (fst (snd st))" and "switch_message env vnet incoming st = Inr (go, st')"
  shows "wake_grows env s0 (fst (snd st'))"
  using assms switch_message_grows [OF assms(2)] wake_grows_trans by (auto simp: wake_grows_def)

text \<open>A buffer is settled when it has no ready message or the switch wakes up in the next cycle.\<close>

definition settled :: "switch_env \<Rightarrow> nat \<Rightarrow> nat \<Rightarrow> 'd operate_state \<Rightarrow> bool" where
  "settled env v p st \<longleftrightarrow> (\<forall>b. port_buf (ps_in (fst st)) p v = Inr b \<longrightarrow> MessageBuffer_isReady (se_now env) b = Inr True \<longrightarrow>
     next_cycle env (fst (snd st)) \<in> set (consumer_events (fst (snd st))))"

lemma settled_grows:
  assumes "settled env v p st" and "wake_grows env (fst (snd st)) (fst (snd st'))"
    and "port_buf (ps_in (fst st')) p v = port_buf (ps_in (fst st)) p v"
  shows "settled env v p st'"
  using assms next_cycle_grows [OF assms(2)] by (auto simp: settled_def wake_grows_def)

lemma switch_port_settles:
  assumes "switch_port env vnet incoming st = Inr st'" and "wake_ok env (fst (snd st))"
  shows "settled env vnet incoming st'"
  using assms
proof (induction env vnet incoming st rule: switch_port.induct)
  case (1 env vnet incoming st)
  from 1(2) obtain buffer ready where b: "port_buf (ps_in (fst st)) incoming vnet = Inr buffer"
    "MessageBuffer_isReady (se_now env) buffer = Inr ready"
    by (subst (asm) switch_port.simps) auto
  show ?case
  proof (cases ready)
    case False
    then have "st' = st" using 1(2) b by (subst (asm) switch_port.simps) simp
    then show ?thesis using b False by (simp add: settled_def)
  next
    case True
    obtain r where r: "switch_message env vnet incoming st = Inr r"
      "(if fst r then switch_port env vnet incoming (snd r) else Inr (snd r)) = Inr st'"
      using 1(2) b \<open>ready\<close> unfolding switch_port.simps [of env vnet incoming st]
      by (cases "switch_message env vnet incoming st") simp_all
    have g: "wake_grows env (fst (snd st)) (fst (snd (snd r)))"
      "\<not> fst r \<Longrightarrow> next_cycle env (fst (snd st)) \<in> set (consumer_events (fst (snd (snd r))))"
      using switch_message_grows [of env vnet incoming st "fst r" "snd r", unfolded prod.collapse, OF r(1) 1(3)] by simp_all
    show ?thesis
    proof (cases "fst r")
      case True
      then show ?thesis using 1(1) [OF b(1,2) _ r(1)] \<open>ready\<close> r(2) g(1) by (simp add: wake_grows_def)
    next
      case False
      then have "st' = snd r" using r(2) by simp
      then show ?thesis using g(2) [OF False] next_cycle_grows [OF g(1)] by (simp add: settled_def)
    qed
  qed
qed

lemma serve_port_settles:
  assumes "serve_port env vnet st incoming = Inr st'" and "wake_ok env (fst (snd st))"
  shows "settled env vnet incoming st'"
proof (cases "port_buf (ps_in (fst st)) incoming vnet")
  case (Inl e)
  then have "st' = st" using assms(1)
    by (cases "at_pos (ps_in (fst st)) incoming")
      (auto simp: serve_port_def port_buf_def at_pos_def deref_def split: if_splits option.splits)
  then show ?thesis using Inl by (simp add: settled_def)
next
  case (Inr b)
  then have "switch_port env vnet incoming st = Inr st'"
    using assms(1) by (simp add: serve_port_def port_buf_Inr at_pos_def)
  then show ?thesis by (rule switch_port_settles [OF _ assms(2)])
qed

lemma serve_port_grows:
  assumes "serve_port env vnet st incoming = Inr st'" and "wake_grows env s0 (fst (snd st))"
  shows "wake_grows env s0 (fst (snd st'))"
  using assms(1) by (rule serve_port_keeps) (fact assms(2), erule wake_grows_step)

lemma switch_message_other:
  assumes "switch_message env vnet incoming st = Inr (go, st')" and "p \<noteq> incoming \<or> v \<noteq> vnet"
  shows "port_buf (ps_in (fst st')) p v = port_buf (ps_in (fst st)) p v"
proof -
  obtain sw self calls draw sw' self' calls' draw' where "st = (sw, self, calls, draw)" "st' = (sw', self', calls', draw')"
    by (cases st; cases st')
  then show ?thesis
    using switch_message_frame [of env vnet incoming sw self calls draw go sw' self' calls' draw'] assms by (simp add: input_frame_def)
qed

lemma serve_port_other:
  assumes "serve_port env vnet st incoming = Inr st'" and "p \<noteq> incoming \<or> v \<noteq> vnet"
  shows "port_buf (ps_in (fst st')) p v = port_buf (ps_in (fst st)) p v"
  using assms(1)
  by (rule serve_port_keeps [where I = "\<lambda>t. port_buf (ps_in (fst t)) p v = port_buf (ps_in (fst st)) p v"])
    (simp_all add: switch_message_other [OF _ assms(2)])

lemma serve_all_settles:
  assumes "rfold (serve_port env vnet) st ps = Inr st'" and "distinct ps" and "wake_ok env (fst (snd st))"
  shows "wake_grows env (fst (snd st)) (fst (snd st')) \<and>
    (\<forall>p. p \<notin> set ps \<longrightarrow> port_buf (ps_in (fst st')) p vnet = port_buf (ps_in (fst st)) p vnet) \<and>
    (\<forall>p \<in> set ps. settled env vnet p st')"
  using assms
proof (induction ps arbitrary: st)
  case Nil
  then show ?case by (simp add: wake_grows_refl)
next
  case (Cons q ps)
  from Cons.prems(1) obtain st1 where st1: "serve_port env vnet st q = Inr st1" "rfold (serve_port env vnet) st1 ps = Inr st'" by auto
  have g: "wake_grows env (fst (snd st)) (fst (snd st1))" by (rule serve_port_grows [OF st1(1) wake_grows_refl [OF Cons.prems(3)]])
  have ih: "wake_grows env (fst (snd st1)) (fst (snd st')) \<and>
    (\<forall>p. p \<notin> set ps \<longrightarrow> port_buf (ps_in (fst st')) p vnet = port_buf (ps_in (fst st1)) p vnet) \<and>
    (\<forall>p \<in> set ps. settled env vnet p st')"
    by (rule Cons.IH [OF st1(2)]) (use Cons.prems(2) g in \<open>simp_all add: wake_grows_def\<close>)
  have "settled env vnet q st1" by (rule serve_port_settles [OF st1(1) Cons.prems(3)])
  then have "settled env vnet q st'" by (rule settled_grows) (use ih Cons.prems(2) in simp_all)
  moreover have "port_buf (ps_in (fst st')) p vnet = port_buf (ps_in (fst st)) p vnet" if "p \<notin> set (q # ps)" for p
    using ih serve_port_other [OF st1(1), of p vnet] that by simp
  moreover have "wake_grows env (fst (snd st)) (fst (snd st'))" using wake_grows_trans [OF g] ih by blast
  ultimately show ?case using ih by simp
qed

lemma empty_settled:
  assumes "pending_inv sw" and "total_waiting sw v = 0"
  shows "settled env v p (sw, self, calls, draw)"
proof -
  have "m_prio_heap b = []" if b: "port_buf (ps_in sw) p v = Inr b" for b
  proof -
    have "p < length (ps_in sw)" using b by (simp add: port_buf_Inr)
    then have "port_len sw p v = 0" using assms(2) by (simp add: total_waiting_def)
    then show ?thesis using b by (simp add: port_len_def waiting_def contents_of_def)
  qed
  then show ?thesis by (auto simp: settled_def MessageBuffer_isReady_def)
qed

lemma operateVnet_settles:
  assumes "PerfectSwitch_operateVnet env (sw, self, calls, draw) vnet = Inr st'" and "switch_inv sw" and "wake_ok env self"
  shows "wake_grows env self (fst (snd st')) \<and> (\<forall>p. settled env vnet p st')"
proof (cases "0 < m_pending_message_count sw ! vnet")
  case True
  let ?ps = "visit_ports (length (ps_in sw)) (length (ps_in sw)) (m_round_robin_start sw)"
  have ps: "distinct ?ps" "set ?ps = {..<length (ps_in sw)}"
  proof -
    have "ps_in sw = [] \<or> m_round_robin_start sw < length (ps_in sw)"
      using assms(2) by (auto simp: switch_inv_def pending_inv_def)
    then have "distinct ?ps \<and> set ?ps = {..<length (ps_in sw)}" using visit_ports_all by auto
    then show "distinct ?ps" "set ?ps = {..<length (ps_in sw)}" by simp_all
  qed
  have "rfold (serve_port env vnet) (start_vnet sw, self, calls, draw) ?ps = Inr st'"
    using switch_vnet_cases [OF assms(1)] True by simp
  from serve_all_settles [OF this ps(1)] assms(3)
  have g: "wake_grows env self (fst (snd st'))" "\<And>p. p \<notin> set ?ps \<Longrightarrow> port_buf (ps_in (fst st')) p vnet = port_buf (ps_in sw) p vnet"
    "\<And>p. p \<in> set ?ps \<Longrightarrow> settled env vnet p st'"
    by (simp_all add: start_vnet_def)
  have "settled env vnet p st'" for p
  proof (cases "p < length (ps_in sw)")
    case True
    then show ?thesis using g(3) [of p] ps(2) by simp
  next
    case False
    then show ?thesis using g(2) [of p] ps(2) by (simp add: settled_def port_buf_Inr)
  qed
  then show ?thesis using g(1) by simp
next
  case False
  have st': "st' = (start_vnet sw, self, calls, draw)" "vnet < length (m_pending_message_count sw)"
    using switch_vnet_cases [OF assms(1)] False by simp_all
  have "total_waiting sw vnet = 0"
    using assms(2) st'(2) False unfolding switch_inv_def pending_inv_def by (metis linorder_not_less of_nat_0_less_iff of_nat_less_0_iff bot_nat_0.not_eq_extremum)
  then have "total_waiting (start_vnet sw) vnet = 0" by (simp add: total_waiting_def port_len_def start_vnet_def)
  then have "settled env vnet p (start_vnet sw, self, calls, draw)" for p
    using start_vnet_inv [OF assms(2)] by (intro empty_settled) (simp_all add: switch_inv_def)
  then show ?thesis using wake_grows_refl [OF assms(3)] by (simp add: st'(1))
qed

lemma operateVnet_other:
  assumes "PerfectSwitch_operateVnet env (sw, self, calls, draw) vnet = Inr st'" and "v \<noteq> vnet"
  shows "port_buf (ps_in (fst st')) p v = port_buf (ps_in sw) p v"
  using assms(1)
  by (rule switch_vnet_keeps [where I = "\<lambda>t. port_buf (ps_in (fst t)) p v = port_buf (ps_in sw) p v"])
    (simp_all add: switch_message_other assms(2) start_vnet_def)

lemma operate_all_settles:
  assumes "rfold (PerfectSwitch_operateVnet env) st vs = Inr st'" and "distinct vs" and "switch_inv (fst st)"
    and "wake_ok env (fst (snd st))"
  shows "wake_grows env (fst (snd st)) (fst (snd st')) \<and>
    (\<forall>p v. v \<notin> set vs \<longrightarrow> port_buf (ps_in (fst st')) p v = port_buf (ps_in (fst st)) p v) \<and>
    (\<forall>v \<in> set vs. \<forall>p. settled env v p st')"
  using assms
proof (induction vs arbitrary: st)
  case Nil
  then show ?case by (simp add: wake_grows_refl)
next
  case (Cons v vs)
  obtain sw self calls draw where st: "st = (sw, self, calls, draw)" by (cases st)
  from Cons.prems(1) obtain st1 where st1: "PerfectSwitch_operateVnet env (sw, self, calls, draw) v = Inr st1"
    "rfold (PerfectSwitch_operateVnet env) st1 vs = Inr st'" by (auto simp: st)
  obtain sw1 self1 calls1 draw1 where eq1: "st1 = (sw1, self1, calls1, draw1)" by (cases st1)
  have prems: "switch_inv sw" "wake_ok env self" using Cons.prems(3,4) by (simp_all add: st)
  have s1: "wake_grows env self (fst (snd st1))" "\<And>p. settled env v p st1"
    using operateVnet_settles [OF st1(1) prems] by simp_all
  have ih: "wake_grows env (fst (snd st1)) (fst (snd st')) \<and>
    (\<forall>p u. u \<notin> set vs \<longrightarrow> port_buf (ps_in (fst st')) p u = port_buf (ps_in (fst st1)) p u) \<and>
    (\<forall>u \<in> set vs. \<forall>p. settled env u p st')"
  proof (rule Cons.IH [OF st1(2)])
    show "distinct vs" using Cons.prems(2) by simp
    show "switch_inv (fst st1)" using operateVnet_inv [OF st1(1) [unfolded eq1] prems(1)] by (simp add: eq1)
    show "wake_ok env (fst (snd st1))" using s1(1) by (simp add: wake_grows_def)
  qed
  have "settled env v p st'" for p
    by (rule settled_grows [OF s1(2)]) (use ih Cons.prems(2) in simp_all)
  moreover have "port_buf (ps_in (fst st')) p u = port_buf (ps_in (fst st)) p u" if "u \<notin> set (v # vs)" for p u
    using ih operateVnet_other [OF st1(1), of u p] that by (simp add: st)
  moreover have "wake_grows env (fst (snd st)) (fst (snd st'))" using wake_grows_trans [OF s1(1)] ih by (simp add: st)
  ultimately show ?case using ih by simp
qed

lemma vnet_priority_all:
  assumes "vnet_priority n w = (order, w')"
  shows "distinct order" "set order = {..<n}"
  using assms by (auto simp: vnet_priority_def split: if_splits)

section \<open>Copies\<close>

lemma redirect_read: "getInternalDestination m = (d, p) \<Longrightarrow> redirect e p = redirect e m"
  by (auto simp: redirect_def getInternalDestination_def Let_def)

text \<open>What a message adds to an output buffer: a copy redirected to the destinations that the link serves.\<close>

definition copy_for :: "'d perfect_switch \<Rightarrow> nat \<Rightarrow> net_dest \<Rightarrow> 'd network_message \<Rightarrow> nat \<Rightarrow> 'd network_message multiset \<Rightarrow> bool" where
  "copy_for sw incoming d m p M \<longleftrightarrow>
     (if p < length (ps_out sw) \<and> dests d \<inter> dests (m_routing_table sw ! p) \<noteq> {} \<and> \<not> (ps_switch_id sw < 5 \<and> incoming = p)
      then \<exists>e. dests e = dests d \<inter> dests (m_routing_table sw ! p) \<and> M = {#redirect e m#}
      else M = {#})"

lemma used_links_iff: "order_wf sw \<Longrightarrow> p \<in> set (used_links sw d) \<longleftrightarrow>
    p < length (ps_out sw) \<and> dests d \<inter> dests (m_routing_table sw ! p) \<noteq> {}"
  using order_wf_links(1) by (auto simp: used_links_def)

lemma copy_for_links:
  assumes "order_wf sw" and "map fst links = used_links sw d"
    and "\<forall>(k, e) \<in> set links. dests e = dests d \<inter> dests (m_routing_table sw ! k)"
  shows "copy_for sw incoming d m p (if sent_over sw incoming p
      then (case map_of links p of Some e \<Rightarrow> {#redirect e m#} | None \<Rightarrow> {#}) else {#})"
proof (cases "map_of links p")
  case None
  then have "p \<notin> set (used_links sw d)" unfolding assms(2) [symmetric] by (simp add: map_of_eq_None_iff)
  then show ?thesis using None used_links_iff [OF assms(1)] by (simp add: copy_for_def)
next
  case (Some e)
  then have "(p, e) \<in> set links" by (rule map_of_SomeD)
  then have e: "dests e = dests d \<inter> dests (m_routing_table sw ! p)" "p \<in> fst ` set links"
    using assms(3) by (auto intro: rev_image_eqI)
  have p: "p < length (ps_out sw)" "dests d \<inter> dests (m_routing_table sw ! p) \<noteq> {}"
    using e(2) used_links_iff [OF assms(1), of p d] unfolding assms(2) [symmetric] by simp_all
  show ?thesis
  proof (cases "sent_over sw incoming p")
    case True
    then show ?thesis using Some e(1) p unfolding copy_for_def sent_over_def by auto
  next
    case False
    then show ?thesis unfolding copy_for_def sent_over_def by simp
  qed
qed

lemma copy_for_frame:
  assumes "out_frame a b"
  shows "copy_for b incoming d m p M = copy_for a incoming d m p M"
proof -
  have "length (ps_out b) = length (ps_out a)" "m_routing_table b = m_routing_table a" "ps_switch_id b = ps_switch_id a"
    using assms out_frame_length by (simp_all add: out_frame_def)
  then show ?thesis by (simp only: copy_for_def)
qed

lemma switch_message_copies:
  assumes "switch_message env vnet incoming (sw, self, calls, draw) = Inr (go, sw', self', calls', draw')"
    and "order_wf sw" and "table_wf env sw"
    and "port_buf (ps_in sw) incoming vnet = Inr b" and "peekMsgPtr (se_now env) b = Inr m"
    and "getInternalDestination (payload m) = (d, q)" and "net_dest_wf (se_ct env) d"
  shows "if go
    then waiting (ps_in sw) incoming vnet = add_mset (payload m) (waiting (ps_in sw') incoming vnet) \<and>
      (\<forall>p v. \<exists>M. waiting (ps_out sw') p v = waiting (ps_out sw) p v + M \<and>
         (if v = vnet then copy_for sw incoming d (payload m) p M else M = {#}))
    else add_mset (payload m) (waiting (ps_in sw') incoming vnet) = add_mset q (waiting (ps_in sw) incoming vnet) \<and>
      (\<forall>p v. waiting (ps_out sw') p v = waiting (ps_out sw) p v)"
  using assms(1)
proof (rule switch_messageE)
  fix b0 msg0 d0 p0 msg_ptr sw1 sw2 draw2 links sw3
  assume b0: "port_buf (ps_in sw) incoming vnet = Inr b0" and msg0: "peekMsgPtr (se_now env) b0 = Inr msg0"
    and d0: "getInternalDestination (payload msg0) = (d0, p0)" and msg_ptr: "msg_ptr = msg0\<lparr>payload := p0\<rparr>"
    and sw1: "sw1 = sw\<lparr>ps_in := put_buf (ps_in sw) incoming vnet (read_head b0 msg_ptr)\<rparr>"
    and a: "arrange_links env vnet sw1 draw = Inr (sw2, draw2)" and rt: "route env sw2 d0 = Inr links"
    and chk: "rfold (check_slot env vnet) (True, sw2) links = Inr (go, sw3)"
    and stop: "\<not> go \<Longrightarrow> sw' = sw3 \<and> calls' = calls \<and> scheduleEvent (se_now env) self 1 = Inr self'"
    and cont: "go \<Longrightarrow> self' = self \<and> (\<exists>cyc msg b2 c. MessageBuffer_dequeue (se_now env) (read_head b0 msg_ptr) = Inr (cyc, msg, b2) \<and>
       at_pos (m_pending_message_count sw3) vnet = Inr c \<and>
       forward_all env vnet incoming msg msg_ptr links
         (sw3\<lparr>ps_in := put_buf (ps_in sw3) incoming vnet b2,
              m_pending_message_count := (m_pending_message_count sw3)[vnet := c - 1]\<rparr>, calls, draw2) = Inr (sw', calls', draw'))"
  have eq0: "b0 = b" using b0 assms(4) by simp
  then have eq1: "msg0 = m" using msg0 assms(5) by simp
  have dq: "(d, q) = (d0, p0)" by (rule trans [OF assms(6) [symmetric] d0 [unfolded eq1]])
  have eq2: "d0 = d" using dq by (rule Pair_inject) (rule sym)
  have eq3: "p0 = q" using dq by (rule Pair_inject) (rule sym)
  note same = eq0 eq1 eq2 eq3
  let ?b1 = "read_head b msg_ptr"
  have fields1: "ps_out sw1 = ps_out sw" "m_routing_table sw1 = m_routing_table sw" "ps_switch_id sw1 = ps_switch_id sw"
    by (simp_all add: sw1)
  note hd = peek_head [OF assms(5)]
  have m1: "payload msg_ptr = q" by (simp add: msg_ptr eq3)
  have q: "quiet sw1 sw2" "order_wf sw2" "quiet sw2 sw3"
    using arrange_links_quiet [OF a] check_slot_quiet [OF chk] assms(2) by (simp_all add: sw1 order_wf_def)
  have f: "out_frame sw1 sw3" using q quiet_frame out_frame_trans by blast
  have in3: "ps_in sw3 = put_buf (ps_in sw) incoming vnet ?b1" using f by (simp add: out_frame_def sw1 same)
  have out3: "waiting (ps_out sw3) p v = waiting (ps_out sw) p v" for p v using q(1,3) by (simp add: quiet_def sw1)
  have c1: "contents_of b = add_mset (payload m) (contents_of b - {#payload m#})"
    "contents_of ?b1 = add_mset q (contents_of b - {#payload m#})"
    using hd read_head_simps(2) [OF hd(1), of msg_ptr] m1 by (cases "m_prio_heap b"; simp add: contents_of_def)+
  have w: "waiting (ps_in sw) incoming vnet = contents_of b" using assms(4) by (simp add: waiting_def)
  show ?thesis
  proof (cases go)
    case False
    then have "waiting (ps_in sw') incoming vnet = contents_of ?b1"
      using stop in3 waiting_put [OF assms(4), of ?b1] by simp
    moreover have "add_mset (payload m) (contents_of ?b1) = add_mset q (contents_of b)"
      unfolding c1(2) by (subst (2) c1(1)) (rule add_mset_commute)
    ultimately show ?thesis using False stop out3 w by simp
  next
    case True
    then obtain cyc msg b2 c where dq: "MessageBuffer_dequeue (se_now env) ?b1 = Inr (cyc, msg, b2)"
      and fw: "forward_all env vnet incoming msg msg_ptr links
         (sw3\<lparr>ps_in := put_buf (ps_in sw3) incoming vnet b2,
              m_pending_message_count := (m_pending_message_count sw3)[vnet := c - 1]\<rparr>, calls, draw2) = Inr (sw', calls', draw')"
      using cont same by blast
    have pm: "payload msg = q" using dequeue_moves(3) [OF dq] read_head_simps(1) [OF hd(1), of msg_ptr] m1 by simp
    have b2: "contents_of ?b1 = add_mset q (contents_of b2)"
      using dequeue_moves(2) [OF dq] read_head_simps(1) [OF hd(1), of msg_ptr] m1 by (simp add: contents_of_def)
    have table2: "table_wf env sw2" using assms(3) quiet_frame [OF q(1)] by (simp add: table_wf_def out_frame_def sw1)
    have links: "map fst links = used_links sw2 d" "\<forall>(k, e) \<in> set links. dests e = dests d \<inter> dests (m_routing_table sw2 ! k)"
      using route_spec [OF table2 q(2) assms(7)] rt same by auto
    have dist: "distinct (map fst links)" using order_wf_links(2) [OF q(2)] by (simp add: links(1) used_links_def)
    have pl: "payload msg_ptr = payload msg" using m1 pm by simp
    have rr: "redirect e q = redirect e (payload m)" for e by (rule redirect_read [OF assms(6)])
    have so3: "sent_over (sw3\<lparr>ps_in := x, m_pending_message_count := y\<rparr>) incoming p = sent_over sw3 incoming p" for x y p
      by (simp add: sent_over_def)
    have fs: "out_frame (sw3\<lparr>ps_in := put_buf (ps_in sw3) incoming vnet b2,
              m_pending_message_count := (m_pending_message_count sw3)[vnet := c - 1]\<rparr>) sw'"
      "\<And>p v. waiting (ps_out sw') p v = waiting (ps_out sw3) p v +
        (if v = vnet \<and> sent_over sw3 incoming p then
           (case map_of links p of Some e \<Rightarrow> {#redirect e (payload m)#} | None \<Rightarrow> {#}) else {#})"
      using forward_all_spec [OF fw dist pl, unfolded pm rr so3] by simp_all
    have "ps_in sw' = put_buf (ps_in sw3) incoming vnet b2" using fs(1) by (simp add: out_frame_def)
    moreover have "port_buf (ps_in sw3) incoming vnet = Inr ?b1"
      using port_buf_put [of incoming "ps_in sw" vnet ?b1 incoming vnet] assms(4) by (simp add: in3 port_buf_Inr)
    ultimately have "waiting (ps_in sw') incoming vnet = contents_of b2" by (simp add: waiting_put)
    then have ins: "waiting (ps_in sw) incoming vnet = add_mset (payload m) (waiting (ps_in sw') incoming vnet)"
      using w c1 b2 by simp
    have so: "sent_over sw3 incoming p = sent_over sw2 incoming p" for p using q(3) by (simp add: sent_over_def quiet_def out_frame_def)
    have "\<exists>M. waiting (ps_out sw') p v = waiting (ps_out sw) p v + M \<and>
         (if v = vnet then copy_for sw incoming d (payload m) p M else M = {#})" for p v
    proof (cases "v = vnet")
      case True
      have "copy_for sw2 incoming d (payload m) p (if sent_over sw2 incoming p
          then (case map_of links p of Some e \<Rightarrow> {#redirect e (payload m)#} | None \<Rightarrow> {#}) else {#})"
        by (rule copy_for_links [OF q(2) links])
      then have "copy_for sw incoming d (payload m) p (if sent_over sw2 incoming p
          then (case map_of links p of Some e \<Rightarrow> {#redirect e (payload m)#} | None \<Rightarrow> {#}) else {#})"
        unfolding copy_for_frame [OF quiet_frame [OF q(1)]] by (simp only: copy_for_def fields1)
      then show ?thesis using True fs(2) [of p v] out3 so by (intro exI conjI) simp_all
    next
      case False
      then show ?thesis using fs(2) [of p v] out3 by simp
    qed
    then show ?thesis using True ins by simp
  qed
qed

section \<open>Properties\<close>

text \<open>A central switch with one input port and an output port for each of the cores 1 and 2, where a message
  to core 1 waits, for the witnesses.\<close>

definition demo_ports :: "nat net_buffer \<Rightarrow> nat perfect_switch result" where
  "demo_ports out = rbind (PerfectSwitch_addInPort (\<lambda>_. ''in'') (PerfectSwitch_init (PerfectSwitch_new 5 1))
       [Some (idle_queue\<lparr>m_consumer := False\<rparr>)]) (\<lambda>sw.
     Inr (PerfectSwitch_addOutPort (PerfectSwitch_addOutPort sw [Some out] (dest_core 1)) [Some out] (dest_core 2)))"

definition demo_switch :: "nat net_buffer \<Rightarrow> nat perfect_switch result" where
  "demo_switch out = rbind (demo_ports out) (\<lambda>sw. rbind (port_buf (ps_in sw) 0 0) (\<lambda>b.
     rbind (MessageBuffer_enqueue 0 ruby64 (0, 0, 0) b (Some (control_msg 1)) 1 False) (\<lambda>(b', calls).
     PerfectSwitch_storeEventInfo (sw\<lparr>ps_in := put_buf (ps_in sw) 0 0 b'\<rparr>) 0)))"

definition demo_env :: switch_env where
  "demo_env = \<lparr>se_now = 500, se_rs = ruby64, se_ct = [4, 2], se_adaptive = False, se_ordered = [False],
     se_random = (\<lambda>_. 0), se_random_time = (\<lambda>_. (0, 0, 0))\<rparr>"

lemma demo_reach:
  assumes "demo_switch out = Inr sw"
  shows "switch_reach sw"
proof -
  obtain sw1 b b' calls where d: "demo_ports out = Inr sw1" "port_buf (ps_in sw1) 0 0 = Inr b"
    "MessageBuffer_enqueue 0 ruby64 (0, 0, 0) b (Some (control_msg 1)) 1 False = Inr (b', calls)"
    "PerfectSwitch_storeEventInfo (sw1\<lparr>ps_in := put_buf (ps_in sw1) 0 0 b'\<rparr>) 0 = Inr sw"
    using assms by (auto simp: demo_switch_def)
  obtain sw0 where p: "PerfectSwitch_addInPort (\<lambda>_. ''in'') (PerfectSwitch_init (PerfectSwitch_new 5 1))
       [Some (idle_queue\<lparr>m_consumer := False\<rparr>)] = Inr sw0"
    "sw1 = PerfectSwitch_addOutPort (PerfectSwitch_addOutPort sw0 [Some out] (dest_core 1)) [Some out] (dest_core 2)"
    using d(1) by (auto simp: demo_ports_def)
  have "switch_reach sw0"
    by (rule switch_reach.in_port [OF switch_reach.init [OF switch_reach.new] _ p(1)])
      (simp add: idle_queue_def MessageBuffer_new_def)
  then have r1: "switch_reach sw1" unfolding p(2) by (intro switch_reach.out_port)
  obtain t where n: "calls = [ScheduleEventAbsolute t, StoreEventInfo (m_vnet_id b)]"
    using enqueue_moves [OF d(3)] by blast
  have "m_vnet_id b = 0" using switch_reach_inv [OF r1] d(2) by (auto simp: switch_inv_def pending_inv_def)
  then show ?thesis using d(4) by (intro switch_reach.arrive [OF r1 d(2) d(3) [unfolded n]]) simp
qed

lemma dest_core_wf: "k < 4 \<Longrightarrow> net_dest_wf [4, 2] (dest_core k)"
  using NetDest_add_spec [OF net_dest42_wf, of 0 k] by (auto simp: dest_core_def)

text \<open>C?: the number of pending messages a switch keeps for a virtual network is the number of messages in
  its input buffers of that network, whatever sequence of initialisation, new ports, arriving messages,
  wakeups and departures led there. So \<open>operateVnet\<close> skips a virtual network only when no message waits on it.\<close>

theorem pending_counts_waiting:
  assumes "switch_reach sw" and "v < length (m_pending_message_count sw)"
  shows "m_pending_message_count sw ! v = (\<Sum>p < length (ps_in sw). int (size (waiting (ps_in sw) p v)))"
  using switch_reach_inv [OF assms(1)] assms(2)
  by (simp add: switch_inv_def pending_inv_def total_waiting_def port_len_def)

theorem pending_counts_waiting_witness:
  "\<exists>sw. demo_switch idle_queue = Inr sw \<and> m_pending_message_count sw = [1] \<and>
     (1 :: int) = (\<Sum>p < length (ps_in sw). int (size (waiting (ps_in sw) p 0)))"
proof -
  have "(case demo_switch idle_queue of Inl _ \<Rightarrow> False | Inr sw \<Rightarrow> m_pending_message_count sw = [1])" by code_simp
  then obtain sw where sw: "demo_switch idle_queue = Inr sw" "m_pending_message_count sw = [1]" by (auto split: sum.splits)
  show ?thesis using pending_counts_waiting [OF demo_reach [OF sw(1)], of 0] sw by auto
qed

text \<open>C4: a message that the switch moves is taken out of its input buffer, and every output link whose
  routing entry meets the destinations of the message gets exactly one copy of it, addressed to the
  destinations the entry covers, with the one exception that a switch below number 5 sends nothing back
  over the port the message came from. All other buffers keep their messages.\<close>

theorem switch_copies_message:
  assumes "switch_reach sw" and "table_wf env sw"
    and "port_buf (ps_in sw) incoming vnet = Inr b" and "peekMsgPtr (se_now env) b = Inr m"
    and "getInternalDestination (payload m) = (d, q)" and "net_dest_wf (se_ct env) d"
    and "switch_message env vnet incoming (sw, self, calls, draw) = Inr (True, sw', self', calls', draw')"
  shows "waiting (ps_in sw) incoming vnet = add_mset (payload m) (waiting (ps_in sw') incoming vnet) \<and>
    (\<forall>p. if p < length (ps_out sw) \<and> dests d \<inter> dests (m_routing_table sw ! p) \<noteq> {} \<and> \<not> (ps_switch_id sw < 5 \<and> incoming = p)
      then \<exists>e. dests e = dests d \<inter> dests (m_routing_table sw ! p) \<and>
        waiting (ps_out sw') p vnet = add_mset (redirect e (payload m)) (waiting (ps_out sw) p vnet)
      else waiting (ps_out sw') p vnet = waiting (ps_out sw) p vnet) \<and>
    (\<forall>p v. v \<noteq> vnet \<longrightarrow> waiting (ps_out sw') p v = waiting (ps_out sw) p v)"
proof -
  have "order_wf sw" using switch_reach_inv [OF assms(1)] by (simp add: switch_inv_def)
  from switch_message_copies [OF assms(7) this assms(2-6)]
  have ins: "waiting (ps_in sw) incoming vnet = add_mset (payload m) (waiting (ps_in sw') incoming vnet)"
    and out: "\<And>p v. \<exists>M. waiting (ps_out sw') p v = waiting (ps_out sw) p v + M \<and>
         (if v = vnet then copy_for sw incoming d (payload m) p M else M = {#})" by simp_all
  have "if p < length (ps_out sw) \<and> dests d \<inter> dests (m_routing_table sw ! p) \<noteq> {} \<and> \<not> (ps_switch_id sw < 5 \<and> incoming = p)
      then \<exists>e. dests e = dests d \<inter> dests (m_routing_table sw ! p) \<and>
        waiting (ps_out sw') p vnet = add_mset (redirect e (payload m)) (waiting (ps_out sw) p vnet)
      else waiting (ps_out sw') p vnet = waiting (ps_out sw) p vnet" for p
  proof -
    obtain M where M: "waiting (ps_out sw') p vnet = waiting (ps_out sw) p vnet + M" "copy_for sw incoming d (payload m) p M"
      using out [of p vnet] by auto
    show ?thesis
    proof (cases "p < length (ps_out sw) \<and> dests d \<inter> dests (m_routing_table sw ! p) \<noteq> {} \<and> \<not> (ps_switch_id sw < 5 \<and> incoming = p)")
      case True
      then obtain e where "dests e = dests d \<inter> dests (m_routing_table sw ! p)" "M = {#redirect e (payload m)#}"
        using M(2) [unfolded copy_for_def if_P [OF True]] by blast
      then show ?thesis using M(1) unfolding if_P [OF True] by auto
    next
      case False
      then show ?thesis using M unfolding copy_for_def if_not_P [OF False] by simp
    qed
  qed
  moreover have "waiting (ps_out sw') p v = waiting (ps_out sw) p v" if "v \<noteq> vnet" for p v using out [of p v] that by auto
  ultimately show ?thesis using ins by blast
qed

theorem switch_copies_message_witness:
  "\<exists>sw sw' self' calls' draw' e. demo_switch idle_queue = Inr sw \<and>
     switch_message demo_env 0 0 (sw, link_consumer, [], 0) = Inr (True, sw', self', calls', draw') \<and>
     waiting (ps_out sw') 0 0 = add_mset (redirect e (payload (control_msg 1))) (waiting (ps_out sw) 0 0) \<and>
     waiting (ps_out sw') 1 0 = waiting (ps_out sw) 1 0"
proof -
  have "(case demo_switch idle_queue of Inl _ \<Rightarrow> False | Inr sw \<Rightarrow>
      m_routing_table sw = [dest_core 1, dest_core 2] \<and> length (ps_out sw) = 2 \<and> ps_switch_id sw = 5 \<and>
      (case port_buf (ps_in sw) 0 0 of Inl _ \<Rightarrow> False | Inr b \<Rightarrow> rmap payload (peekMsgPtr 500 b) = Inr (payload (control_msg 1))) \<and>
      (case switch_message demo_env 0 0 (sw, link_consumer, [], 0) of Inl _ \<Rightarrow> False | Inr (go, _) \<Rightarrow> go))" by code_simp
  then obtain sw where sw: "demo_switch idle_queue = Inr sw"
    "m_routing_table sw = [dest_core 1, dest_core 2]" "length (ps_out sw) = 2" "ps_switch_id sw = 5"
    "case port_buf (ps_in sw) 0 0 of Inl _ \<Rightarrow> False | Inr b \<Rightarrow> rmap payload (peekMsgPtr 500 b) = Inr (payload (control_msg 1))"
    "case switch_message demo_env 0 0 (sw, link_consumer, [], 0) of Inl _ \<Rightarrow> False | Inr (go, _) \<Rightarrow> go"
    by (cases "demo_switch idle_queue") simp_all
  obtain b where b: "port_buf (ps_in sw) 0 0 = Inr b" "rmap payload (peekMsgPtr 500 b) = Inr (payload (control_msg 1))"
    using sw(5) by (cases "port_buf (ps_in sw) 0 0") simp_all
  obtain sw' self' calls' draw' where sw': "switch_message demo_env 0 0 (sw, link_consumer, [], 0) = Inr (True, sw', self', calls', draw')"
    using sw(6) by (cases "switch_message demo_env 0 0 (sw, link_consumer, [], 0)") auto
  note w = sw(1-4) b sw'
  obtain m where m: "peekMsgPtr 500 b = Inr m" "payload m = payload (control_msg 1)" using w(6) by (cases "peekMsgPtr 500 b") auto
  obtain q where q: "getInternalDestination (payload m) = (dest_core 1, q)"
    by (simp add: m(2) getInternalDestination_def control_msg_def Message_new_def)
  have wf: "table_wf demo_env sw" "net_dest_wf (se_ct demo_env) (dest_core 1)" "se_now demo_env = 500"
    using dest_core_wf [of 1] dest_core_wf [of 2] by (simp_all add: table_wf_def demo_env_def w(2))
  have meets: "dests (dest_core 1) \<inter> dests (dest_core 1) \<noteq> {}" "dests (dest_core 1) \<inter> dests (dest_core 2) = {}"
  proof -
    have "NetDest_intersectionIsNotEmpty (dest_core 1) (dest_core 1) = Inr True"
      "NetDest_intersectionIsNotEmpty (dest_core 1) (dest_core 2) = Inr False" by code_simp+
    then show "dests (dest_core 1) \<inter> dests (dest_core 1) \<noteq> {}" "dests (dest_core 1) \<inter> dests (dest_core 2) = {}"
      using NetDest_test_spec(3) [OF dest_core_wf [of 1] dest_core_wf [of 1]]
        NetDest_test_spec(3) [OF dest_core_wf [of 1] dest_core_wf [of 2]] by simp_all
  qed
  note c = switch_copies_message [OF demo_reach [OF w(1)] wf(1) w(5) m(1) [folded wf(3)] q wf(2) w(7), unfolded w(2-4) m(2)]
  obtain e where "waiting (ps_out sw') 0 0 = add_mset (redirect e (payload (control_msg 1))) (waiting (ps_out sw) 0 0)"
    using c meets(1) by (elim conjE) (drule spec [of _ 0], auto)
  moreover have "waiting (ps_out sw') 1 0 = waiting (ps_out sw) 1 0"
    using c meets(2) by (elim conjE) (drule spec [of _ 1], simp)
  ultimately show ?thesis using w(1,7) by blast
qed

text \<open>C34: no ready message is forgotten. After a wakeup of a switch that was reached through its operations,
  an input buffer of one of its virtual networks that still has a ready message has the switch wake up
  again in the next cycle.\<close>

theorem switch_ready_rescheduled:
  assumes "switch_reach sw" and "wake_ok env self"
    and "PerfectSwitch_wakeup env (sw, self, calls, draw) = Inr (sw', self', calls', draw')"
    and "v < ps_virtual_networks sw" and "port_buf (ps_in sw') p v = Inr b" and "MessageBuffer_isReady (se_now env) b = Inr True"
  shows "clockEdge (se_now env) (consumer_em self) 1 \<in> set (consumer_events self')"
proof -
  obtain order w where o: "vnet_priority (ps_virtual_networks sw) (ps_wakeups_wo_switch sw + 1) = (order, w)"
    by (cases "vnet_priority (ps_virtual_networks sw) (ps_wakeups_wo_switch sw + 1)")
  let ?st = "(sw\<lparr>ps_wakeups_wo_switch := w\<rparr>, self, calls, draw)"
  have run: "rfold (PerfectSwitch_operateVnet env) ?st order = Inr (sw', self', calls', draw')"
    using assms(3) by (simp add: PerfectSwitch_wakeup_def o)
  have "switch_inv (fst ?st)" using switch_reach_inv [OF assms(1)]
    by (simp add: switch_inv_def order_wf_def pending_inv_def total_waiting_def port_len_def)
  from operate_all_settles [OF run vnet_priority_all(1) [OF o] this] assms(2,4) vnet_priority_all(2) [OF o]
  have "wake_grows env self self'" "settled env v p (sw', self', calls', draw')" by simp_all
  then show ?thesis using assms(5,6) next_cycle_grows [of env self self'] by (auto simp: settled_def next_cycle_def)
qed

theorem switch_ready_rescheduled_witness:
  "\<exists>sw sw' self' calls' draw'. demo_switch (two_requests\<lparr>m_max_size := 2\<rparr>) = Inr sw \<and>
     PerfectSwitch_wakeup demo_env (sw, link_consumer, [], 0) = Inr (sw', self', calls', draw') \<and>
     1000 \<in> set (consumer_events self')"
proof -
  let ?out = "two_requests\<lparr>m_max_size := 2\<rparr>"
  have "(case demo_switch ?out of Inl _ \<Rightarrow> False | Inr sw \<Rightarrow> ps_virtual_networks sw = 1 \<and>
      (case PerfectSwitch_wakeup demo_env (sw, link_consumer, [], 0) of Inl _ \<Rightarrow> False | Inr (sw', _) \<Rightarrow>
       (case port_buf (ps_in sw') 0 0 of Inl _ \<Rightarrow> False | Inr b \<Rightarrow> MessageBuffer_isReady 500 b = Inr True)))" by code_simp
  then obtain sw where sw: "demo_switch ?out = Inr sw" "ps_virtual_networks sw = 1"
    "case PerfectSwitch_wakeup demo_env (sw, link_consumer, [], 0) of Inl _ \<Rightarrow> False | Inr (sw', _) \<Rightarrow>
       (case port_buf (ps_in sw') 0 0 of Inl _ \<Rightarrow> False | Inr b \<Rightarrow> MessageBuffer_isReady 500 b = Inr True)"
    by (cases "demo_switch ?out") simp_all
  then obtain sw' self' calls' draw' where sw': "PerfectSwitch_wakeup demo_env (sw, link_consumer, [], 0) = Inr (sw', self', calls', draw')"
    "case port_buf (ps_in sw') 0 0 of Inl _ \<Rightarrow> False | Inr b \<Rightarrow> MessageBuffer_isReady 500 b = Inr True"
    by (cases "PerfectSwitch_wakeup demo_env (sw, link_consumer, [], 0)") auto
  then obtain b where b: "port_buf (ps_in sw') 0 0 = Inr b" "MessageBuffer_isReady 500 b = Inr True"
    by (cases "port_buf (ps_in sw') 0 0") simp_all
  note w = sw(1,2) sw'(1) b
  have now: "se_now demo_env = 500" "clockEdge 500 (consumer_em link_consumer) 1 = 1000" "clockEdge 500 (consumer_em link_consumer) 0 = 500"
    by code_simp+
  have "consumer_inv 500 link_consumer" by (simp add: consumer_inv_def link_consumer_def)
  then have "wake_ok demo_env link_consumer" by (simp add: wake_ok_def next_cycle_def now)
  then show ?thesis
    using switch_ready_rescheduled [OF demo_reach [OF w(1)] _ w(3) _ w(4)] w now by auto
qed

end
