(* ===== verification/Abstract_Controller.thy ===== *)
theory Abstract_Controller
  imports Ruby_Tables Data_Block Throttle
begin

text \<open>
  What every coherence controller shares: \<open>AbstractController\<close> of
  src/gem5-stable/src/mem/ruby/slicc_interface/AbstractController.hh and AbstractController.cc. A
  controller reads its input ports in the order of the protocol; a message that cannot be handled yet is
  put aside in its buffer under an address (\<open>stall_and_wait\<close> of the protocol language, the code that
  src/gem5-stable/src/mem/slicc/ast/StallAndWaitStatementAST.py emits), and the controller remembers
  the buffer under the address and the rank of its port, so that a later transition can wake it. The
  type \<open>'p\<close> names the input ports. A buffer belongs to one port and is held by value; the calls of a
  buffer on its consumer, which is the controller itself, are returned. The requests to the memory port
  are returned as values, the port itself is not modelled. Statistics are left out.
\<close>

section \<open>State\<close>

record ('p, 'm) controller =
  ac_buf :: "'p \<Rightarrow> 'm message_buffer"
  m_waiting_buffers :: "(addr \<times> 'p option list) list"
  m_in_ports :: nat
  m_cur_in_port :: nat
  m_is_blocking :: bool
  m_block_map :: "(addr \<times> 'p) list"

definition AbstractController_new :: "('p \<Rightarrow> 'm message_buffer) \<Rightarrow> nat \<Rightarrow> ('p, 'm) controller" where
  "AbstractController_new bufs in_ports = \<lparr>ac_buf = bufs, m_waiting_buffers = [], m_in_ports = in_ports,
     m_cur_in_port = 0, m_is_blocking = False, m_block_map = []\<rparr>"

definition set_buf :: "('p, 'm) controller \<Rightarrow> 'p \<Rightarrow> 'm message_buffer \<Rightarrow> ('p, 'm) controller" where
  "set_buf c p b = c\<lparr>ac_buf := (ac_buf c)(p := b)\<rparr>"

section \<open>Stalling and waking\<close>

definition waiting_vec :: "('p, 'm) controller \<Rightarrow> addr \<Rightarrow> 'p option list" where
  "waiting_vec c a = (case map_of (m_waiting_buffers c) a of
     None \<Rightarrow> replicate (m_in_ports c) None | Some vec \<Rightarrow> vec)"

definition stallBuffer :: "('p, 'm) controller \<Rightarrow> 'p \<Rightarrow> addr \<Rightarrow> ('p, 'm) controller result" where
  "stallBuffer c p a = rbind (set_pos (waiting_vec c a) (m_cur_in_port c) (Some p)) (\<lambda>vec.
     Inr (c\<lparr>m_waiting_buffers := amap_set a vec (m_waiting_buffers c)\<rparr>))"

definition stall_and_wait :: "tick \<Rightarrow> ruby_system \<Rightarrow> ('p, 'm) controller \<Rightarrow> 'p \<Rightarrow> addr \<Rightarrow> ('p, 'm) controller result" where
  "stall_and_wait now rs c p a = rbind (stallBuffer c p a) (\<lambda>c1.
     rbind (stallMessage now rs (ac_buf c1 p) a) (\<lambda>b. Inr (set_buf c1 p b)))"

definition wake_slot :: "('m message_buffer \<Rightarrow> ('m message_buffer \<times> consumer_call list) result) \<Rightarrow>
    ('p, 'm) controller \<times> consumer_call list \<Rightarrow> 'p option \<Rightarrow> (('p, 'm) controller \<times> consumer_call list) result" where
  "wake_slot f = (\<lambda>(c, calls) slot. case slot of
     None \<Rightarrow> Inr (c, calls)
   | Some p \<Rightarrow> rbind (f (ac_buf c p)) (\<lambda>(b, cs). Inr (set_buf c p b, calls @ cs)))"

text \<open>The loop over the ranks below \<open>n\<close>, from the highest down, and the removal of the address.\<close>

definition wake_ranks :: "tick \<Rightarrow> ('p, 'm) controller \<Rightarrow> addr \<Rightarrow> nat \<Rightarrow> (('p, 'm) controller \<times> consumer_call list) result" where
  "wake_ranks now c a n = (case map_of (m_waiting_buffers c) a of
     None \<Rightarrow> Inr (c, [])
   | Some vec \<Rightarrow> rbind (rfold (\<lambda>st rank. rbind (at_pos vec rank) (wake_slot (\<lambda>b. reanalyzeMessages now b a) st)) (c, []) (rev [0..<n]))
       (\<lambda>(c', calls). Inr (c'\<lparr>m_waiting_buffers := AList.delete a (m_waiting_buffers c')\<rparr>, calls)))"

definition wakeUpBuffers :: "tick \<Rightarrow> ('p, 'm) controller \<Rightarrow> addr \<Rightarrow> (('p, 'm) controller \<times> consumer_call list) result" where
  "wakeUpBuffers now c a = wake_ranks now c a (m_cur_in_port c)"

definition wakeUpAllBuffers_addr :: "tick \<Rightarrow> ('p, 'm) controller \<Rightarrow> addr \<Rightarrow> (('p, 'm) controller \<times> consumer_call list) result" where
  "wakeUpAllBuffers_addr now c a = wake_ranks now c a (m_in_ports c)"

definition wakeUpAllBuffers :: "tick \<Rightarrow> ('p, 'm) controller \<Rightarrow> (('p, 'm) controller \<times> consumer_call list) result" where
  "wakeUpAllBuffers now c =
     rbind (rfold (\<lambda>st (a, vec). rfold (wake_slot (reanalyzeAllMessages now)) st vec) (c, []) (m_waiting_buffers c))
       (\<lambda>(c', calls). Inr (c'\<lparr>m_waiting_buffers := []\<rparr>, calls))"

section \<open>Blocking\<close>

definition blockOnQueue :: "('p, 'm) controller \<Rightarrow> addr \<Rightarrow> 'p \<Rightarrow> ('p, 'm) controller" where
  "blockOnQueue c a p = c\<lparr>m_is_blocking := True, m_block_map := amap_set a p (m_block_map c)\<rparr>"

definition isBlocked :: "('p, 'm) controller \<Rightarrow> addr \<Rightarrow> bool" where
  "isBlocked c a \<longleftrightarrow> m_is_blocking c \<and> a \<in> set (map fst (m_block_map c))"

definition unblock :: "('p, 'm) controller \<Rightarrow> addr \<Rightarrow> ('p, 'm) controller" where
  "unblock c a = (let m = AList.delete a (m_block_map c)
     in c\<lparr>m_block_map := m, m_is_blocking := (if length m = 0 then False else m_is_blocking c)\<rparr>)"

section \<open>The memory port\<close>

text \<open>What goes to the memory: the originator, the address, the data of a write and the tick the request
  is scheduled for. During cache warmup the port would answer at once; here it is off.\<close>

datatype mem_request =
    MemRead (mr_id: machine_id) (mr_addr: addr) (mr_time: tick)
  | MemWrite (mr_id: machine_id) (mr_addr: addr) (mr_data: "byte list") (mr_time: tick)

definition queueMemoryRead :: "tick \<Rightarrow> clocked_object \<Rightarrow> machine_id \<Rightarrow> addr \<Rightarrow> cycles \<Rightarrow> mem_request" where
  "queueMemoryRead now self id1 a latency = MemRead id1 a (clockEdge now self latency)"

definition queueMemoryWrite :: "tick \<Rightarrow> ruby_system \<Rightarrow> clocked_object \<Rightarrow> machine_id \<Rightarrow> addr \<Rightarrow> cycles \<Rightarrow> data_block \<Rightarrow>
    mem_request result" where
  "queueMemoryWrite now rs self id1 a latency block =
     rbind (DataBlock_getData rs block 0 (int (block_size rs))) (\<lambda>bs. Inr (MemWrite id1 a bs (clockEdge now self latency)))"

definition queueMemoryWritePartial :: "tick \<Rightarrow> ruby_system \<Rightarrow> clocked_object \<Rightarrow> machine_id \<Rightarrow> addr \<Rightarrow> cycles \<Rightarrow>
    data_block \<Rightarrow> int \<Rightarrow> mem_request result" where
  "queueMemoryWritePartial now rs self id1 a latency block len =
     rbind (int_offset rs a) (\<lambda>off. rbind (DataBlock_getData rs block off len) (\<lambda>bs.
     Inr (MemWrite id1 a bs (clockEdge now self latency))))"

text \<open>A response of the memory: the packet still carries what the request put into its sender state.\<close>

datatype mem_request_type = MEMORY_READ | MEMORY_WB | MEMORY_DATA | MEMORY_ACK

record memory_msg =
  mm_Addr :: addr
  mm_Type :: mem_request_type
  mm_Sender :: machine_id
  mm_OriginalRequestorMachId :: machine_id
  mm_DataBlk :: data_block
  mm_MessageSize :: message_size_type

definition recvTimingResp :: "tick \<Rightarrow> ruby_system \<Rightarrow> clocked_object \<Rightarrow> machine_id \<Rightarrow> data_block \<Rightarrow> cycles \<times> cycles \<times> cycles \<Rightarrow>
    memory_msg message_buffer \<Rightarrow> mem_request \<Rightarrow> byte list \<Rightarrow> (memory_msg message_buffer \<times> consumer_call list) result" where
  "recvTimingResp now rs self machineID fresh rnd b req bytes =
     rbind (case req of
        MemRead id1 a t \<Rightarrow> rbind (DataBlock_setData rs fresh bytes 0 (int (block_size rs))) (\<lambda>blk.
          Inr \<lparr>mm_Addr = a, mm_Type = MEMORY_READ, mm_Sender = machineID, mm_OriginalRequestorMachId = id1, mm_DataBlk = blk,
            mm_MessageSize = MessageSizeType_Response_Data\<rparr>)
      | MemWrite id1 a bs t \<Rightarrow>
          Inr \<lparr>mm_Addr = a, mm_Type = MEMORY_WB, mm_Sender = machineID, mm_OriginalRequestorMachId = id1, mm_DataBlk = fresh,
            mm_MessageSize = MessageSizeType_Writeback_Control\<rparr>)
     (\<lambda>msg. MessageBuffer_enqueue now rs rnd b (Some (Message_new (clockEdge now self 0) msg)) 1 False)"

section \<open>Nothing stalls unnoticed\<close>

text \<open>A buffer that can take its stalled messages back: its invariants hold, it is connected, and its
  message numbers do not run out.\<close>

definition stalled :: "'m message_buffer \<Rightarrow> nat" where
  "stalled b = length (concat (map snd (m_stall_msg_map b)))"

definition buf_ok :: "'m message_buffer \<Rightarrow> bool" where
  "buf_ok b \<longleftrightarrow> mb_inv b \<and> stall_wf (m_stall_msg_map b) \<and> m_consumer b \<and> m_receiver b \<noteq> None \<and> stalled b \<le> mb_budget b"

lemma reanalyze_entries:
  assumes "mb_inv b" and "m_consumer b" and "length (concat (map snd xs)) \<le> mb_budget b"
  shows "\<exists>b' calls'. rfold (\<lambda>(b, calls) (a, lt). rbind (reanalyzeList b lt t) (\<lambda>(b', calls'). Inr (b', calls @ calls'))) (b, calls) xs
      = Inr (b', calls') \<and> mb_inv b' \<and> m_consumer b' \<and> m_receiver b' = m_receiver b \<and> m_stall_msg_map b' = m_stall_msg_map b \<and>
      mset (map m_msgptr (m_prio_heap b')) = mset (map m_msgptr (m_prio_heap b)) + mset (concat (map snd xs))"
  using assms
proof (induction xs arbitrary: b calls)
  case Nil
  then show ?case by simp
next
  case (Cons x xs)
  obtain a lt where x: "x = (a, lt)" by (cases x)
  have len: "length lt \<le> mb_budget b" using Cons.prems(3) by (simp add: x)
  obtain heap k where h: "reanalyzeList b lt t = Inr (b\<lparr>m_prio_heap := heap, mb_msg_counter := k\<rparr>, replicate (length lt) (ScheduleEventAbsolute t))"
    "mb_inv (b\<lparr>m_prio_heap := heap, mb_msg_counter := k\<rparr>)"
    "mset (map m_msgptr heap) = mset (map m_msgptr (m_prio_heap b)) + mset lt"
    "unat k = unat (mb_msg_counter b) + length lt"
    using reanalyzeList_spec [OF Cons.prems(1,2) len] by blast
  let ?b = "b\<lparr>m_prio_heap := heap, mb_msg_counter := k\<rparr>"
  have "length (concat (map snd xs)) \<le> mb_budget ?b" using Cons.prems(3) h(4) by (simp add: x mb_budget_def)
  from Cons.IH [OF h(2) _ this, of "calls @ replicate (length lt) (ScheduleEventAbsolute t)"] Cons.prems(2) h(1,3)
  show ?case by (auto simp: x)
qed

lemma reanalyzeAll_ok:
  assumes "buf_ok b"
  shows "\<exists>b' calls. reanalyzeAllMessages now b = Inr (b', calls) \<and> buf_ok b' \<and> m_stall_msg_map b' = [] \<and> all_payloads b' = all_payloads b"
proof -
  obtain r where r: "m_receiver b = Some r" using assms by (auto simp: buf_ok_def)
  have "mb_inv b" "m_consumer b" "length (concat (map snd (m_stall_msg_map b))) \<le> mb_budget b"
    using assms by (simp_all add: buf_ok_def stalled_def)
  from reanalyze_entries [OF this, of "clockEdge now r 1" "[]"] obtain b' calls where
    b': "rfold (\<lambda>(b, calls) (a, lt). rbind (reanalyzeList b lt (clockEdge now r 1)) (\<lambda>(b', calls'). Inr (b', calls @ calls')))
      (b, []) (m_stall_msg_map b) = Inr (b', calls)"
    "mb_inv b'" "m_consumer b'" "m_receiver b' = m_receiver b"
    "mset (map m_msgptr (m_prio_heap b')) = mset (map m_msgptr (m_prio_heap b)) + mset (concat (map snd (m_stall_msg_map b)))"
    by blast
  let ?b = "b'\<lparr>m_stall_msg_map := []\<rparr>"
  have "reanalyzeAllMessages now b = Inr (?b, calls)" using b'(1) by (simp add: reanalyzeAllMessages_def r)
  moreover have "buf_ok ?b"
    using b'(2-4) mb_inv_cong [of ?b b'] by (simp add: buf_ok_def stall_wf_def stalled_def r)
  moreover have "all_payloads ?b = all_payloads b"
  proof -
    have "image_mset payload (mset (map m_msgptr (m_prio_heap b'))) =
        image_mset payload (mset (map m_msgptr (m_prio_heap b)) + mset (concat (map snd (m_stall_msg_map b))))"
      using b'(5) by simp
    then show ?thesis by (simp add: all_payloads_def buffered_messages_def multiset.map_comp)
  qed
  ultimately show ?thesis by auto
qed

lemma reanalyze_ok:
  assumes "buf_ok b" and "map_of (m_stall_msg_map b) a \<noteq> None"
  shows "\<exists>b' calls. reanalyzeMessages now b a = Inr (b', calls) \<and> buf_ok b' \<and> all_payloads b' = all_payloads b \<and>
    m_stall_msg_map b' = stall_erase a (m_stall_msg_map b)"
proof -
  obtain r lt where r: "m_receiver b = Some r" "map_of (m_stall_msg_map b) a = Some lt" using assms by (auto simp: buf_ok_def)
  have ok: "mb_inv b" "m_consumer b" "stall_wf (m_stall_msg_map b)" "stalled b \<le> mb_budget b" using assms(1) by (simp_all add: buf_ok_def)
  have split: "stalled b = length lt + length (concat (map snd (stall_erase a (m_stall_msg_map b))))"
    using arg_cong [OF stall_erase_mset [OF ok(3) r(2)], of size] by (simp add: stalled_def)
  then have len: "length lt \<le> mb_budget b" using ok(4) by simp
  obtain heap k where h: "reanalyzeList b lt (clockEdge now r 1) =
      Inr (b\<lparr>m_prio_heap := heap, mb_msg_counter := k\<rparr>, replicate (length lt) (ScheduleEventAbsolute (clockEdge now r 1)))"
    "unat k = unat (mb_msg_counter b) + length lt"
    using reanalyzeList_spec [OF ok(1,2) len] by blast
  let ?b = "b\<lparr>m_prio_heap := heap, mb_msg_counter := k, m_stall_msg_map := stall_erase a (m_stall_msg_map b)\<rparr>"
  have run: "reanalyzeMessages now b a = Inr (?b, replicate (length lt) (ScheduleEventAbsolute (clockEdge now r 1)))"
    using h(1) r by (simp add: reanalyzeMessages_def)
  have "mb_inv ?b \<and> stall_wf (m_stall_msg_map ?b) \<and> all_payloads ?b = all_payloads b"
    using reanalyzeMessages_spec [OF ok(1-3) r(1,2) len, of now] run by auto
  moreover have "stalled ?b \<le> mb_budget ?b" using split ok(4) h(2) by (simp add: stalled_def mb_budget_def)
  ultimately show ?thesis using run ok(2) r(1) by (auto simp: buf_ok_def)
qed

lemma stall_append_map_of: "stall_wf xs \<Longrightarrow>
    map_of (stall_append a m xs) = (map_of xs)(a \<mapsto> (case map_of xs a of None \<Rightarrow> [m] | Some ms \<Rightarrow> ms @ [m]))"
proof (induction xs)
  case Nil
  then show ?case by simp
next
  case (Cons x xs)
  obtain b ms where x: "x = (b, ms)" by (cases x)
  have IH: "map_of (stall_append a m xs) = (map_of xs)(a \<mapsto> (case map_of xs a of None \<Rightarrow> [m] | Some ms \<Rightarrow> ms @ [m]))"
    using Cons by (simp add: stall_wf_def fun_eq_iff)
  consider "a = b" | "a < b" | "b < a" by (rule linorder_cases)
  then show ?case
  proof cases
    case 2
    then have "a \<notin> fst ` set xs" using Cons.prems by (auto simp: x stall_wf_def)
    then have "map_of xs a = None" by (simp add: map_of_eq_None_iff)
    then show ?thesis using 2 by (auto simp: x)
  qed (use IH in \<open>auto simp: x\<close>)
qed

lemma dequeue_frame:
  assumes "mb_inv b" and "MessageBuffer_dequeue now b = Inr (t, m, b')"
  shows "m_stall_msg_map b' = m_stall_msg_map b" "m_consumer b' = m_consumer b" "m_receiver b' = m_receiver b"
    "m_sender b' = m_sender b" "mb_msg_counter b' = mb_msg_counter b" "mb_inv b'"
proof -
  obtain r where fr: "b' = (record_pop (clockEdge now r 0) b)\<lparr>m_prio_heap := m_prio_heap b'\<rparr>" "mb_inv b'"
    using dequeue_success [OF assms] by blast
  show "m_stall_msg_map b' = m_stall_msg_map b" "m_consumer b' = m_consumer b" "m_receiver b' = m_receiver b"
    "m_sender b' = m_sender b" "mb_msg_counter b' = mb_msg_counter b"
    by (subst fr(1), simp add: record_pop_def)+
  show "mb_inv b'" by (rule fr(2))
qed

lemma dequeue_buf_ok:
  assumes "buf_ok b" and "MessageBuffer_dequeue now b = Inr (t, m, b')"
  shows "buf_ok b' \<and> m_stall_msg_map b' = m_stall_msg_map b"
  using dequeue_frame [of b now t m b'] assms by (simp add: buf_ok_def stalled_def mb_budget_def)

lemma stallMessage_buf_ok:
  assumes "buf_ok b" and "stalled b < mb_budget b" and "stallMessage now rs b a = Inr b'"
  shows "buf_ok b' \<and> all_payloads b' = all_payloads b \<and>
    (\<forall>a'. map_of (m_stall_msg_map b') a' \<noteq> None \<longleftrightarrow> a' = a \<or> map_of (m_stall_msg_map b) a' \<noteq> None)"
proof -
  have ok: "mb_inv b" "stall_wf (m_stall_msg_map b)" using assms(1) by (simp_all add: buf_ok_def)
  note sp = stallMessage_spec [OF ok assms(3)]
  obtain t m b1 where d: "MessageBuffer_dequeue now b = Inr (t, m, b1)"
    "b' = b1\<lparr>m_stall_msg_map := stall_append a m (m_stall_msg_map b1)\<rparr>"
    using assms(3) by (auto simp: stallMessage_def)
  note fields = dequeue_frame [OF ok(1) d(1)]
  have "stalled b' = Suc (stalled b)"
    using arg_cong [OF stall_append_mset [of a m "m_stall_msg_map b"], of size] by (simp add: stalled_def d(2) fields(1))
  then have "buf_ok b'" using sp assms(1,2) fields by (simp add: buf_ok_def d(2) mb_budget_def)
  moreover have "map_of (m_stall_msg_map b') a' \<noteq> None \<longleftrightarrow> a' = a \<or> map_of (m_stall_msg_map b) a' \<noteq> None" for a'
    using stall_append_map_of [OF ok(2), of a m] by (simp add: d(2) fields(1))
  ultimately show ?thesis using sp by simp
qed

text \<open>The table of waiting buffers is exact: a buffer is registered under an address exactly while it has
  messages stalled there, at the rank of its port.\<close>

definition waiting_inv :: "('p \<Rightarrow> nat) \<Rightarrow> ('p, 'm) controller \<Rightarrow> bool" where
  "waiting_inv rank c \<longleftrightarrow> sorted_wrt (<) (map fst (m_waiting_buffers c)) \<and> (\<forall>p. buf_ok (ac_buf c p)) \<and>
     (\<forall>a vec. map_of (m_waiting_buffers c) a = Some vec \<longrightarrow> length vec = m_in_ports c) \<and>
     (\<forall>p a. map_of (m_stall_msg_map (ac_buf c p)) a \<noteq> None \<longleftrightarrow>
        rank p < m_in_ports c \<and> waiting_vec c a ! rank p = Some p) \<and>
     (\<forall>a r p. r < m_in_ports c \<longrightarrow> waiting_vec c a ! r = Some p \<longrightarrow> rank p = r)"

lemma stall_and_wait_inv:
  assumes "waiting_inv rank c" and "inj rank" and "m_cur_in_port c = rank p"
    and "stall_and_wait now rs c p a = Inr c'" and "stalled (ac_buf c p) < mb_budget (ac_buf c p)"
  shows "waiting_inv rank c' \<and> (\<forall>q. all_payloads (ac_buf c' q) = all_payloads (ac_buf c q)) \<and> m_in_ports c' = m_in_ports c"
proof -
  have inv: "sorted_wrt (<) (map fst (m_waiting_buffers c))" "\<And>q. buf_ok (ac_buf c q)"
    "\<And>a. length (waiting_vec c a) = m_in_ports c"
    "\<And>q a. map_of (m_stall_msg_map (ac_buf c q)) a \<noteq> None \<longleftrightarrow> rank q < m_in_ports c \<and> waiting_vec c a ! rank q = Some q"
    "\<And>a r q. r < m_in_ports c \<Longrightarrow> waiting_vec c a ! r = Some q \<Longrightarrow> rank q = r"
    using assms(1) by (auto simp: waiting_inv_def waiting_vec_def split: option.splits)
  have rk: "rank p < m_in_ports c" using assms(3,4) inv(3) [of a]
    by (auto simp: stall_and_wait_def stallBuffer_def set_pos_def ensure_def split: if_splits)
  let ?vec = "(waiting_vec c a)[rank p := Some p]"
  let ?c1 = "c\<lparr>m_waiting_buffers := amap_set a ?vec (m_waiting_buffers c)\<rparr>"
  obtain b where b: "stallMessage now rs (ac_buf c p) a = Inr b" "c' = set_buf ?c1 p b"
    using assms(3,4) rk inv(3) [of a] by (auto simp: stall_and_wait_def stallBuffer_def set_pos_def)
  note sp = stallMessage_buf_ok [OF inv(2) [of p] assms(5) b(1)]
  have st: "map_of (m_stall_msg_map b) a' \<noteq> None \<longleftrightarrow> a' = a \<or> map_of (m_stall_msg_map (ac_buf c p)) a' \<noteq> None" for a'
    using sp by blast
  have okb: "buf_ok b" using sp by blast
  have vec: "waiting_vec c' a' = (if a' = a then ?vec else waiting_vec c a')" for a'
    using amap_set_map_of [OF inv(1)]
    by (cases "map_of (m_waiting_buffers c) a'") (auto simp: b(2) set_buf_def waiting_vec_def)
  have bufs: "ac_buf c' q = (if q = p then b else ac_buf c q)" for q by (simp add: b(2) set_buf_def)
  have "map_of (m_stall_msg_map (ac_buf c' q)) a' \<noteq> None \<longleftrightarrow> rank q < m_in_ports c \<and> waiting_vec c' a' ! rank q = Some q" for q a'
  proof (cases "q = p")
    case True
    then show ?thesis using st [of a'] inv(3) [of a] inv(4) [of p a'] rk by (auto simp: bufs vec)
  next
    case False
    then have "rank q \<noteq> rank p" using assms(2) by (auto dest: injD)
    then show ?thesis using False inv(4) [of q a'] by (simp add: bufs vec)
  qed
  moreover have "rank q = r" if "r < m_in_ports c" "waiting_vec c' a' ! r = Some q" for a' r q
    using that inv(5) [of r a' q] inv(3) [of a] by (cases "a' = a \<and> r = rank p") (auto simp: vec nth_list_update split: if_splits)
  moreover have "length v = m_in_ports c" if "map_of (m_waiting_buffers c') a' = Some v" for a' v
  proof -
    have "v = waiting_vec c' a'" using that by (simp add: waiting_vec_def)
    then show ?thesis using inv(3) by (simp add: vec)
  qed
  moreover have "sorted_wrt (<) (map fst (m_waiting_buffers c'))"
    using amap_set_sorted [OF inv(1)] by (simp add: b(2) set_buf_def)
  moreover have "m_in_ports c' = m_in_ports c" by (simp add: b(2) set_buf_def)
  moreover have "buf_ok (ac_buf c' q)" for q using okb inv(2) by (simp add: bufs)
  moreover have "all_payloads (ac_buf c' q) = all_payloads (ac_buf c q)" for q using sp by (simp add: bufs)
  ultimately show ?thesis by (simp add: waiting_inv_def)
qed

lemma map_of_all_None: "\<forall>a. map_of xs a = None \<Longrightarrow> xs = []"
  by (cases xs) (auto dest: spec [of _ "fst (hd xs)"])

text \<open>Waking buffers: nothing but the buffers change, no message is lost, and a buffer that was woken once
  stays empty.\<close>

definition woken :: "('p, 'm) controller \<Rightarrow> ('p, 'm) controller \<Rightarrow> bool" where
  "woken c c' \<longleftrightarrow> m_waiting_buffers c' = m_waiting_buffers c \<and> m_in_ports c' = m_in_ports c \<and> m_cur_in_port c' = m_cur_in_port c \<and>
     (\<forall>p. buf_ok (ac_buf c' p) \<and> all_payloads (ac_buf c' p) = all_payloads (ac_buf c p) \<and>
          (\<forall>a. map_of (m_stall_msg_map (ac_buf c p)) a = None \<longrightarrow> map_of (m_stall_msg_map (ac_buf c' p)) a = None))"

lemma woken_refl: "(\<And>p. buf_ok (ac_buf c p)) \<Longrightarrow> woken c c"
  by (simp add: woken_def)

lemma woken_trans: "woken a b \<Longrightarrow> woken b c \<Longrightarrow> woken a c"
  by (simp add: woken_def)

lemma wake_all_slots:
  assumes "woken c0 c"
  shows "\<exists>c' calls'. rfold (wake_slot (reanalyzeAllMessages now)) (c, calls) vec = Inr (c', calls') \<and> woken c0 c' \<and> woken c c' \<and>
    (\<forall>p. Some p \<in> set vec \<longrightarrow> m_stall_msg_map (ac_buf c' p) = [])"
  using assms
proof (induction vec arbitrary: c calls)
  case Nil
  then show ?case using woken_refl [of c] by (simp add: woken_def)
next
  case (Cons slot vec)
  show ?case
  proof (cases slot)
    case None
    then show ?thesis using Cons.IH [OF Cons.prems, of calls] by (simp add: wake_slot_def)
  next
    case (Some p)
    have "buf_ok (ac_buf c p)" using Cons.prems by (simp add: woken_def)
    then obtain b cs where b: "reanalyzeAllMessages now (ac_buf c p) = Inr (b, cs)" "buf_ok b" "m_stall_msg_map b = []"
      "all_payloads b = all_payloads (ac_buf c p)" using reanalyzeAll_ok by blast
    have w: "woken c (set_buf c p b)" using Cons.prems b by (simp add: woken_def set_buf_def)
    then obtain c' calls' where c': "rfold (wake_slot (reanalyzeAllMessages now)) (set_buf c p b, calls @ cs) vec = Inr (c', calls')"
      "woken c0 c'" "woken (set_buf c p b) c'" "\<forall>q. Some q \<in> set vec \<longrightarrow> m_stall_msg_map (ac_buf c' q) = []"
      using Cons.IH [OF woken_trans [OF Cons.prems w], of "calls @ cs"] by blast
    have "\<forall>a. map_of (m_stall_msg_map (ac_buf c' p)) a = None" using c'(3) b(3) by (simp add: woken_def set_buf_def)
    then have "m_stall_msg_map (ac_buf c' p) = []" by (rule map_of_all_None)
    then show ?thesis using c' b(1) woken_trans [OF w c'(3)] by (auto simp: Some wake_slot_def)
  qed
qed

lemma wake_all_entries:
  assumes "woken c0 c"
  shows "\<exists>c' calls'. rfold (\<lambda>st (a, vec). rfold (wake_slot (reanalyzeAllMessages now)) st vec) (c, calls) ws = Inr (c', calls') \<and>
    woken c0 c' \<and> woken c c' \<and> (\<forall>p a vec. (a, vec) \<in> set ws \<longrightarrow> Some p \<in> set vec \<longrightarrow> m_stall_msg_map (ac_buf c' p) = [])"
  using assms
proof (induction ws arbitrary: c calls)
  case Nil
  then show ?case using woken_refl [of c] by (simp add: woken_def)
next
  case (Cons w ws)
  obtain a vec where w: "w = (a, vec)" by (cases w)
  obtain c1 calls1 where c1: "rfold (wake_slot (reanalyzeAllMessages now)) (c, calls) vec = Inr (c1, calls1)"
    "woken c0 c1" "woken c c1" "\<forall>p. Some p \<in> set vec \<longrightarrow> m_stall_msg_map (ac_buf c1 p) = []"
    using wake_all_slots [OF Cons.prems, of now calls vec] by blast
  obtain c' calls' where c': "rfold (\<lambda>st (a, vec). rfold (wake_slot (reanalyzeAllMessages now)) st vec) (c1, calls1) ws = Inr (c', calls')"
    "woken c0 c'" "woken c1 c'" "\<forall>p a vec. (a, vec) \<in> set ws \<longrightarrow> Some p \<in> set vec \<longrightarrow> m_stall_msg_map (ac_buf c' p) = []"
    using Cons.IH [OF c1(2), of calls1] by blast
  have "m_stall_msg_map (ac_buf c' p) = []" if "Some p \<in> set vec" for p
  proof -
    have "\<forall>a. map_of (m_stall_msg_map (ac_buf c' p)) a = None" using c'(3) c1(4) that by (simp add: woken_def)
    then show ?thesis by (rule map_of_all_None)
  qed
  then show ?case using c1(1) c' woken_trans [OF c1(3) c'(3)] by (auto simp: w)
qed

lemma wakeUpAllBuffers_ok:
  assumes "waiting_inv rank c"
  shows "\<exists>c' calls. wakeUpAllBuffers now c = Inr (c', calls) \<and> waiting_inv rank c' \<and>
    (\<forall>p. m_stall_msg_map (ac_buf c' p) = [] \<and> all_payloads (ac_buf c' p) = all_payloads (ac_buf c p))"
proof -
  have "woken c c" using assms by (intro woken_refl) (simp add: waiting_inv_def)
  from wake_all_entries [OF this, of now "[]" "m_waiting_buffers c"] obtain c1 calls where
    c1: "rfold (\<lambda>st (a, vec). rfold (wake_slot (reanalyzeAllMessages now)) st vec) (c, []) (m_waiting_buffers c) = Inr (c1, calls)"
      "woken c c1" "\<And>p a vec. (a, vec) \<in> set (m_waiting_buffers c) \<Longrightarrow> Some p \<in> set vec \<Longrightarrow> m_stall_msg_map (ac_buf c1 p) = []"
    by blast
  have inv: "\<And>p a. map_of (m_stall_msg_map (ac_buf c p)) a \<noteq> None \<longleftrightarrow> rank p < m_in_ports c \<and> waiting_vec c a ! rank p = Some p"
    "\<And>a vec. map_of (m_waiting_buffers c) a = Some vec \<Longrightarrow> length vec = m_in_ports c"
    using assms unfolding waiting_inv_def by blast+
  have empty: "m_stall_msg_map (ac_buf c1 p) = []" for p
  proof (cases "\<exists>a. map_of (m_stall_msg_map (ac_buf c p)) a \<noteq> None")
    case True
    then obtain a where a: "rank p < m_in_ports c" "waiting_vec c a ! rank p = Some p"
      using inv(1) by blast
    obtain vec where vec: "map_of (m_waiting_buffers c) a = Some vec" "vec ! rank p = Some p"
      using a by (cases "map_of (m_waiting_buffers c) a") (simp_all add: waiting_vec_def)
    have "Some p \<in> set vec" using nth_mem [of "rank p" vec] a(1) vec(2) inv(2) [OF vec(1)] by simp
    then show ?thesis by (rule c1(3) [OF map_of_SomeD [OF vec(1)]])
  next
    case False
    then have "map_of (m_stall_msg_map (ac_buf c p)) a = None" for a by blast
    then have "\<forall>a. map_of (m_stall_msg_map (ac_buf c1 p)) a = None" using c1(2) unfolding woken_def by blast
    then show ?thesis by (rule map_of_all_None)
  qed
  let ?c = "c1\<lparr>m_waiting_buffers := []\<rparr>"
  have "wakeUpAllBuffers now c = Inr (?c, calls)" using c1(1) by (simp add: wakeUpAllBuffers_def)
  moreover have "waiting_inv rank ?c"
    using c1(2) empty by (simp add: waiting_inv_def woken_def waiting_vec_def)
  ultimately show ?thesis using empty c1(2) by (auto simp: woken_def)
qed

text \<open>Waking the buffers of one address.\<close>

lemma stall_erase_other: "a' \<noteq> a \<Longrightarrow> map_of (stall_erase a xs) a' = map_of xs a'"
  by (induction xs) (auto simp: stall_erase_def)

definition erased :: "('p \<Rightarrow> nat) \<Rightarrow> ('p, 'm) controller \<Rightarrow> addr \<Rightarrow> nat set \<Rightarrow> ('p, 'm) controller \<Rightarrow> bool" where
  "erased rank c a ranks c' \<longleftrightarrow> m_waiting_buffers c' = m_waiting_buffers c \<and> m_in_ports c' = m_in_ports c \<and>
     (\<forall>p. buf_ok (ac_buf c' p) \<and> all_payloads (ac_buf c' p) = all_payloads (ac_buf c p) \<and>
          m_stall_msg_map (ac_buf c' p) = (if rank p \<in> ranks then stall_erase a (m_stall_msg_map (ac_buf c p)) else m_stall_msg_map (ac_buf c p)))"

lemma stall_erase_absent: "map_of xs a = None \<Longrightarrow> stall_erase a xs = xs"
  by (induction xs) (auto simp: stall_erase_def split: if_splits)

lemma wake_rank_loop:
  assumes "waiting_inv rank c" and "erased rank c a done c1" and "set ns \<inter> done = {}" and "distinct ns"
    and "\<forall>r \<in> set ns. r < m_in_ports c" and "inj rank"
  shows "\<exists>c' calls'. rfold (\<lambda>st r. rbind (at_pos (waiting_vec c a) r) (wake_slot (\<lambda>b. reanalyzeMessages now b a) st)) (c1, calls) ns
      = Inr (c', calls') \<and> erased rank c a (done \<union> set ns) c'"
  using assms(2-5)
proof (induction ns arbitrary: c1 calls "done")
  case Nil
  then show ?case by simp
next
  case (Cons r ns)
  have len: "length (waiting_vec c a) = m_in_ports c" using assms(1) by (auto simp: waiting_inv_def waiting_vec_def split: option.splits)
  have at: "at_pos (waiting_vec c a) r = Inr (waiting_vec c a ! r)" using Cons.prems(4) len by (simp add: at_pos_in)
  have inv: "\<And>p a. map_of (m_stall_msg_map (ac_buf c p)) a \<noteq> None \<longleftrightarrow> rank p < m_in_ports c \<and> waiting_vec c a ! rank p = Some p"
    "\<And>p. waiting_vec c a ! r = Some p \<Longrightarrow> rank p = r"
    using assms(1) Cons.prems(4) unfolding waiting_inv_def by simp_all
  have e1: "m_waiting_buffers c1 = m_waiting_buffers c" "m_in_ports c1 = m_in_ports c" "\<And>p. buf_ok (ac_buf c1 p)"
    "\<And>p. all_payloads (ac_buf c1 p) = all_payloads (ac_buf c p)"
    "\<And>p. m_stall_msg_map (ac_buf c1 p) = (if rank p \<in> done then stall_erase a (m_stall_msg_map (ac_buf c p)) else m_stall_msg_map (ac_buf c p))"
    using Cons.prems(1) unfolding erased_def by simp_all
  have "\<exists>c2 calls2. wake_slot (\<lambda>b. reanalyzeMessages now b a) (c1, calls) (waiting_vec c a ! r) = Inr (c2, calls2) \<and> erased rank c a (insert r done) c2"
  proof (cases "waiting_vec c a ! r")
    case None
    have "stall_erase a (m_stall_msg_map (ac_buf c p)) = m_stall_msg_map (ac_buf c p)" if "rank p = r" for p
      using inv(1) [of p a] None that by (intro stall_erase_absent) simp
    then have "erased rank c a (insert r done) c1" using e1 by (simp add: erased_def)
    then show ?thesis using None by (simp add: wake_slot_def)
  next
    case (Some p)
    have rp: "rank p = r" by (rule inv(2) [OF Some])
    have "map_of (m_stall_msg_map (ac_buf c p)) a \<noteq> None" using inv(1) [of p a] Some rp Cons.prems(4) by simp
    moreover have st: "m_stall_msg_map (ac_buf c1 p) = m_stall_msg_map (ac_buf c p)" using e1(5) [of p] rp Cons.prems(2) by auto
    ultimately obtain b cs where b: "reanalyzeMessages now (ac_buf c1 p) a = Inr (b, cs)" "buf_ok b"
      "all_payloads b = all_payloads (ac_buf c1 p)" "m_stall_msg_map b = stall_erase a (m_stall_msg_map (ac_buf c1 p))"
      using reanalyze_ok [OF e1(3) [of p], of a now] by auto
    have "rank q \<noteq> r" if "q \<noteq> p" for q using that rp assms(6) by (auto dest: injD)
    then have "erased rank c a (insert r done) (set_buf c1 p b)"
      using e1 b(2-4) st rp by (simp add: erased_def set_buf_def)
    then show ?thesis using Some b(1) by (simp add: wake_slot_def)
  qed
  then obtain c2 calls2 where c2: "wake_slot (\<lambda>b. reanalyzeMessages now b a) (c1, calls) (waiting_vec c a ! r) = Inr (c2, calls2)"
    "erased rank c a (insert r done) c2" by blast
  from Cons.IH [OF c2(2), of calls2] Cons.prems(2-4) show ?case using c2(1) at by simp
qed

lemma wake_ranks_ok:
  assumes "waiting_inv rank c" and "inj rank" and "n \<le> m_in_ports c"
    and "\<And>r. n \<le> r \<Longrightarrow> r < m_in_ports c \<Longrightarrow> waiting_vec c a ! r = None"
  shows "\<exists>c' calls. wake_ranks now c a n = Inr (c', calls) \<and> waiting_inv rank c' \<and>
    (\<forall>p. map_of (m_stall_msg_map (ac_buf c' p)) a = None \<and> all_payloads (ac_buf c' p) = all_payloads (ac_buf c p))"
proof -
  have inv: "\<And>p a. map_of (m_stall_msg_map (ac_buf c p)) a \<noteq> None \<longleftrightarrow> rank p < m_in_ports c \<and> waiting_vec c a ! rank p = Some p"
    "\<And>a r p. r < m_in_ports c \<Longrightarrow> waiting_vec c a ! r = Some p \<Longrightarrow> rank p = r"
    using assms(1) unfolding waiting_inv_def by simp_all
  show ?thesis
  proof (cases "map_of (m_waiting_buffers c) a")
    case None
    have "map_of (m_stall_msg_map (ac_buf c p)) a = None" for p using inv(1) [of p a] None by (auto simp: waiting_vec_def)
    then show ?thesis using None assms(1) by (simp add: wake_ranks_def)
  next
    case (Some vec)
    then have vec: "waiting_vec c a = vec" by (simp add: waiting_vec_def)
    have "erased rank c a {} c" using assms(1) by (simp add: erased_def waiting_inv_def)
    from wake_rank_loop [OF assms(1) this, of "rev [0..<n]" now "[]"] assms(2,3) obtain c1 calls where
      c1: "rfold (\<lambda>st r. rbind (at_pos vec r) (wake_slot (\<lambda>b. reanalyzeMessages now b a) st)) (c, []) (rev [0..<n]) = Inr (c1, calls)"
        "erased rank c a {0..<n} c1" unfolding vec by auto
    let ?c = "c1\<lparr>m_waiting_buffers := AList.delete a (m_waiting_buffers c1)\<rparr>"
    have run: "wake_ranks now c a n = Inr (?c, calls)" using c1(1) Some by (simp add: wake_ranks_def)
    have e1: "m_waiting_buffers c1 = m_waiting_buffers c" "m_in_ports c1 = m_in_ports c" "\<And>p. buf_ok (ac_buf c1 p)"
      "\<And>p. all_payloads (ac_buf c1 p) = all_payloads (ac_buf c p)"
      "\<And>p. m_stall_msg_map (ac_buf c1 p) = (if rank p \<in> {0..<n} then stall_erase a (m_stall_msg_map (ac_buf c p)) else m_stall_msg_map (ac_buf c p))"
      using c1(2) unfolding erased_def by simp_all
    have gone: "map_of (m_stall_msg_map (ac_buf c1 p)) a = None" for p
      using e1(5) [of p] inv(1) [of p a] assms(4) [of "rank p"] stall_erase_map_of by (cases "rank p < n") fastforce+
    have keep: "map_of (m_stall_msg_map (ac_buf c1 p)) a' = map_of (m_stall_msg_map (ac_buf c p)) a'" if "a' \<noteq> a" for p a'
      using e1(5) [of p] stall_erase_other [OF that, of "m_stall_msg_map (ac_buf c p)"] by simp
    have w: "waiting_vec ?c a' = (if a' = a then replicate (m_in_ports c) None else waiting_vec c a')" for a'
      using e1(1,2) by (cases "map_of (m_waiting_buffers c) a'") (simp_all add: waiting_vec_def delete_conv')
    have "map_of (m_stall_msg_map (ac_buf c1 p)) a' \<noteq> None \<longleftrightarrow> rank p < m_in_ports c \<and> waiting_vec ?c a' ! rank p = Some p" for p a'
      using gone [of p] keep [of a' p] inv(1) [of p a'] by (cases "a' = a") (simp_all add: w)
    moreover have "rank p = r" if "r < m_in_ports c" "waiting_vec ?c a' ! r = Some p" for a' r p
      using that inv(2) [of r a' p] by (cases "a' = a") (simp_all add: w)
    moreover have "length v = m_in_ports c" if "map_of (AList.delete a (m_waiting_buffers c)) a' = Some v" for a' v
      using that assms(1) by (auto simp: waiting_inv_def delete_conv' split: if_splits)
    moreover have "sorted_wrt (<) (map fst (AList.delete a (m_waiting_buffers c)))"
      using assms(1) sorted_delete by (auto simp: waiting_inv_def)
    ultimately have "waiting_inv rank ?c" using e1(1-3) by (simp add: waiting_inv_def)
    then show ?thesis using run gone e1(4) by auto
  qed
qed

section \<open>Ports that share a rank\<close>

text \<open>Without distinct ranks the table may miss a stalled message, but what it contains is right: a
  registered buffer has messages stalled under the address, at the rank of its port. This is enough for
  every operation to succeed and to lose no message.\<close>

definition waiting_sound :: "('p \<Rightarrow> nat) \<Rightarrow> ('p, 'm) controller \<Rightarrow> bool" where
  "waiting_sound rank c \<longleftrightarrow> sorted_wrt (<) (map fst (m_waiting_buffers c)) \<and> (\<forall>p. buf_ok (ac_buf c p)) \<and>
     (\<forall>a vec. map_of (m_waiting_buffers c) a = Some vec \<longrightarrow> length vec = m_in_ports c) \<and>
     (\<forall>a r p. r < m_in_ports c \<longrightarrow> waiting_vec c a ! r = Some p \<longrightarrow>
        rank p = r \<and> map_of (m_stall_msg_map (ac_buf c p)) a \<noteq> None)"

lemma waiting_soundD:
  assumes "waiting_sound rank c"
  shows "sorted_wrt (<) (map fst (m_waiting_buffers c))" "buf_ok (ac_buf c p)" "length (waiting_vec c a) = m_in_ports c"
    "r < m_in_ports c \<Longrightarrow> waiting_vec c a ! r = Some p \<Longrightarrow> rank p = r \<and> map_of (m_stall_msg_map (ac_buf c p)) a \<noteq> None"
  using assms by (auto simp: waiting_sound_def waiting_vec_def split: option.splits)

lemma waiting_sound_cong:
  assumes "waiting_sound rank c" and "m_waiting_buffers c' = m_waiting_buffers c" and "m_in_ports c' = m_in_ports c"
    and "\<And>p. buf_ok (ac_buf c' p) \<and> m_stall_msg_map (ac_buf c' p) = m_stall_msg_map (ac_buf c p)"
  shows "waiting_sound rank c'"
proof -
  have "waiting_vec c' a = waiting_vec c a" for a unfolding waiting_vec_def assms(2,3) ..
  then show ?thesis using assms by (simp add: waiting_sound_def)
qed

lemma stall_and_wait_sound:
  assumes "waiting_sound rank c" and "m_cur_in_port c = rank p" and "rank p < m_in_ports c"
    and "stalled (ac_buf c p) < mb_budget (ac_buf c p)" and "stallMessage now rs (ac_buf c p) a = Inr b"
  shows "\<exists>c'. stall_and_wait now rs c p a = Inr c' \<and> waiting_sound rank c' \<and> ac_buf c' = (ac_buf c)(p := b) \<and>
    m_in_ports c' = m_in_ports c \<and> m_cur_in_port c' = m_cur_in_port c \<and> m_is_blocking c' = m_is_blocking c"
proof -
  let ?vec = "(waiting_vec c a)[rank p := Some p]"
  let ?c1 = "c\<lparr>m_waiting_buffers := amap_set a ?vec (m_waiting_buffers c)\<rparr>"
  let ?c = "set_buf ?c1 p b"
  note inv = waiting_soundD [OF assms(1)]
  have run: "stall_and_wait now rs c p a = Inr ?c"
    using assms(2,3,5) inv(3) [of a] by (simp add: stall_and_wait_def stallBuffer_def set_pos_def)
  note b = stallMessage_buf_ok [OF inv(2) [of p] assms(4,5)]
  have vec: "waiting_vec ?c a' = (if a' = a then ?vec else waiting_vec c a')" for a'
    using amap_set_map_of [OF inv(1)] by (cases "map_of (m_waiting_buffers c) a'") (auto simp: set_buf_def waiting_vec_def)
  have bufs: "ac_buf ?c q = (if q = p then b else ac_buf c q)" for q by (simp add: set_buf_def)
  have keep: "map_of (m_stall_msg_map (ac_buf c q)) a' \<noteq> None \<Longrightarrow> map_of (m_stall_msg_map (ac_buf ?c q)) a' \<noteq> None" for q a'
    using b by (auto simp: bufs)
  have "rank q = r \<and> map_of (m_stall_msg_map (ac_buf ?c q)) a' \<noteq> None" if r: "r < m_in_ports c" "waiting_vec ?c a' ! r = Some q" for a' r q
  proof (cases "a' = a \<and> r = rank p")
    case True
    then have "q = p" using r(2) assms(3) inv(3) [of a] by (simp add: vec)
    then show ?thesis using True b by (simp add: bufs)
  next
    case False
    then have "waiting_vec c a' ! r = Some q" using r(2) by (cases "a' = a") (simp_all add: vec)
    then show ?thesis using inv(4) [OF r(1)] keep by blast
  qed
  moreover have "length v = m_in_ports c" if "map_of (m_waiting_buffers ?c) a' = Some v" for a' v
  proof -
    have "v = waiting_vec ?c a'" using that by (simp add: waiting_vec_def)
    then show ?thesis using inv(3) by (simp add: vec)
  qed
  moreover have "sorted_wrt (<) (map fst (m_waiting_buffers ?c))" using amap_set_sorted [OF inv(1)] by (simp add: set_buf_def)
  moreover have "buf_ok (ac_buf ?c q)" for q using b inv(2) by (simp add: bufs)
  ultimately have "waiting_sound rank ?c" by (simp add: waiting_sound_def set_buf_def)
  then show ?thesis using run by (auto simp: set_buf_def fun_eq_iff)
qed

text \<open>Waking keeps the other fields.\<close>

lemma wake_slot_fields:
  assumes "wake_slot f (c, calls) slot = Inr (c', calls')"
  shows "m_in_ports c' = m_in_ports c \<and> m_cur_in_port c' = m_cur_in_port c \<and> m_is_blocking c' = m_is_blocking c \<and>
    m_block_map c' = m_block_map c"
  using assms by (cases slot) (auto simp: wake_slot_def set_buf_def)

lemma wake_rank_loop_sound:
  assumes "waiting_sound rank c" and "distinct ns" and "\<forall>r \<in> set ns. r < m_in_ports c"
    and "\<And>p. buf_ok (ac_buf c1 p) \<and> all_payloads (ac_buf c1 p) = all_payloads (ac_buf c p)"
    and "\<And>p. rank p \<in> set ns \<Longrightarrow> ac_buf c1 p = ac_buf c p"
    and "\<And>p b. b \<noteq> a \<Longrightarrow> map_of (m_stall_msg_map (ac_buf c1 p)) b = map_of (m_stall_msg_map (ac_buf c p)) b"
  shows "\<exists>c' calls'. rfold (\<lambda>st r. rbind (at_pos (waiting_vec c a) r) (wake_slot (\<lambda>b. reanalyzeMessages now b a) st)) (c1, calls) ns
      = Inr (c', calls') \<and> m_waiting_buffers c' = m_waiting_buffers c1 \<and> m_in_ports c' = m_in_ports c1 \<and>
    m_cur_in_port c' = m_cur_in_port c1 \<and> m_is_blocking c' = m_is_blocking c1 \<and> m_block_map c' = m_block_map c1 \<and>
    (\<forall>p. buf_ok (ac_buf c' p) \<and> all_payloads (ac_buf c' p) = all_payloads (ac_buf c p)) \<and>
    (\<forall>p b. b \<noteq> a \<longrightarrow> map_of (m_stall_msg_map (ac_buf c' p)) b = map_of (m_stall_msg_map (ac_buf c p)) b)"
  using assms(2-)
proof (induction ns arbitrary: c1 calls)
  case Nil
  then show ?case by simp
next
  case (Cons r ns)
  note inv = waiting_soundD [OF assms(1)]
  have at: "at_pos (waiting_vec c a) r = Inr (waiting_vec c a ! r)" using Cons.prems(2) inv(3) by (simp add: at_pos_in)
  show ?case
  proof (cases "waiting_vec c a ! r")
    case None
    then have "wake_slot (\<lambda>b. reanalyzeMessages now b a) (c1, calls) (waiting_vec c a ! r) = Inr (c1, calls)"
      by (simp add: wake_slot_def)
    then show ?thesis using Cons.IH [of c1 calls] Cons.prems at by simp
  next
    case (Some p)
    have rp: "rank p = r" "map_of (m_stall_msg_map (ac_buf c p)) a \<noteq> None" using inv(4) [OF _ Some] Cons.prems(2) by auto
    have same: "ac_buf c1 p = ac_buf c p" using Cons.prems(4) [of p] rp(1) by simp
    obtain b cs where b: "reanalyzeMessages now (ac_buf c1 p) a = Inr (b, cs)" "buf_ok b"
      "all_payloads b = all_payloads (ac_buf c p)" "m_stall_msg_map b = stall_erase a (m_stall_msg_map (ac_buf c p))"
      using reanalyze_ok [OF inv(2) [of p] rp(2), of now] same by auto
    let ?c2 = "set_buf c1 p b"
    have step: "wake_slot (\<lambda>b. reanalyzeMessages now b a) (c1, calls) (waiting_vec c a ! r) = Inr (?c2, calls @ cs)"
      using Some b(1) by (simp add: wake_slot_def)
    have ih: "buf_ok (ac_buf ?c2 q) \<and> all_payloads (ac_buf ?c2 q) = all_payloads (ac_buf c q)" for q
      using Cons.prems(3) [of q] b by (simp add: set_buf_def)
    have ih2: "ac_buf ?c2 q = ac_buf c q" if "rank q \<in> set ns" for q
      using Cons.prems(1) Cons.prems(4) [of q] that rp(1) by (auto simp: set_buf_def)
    have ih3: "map_of (m_stall_msg_map (ac_buf ?c2 q)) x = map_of (m_stall_msg_map (ac_buf c q)) x" if "x \<noteq> a" for q x
      using Cons.prems(5) [OF that, of q] b(4) stall_erase_other [OF that, of "m_stall_msg_map (ac_buf c p)"] by (simp add: set_buf_def)
    have fields: "m_waiting_buffers ?c2 = m_waiting_buffers c1" "m_in_ports ?c2 = m_in_ports c1" "m_cur_in_port ?c2 = m_cur_in_port c1"
      "m_is_blocking ?c2 = m_is_blocking c1" "m_block_map ?c2 = m_block_map c1" by (simp_all add: set_buf_def)
    have "distinct ns" "\<forall>r \<in> set ns. r < m_in_ports c" using Cons.prems(1,2) by simp_all
    from Cons.IH [OF this ih ih2 ih3, of "calls @ cs"] show ?thesis
      using at step unfolding fields by simp
  qed
qed

lemma wake_ranks_sound:
  assumes "waiting_sound rank c" and "n \<le> m_in_ports c"
  shows "\<exists>c' calls. wake_ranks now c a n = Inr (c', calls) \<and> waiting_sound rank c' \<and> m_in_ports c' = m_in_ports c \<and>
    m_cur_in_port c' = m_cur_in_port c \<and> m_is_blocking c' = m_is_blocking c \<and>
    (\<forall>p. all_payloads (ac_buf c' p) = all_payloads (ac_buf c p))"
proof (cases "map_of (m_waiting_buffers c) a")
  case None
  then show ?thesis using assms(1) by (simp add: wake_ranks_def)
next
  case (Some vec)
  note inv = waiting_soundD [OF assms(1)]
  have vec: "waiting_vec c a = vec" using Some by (simp add: waiting_vec_def)
  have "distinct (rev [0..<n])" "\<forall>r \<in> set (rev [0..<n]). r < m_in_ports c" using assms(2) by auto
  from wake_rank_loop_sound [OF assms(1) this, of c a now "[]"] inv(2) obtain c1 calls where
    c1: "rfold (\<lambda>st r. rbind (at_pos vec r) (wake_slot (\<lambda>b. reanalyzeMessages now b a) st)) (c, []) (rev [0..<n]) = Inr (c1, calls)"
      "m_waiting_buffers c1 = m_waiting_buffers c" "m_in_ports c1 = m_in_ports c" "m_cur_in_port c1 = m_cur_in_port c"
      "m_is_blocking c1 = m_is_blocking c" "\<And>p. buf_ok (ac_buf c1 p)" "\<And>p. all_payloads (ac_buf c1 p) = all_payloads (ac_buf c p)"
      "\<And>p b. b \<noteq> a \<Longrightarrow> map_of (m_stall_msg_map (ac_buf c1 p)) b = map_of (m_stall_msg_map (ac_buf c p)) b"
    unfolding vec by auto
  let ?c = "c1\<lparr>m_waiting_buffers := AList.delete a (m_waiting_buffers c1)\<rparr>"
  have run: "wake_ranks now c a n = Inr (?c, calls)" using c1(1) Some by (simp add: wake_ranks_def)
  have w: "waiting_vec ?c a' = (if a' = a then replicate (m_in_ports c) None else waiting_vec c a')" for a'
    using c1(2,3) by (cases "map_of (m_waiting_buffers c) a'") (simp_all add: waiting_vec_def delete_conv')
  have "rank p = r \<and> map_of (m_stall_msg_map (ac_buf c1 p)) a' \<noteq> None" if "r < m_in_ports c" "waiting_vec ?c a' ! r = Some p" for a' r p
    using that inv(4) [of r a' p] c1(8) [of a' p] by (cases "a' = a") (simp_all add: w)
  moreover have "length v = m_in_ports c" if "map_of (AList.delete a (m_waiting_buffers c)) a' = Some v" for a' v
    using that assms(1) by (auto simp: waiting_sound_def delete_conv' split: if_splits)
  moreover have "sorted_wrt (<) (map fst (AList.delete a (m_waiting_buffers c)))" using inv(1) sorted_delete by auto
  ultimately have "waiting_sound rank ?c" using c1(2,3,6) by (simp add: waiting_sound_def)
  then show ?thesis using run c1(3-5,7) by auto
qed

lemma wake_all_fields:
  assumes "rfold (wake_slot f) (c, calls) vec = Inr (c', calls')"
  shows "m_in_ports c' = m_in_ports c \<and> m_cur_in_port c' = m_cur_in_port c \<and> m_is_blocking c' = m_is_blocking c \<and>
    m_block_map c' = m_block_map c"
  using assms
proof (induction vec arbitrary: c calls)
  case Nil
  then show ?case by simp
next
  case (Cons s vec)
  obtain c1 calls1 where 1: "wake_slot f (c, calls) s = Inr (c1, calls1)" "rfold (wake_slot f) (c1, calls1) vec = Inr (c', calls')"
    using Cons.prems by (cases "wake_slot f (c, calls) s") auto
  show ?case using wake_slot_fields [OF 1(1)] Cons.IH [OF 1(2)] by simp
qed

lemma wake_entries_fields:
  assumes "rfold (\<lambda>st (a, vec). rfold (wake_slot f) st vec) (c, calls) ws = Inr (c', calls')"
  shows "m_in_ports c' = m_in_ports c \<and> m_cur_in_port c' = m_cur_in_port c \<and> m_is_blocking c' = m_is_blocking c \<and>
    m_block_map c' = m_block_map c"
  using assms
proof (induction ws arbitrary: c calls)
  case Nil
  then show ?case by simp
next
  case (Cons w ws)
  obtain a vec where w: "w = (a, vec)" by (cases w)
  obtain c1 calls1 where 1: "rfold (wake_slot f) (c, calls) vec = Inr (c1, calls1)"
      "rfold (\<lambda>st (a, vec). rfold (wake_slot f) st vec) (c1, calls1) ws = Inr (c', calls')"
    using Cons.prems by (cases "rfold (wake_slot f) (c, calls) vec") (auto simp: w)
  show ?case using wake_all_fields [OF 1(1)] Cons.IH [OF 1(2)] by simp
qed

lemma wakeUpAllBuffers_sound:
  assumes "waiting_sound rank c"
  shows "\<exists>c' calls. wakeUpAllBuffers now c = Inr (c', calls) \<and> waiting_sound rank c' \<and> m_waiting_buffers c' = [] \<and>
    m_in_ports c' = m_in_ports c \<and> m_cur_in_port c' = m_cur_in_port c \<and> m_is_blocking c' = m_is_blocking c \<and>
    (\<forall>p. all_payloads (ac_buf c' p) = all_payloads (ac_buf c p))"
proof -
  have "woken c c" by (rule woken_refl) (rule waiting_soundD(2) [OF assms])
  from wake_all_entries [OF this, of now "[]" "m_waiting_buffers c"] obtain c1 calls where
    c1: "rfold (\<lambda>st (a, vec). rfold (wake_slot (reanalyzeAllMessages now)) st vec) (c, []) (m_waiting_buffers c) = Inr (c1, calls)"
      "woken c c1" by blast
  have "wakeUpAllBuffers now c = Inr (c1\<lparr>m_waiting_buffers := []\<rparr>, calls)" using c1(1) by (simp add: wakeUpAllBuffers_def)
  moreover have "waiting_sound rank (c1\<lparr>m_waiting_buffers := []\<rparr>)"
    using c1(2) by (simp add: waiting_sound_def woken_def waiting_vec_def)
  ultimately show ?thesis using c1(2) wake_entries_fields [OF c1(1)] by (auto simp: woken_def)
qed

section \<open>Properties\<close>

text \<open>The states a controller reaches when every port has a rank of its own: messages come and go,
  the port that is looked at changes, messages stall from their own port, one address is woken from a
  port ranked above all ports that wait on it, and all buffers are woken.\<close>

inductive ctrl_reach :: "('p \<Rightarrow> nat) \<Rightarrow> ('p, 'm) controller \<Rightarrow> bool" for rank where
  new: "(\<And>p. buf_ok (bufs p) \<and> m_stall_msg_map (bufs p) = []) \<Longrightarrow> ctrl_reach rank (AbstractController_new bufs n)"
| traffic: "ctrl_reach rank c \<Longrightarrow> buf_ok b \<Longrightarrow> m_stall_msg_map b = m_stall_msg_map (ac_buf c p) \<Longrightarrow> ctrl_reach rank (set_buf c p b)"
| port: "ctrl_reach rank c \<Longrightarrow> ctrl_reach rank (c\<lparr>m_cur_in_port := r\<rparr>)"
| stall: "ctrl_reach rank c \<Longrightarrow> m_cur_in_port c = rank p \<Longrightarrow> stalled (ac_buf c p) < mb_budget (ac_buf c p) \<Longrightarrow>
    stall_and_wait now rs c p a = Inr c' \<Longrightarrow> ctrl_reach rank c'"
| wake: "ctrl_reach rank c \<Longrightarrow> m_cur_in_port c \<le> m_in_ports c \<Longrightarrow>
    (\<And>r. m_cur_in_port c \<le> r \<Longrightarrow> r < m_in_ports c \<Longrightarrow> waiting_vec c a ! r = None) \<Longrightarrow>
    wakeUpBuffers now c a = Inr (c', calls) \<Longrightarrow> ctrl_reach rank c'"
| wake_addr: "ctrl_reach rank c \<Longrightarrow> wakeUpAllBuffers_addr now c a = Inr (c', calls) \<Longrightarrow> ctrl_reach rank c'"
| wake_all: "ctrl_reach rank c \<Longrightarrow> wakeUpAllBuffers now c = Inr (c', calls) \<Longrightarrow> ctrl_reach rank c'"
| block: "ctrl_reach rank c \<Longrightarrow> ctrl_reach rank (blockOnQueue c a p)"
| unblock: "ctrl_reach rank c \<Longrightarrow> ctrl_reach rank (unblock c a)"

lemma waiting_inv_cong:
  assumes "waiting_inv rank c" and "m_waiting_buffers c' = m_waiting_buffers c" and "m_in_ports c' = m_in_ports c"
    and "\<And>p. buf_ok (ac_buf c' p) \<and> m_stall_msg_map (ac_buf c' p) = m_stall_msg_map (ac_buf c p)"
  shows "waiting_inv rank c'"
proof -
  have "waiting_vec c' a = waiting_vec c a" for a unfolding waiting_vec_def assms(2,3) ..
  then show ?thesis using assms by (simp add: waiting_inv_def)
qed

lemma ctrl_reach_inv:
  assumes "inj rank"
  shows "ctrl_reach rank c \<Longrightarrow> waiting_inv rank c"
proof (induction rule: ctrl_reach.induct)
  case (new bufs n)
  then show ?case by (simp add: AbstractController_new_def waiting_inv_def waiting_vec_def)
next
  case (traffic c b p)
  then show ?case by (intro waiting_inv_cong [OF traffic.IH]) (simp_all add: set_buf_def waiting_inv_def)
next
  case (port c r)
  then show ?case by (intro waiting_inv_cong [OF port.IH]) (simp_all add: waiting_inv_def)
next
  case (stall c p now rs a c')
  then show ?case using stall_and_wait_inv [OF stall.IH assms] by blast
next
  case (wake c a now c' calls)
  from wake_ranks_ok [OF wake.IH assms wake.hyps(2,3), of now] wake.hyps(4) show ?case by (auto simp: wakeUpBuffers_def)
next
  case (wake_addr c now a c' calls)
  from wake_ranks_ok [OF wake_addr.IH assms order_refl, of a now] wake_addr.hyps(2) show ?case by (auto simp: wakeUpAllBuffers_addr_def)
next
  case (wake_all c now c' calls)
  from wakeUpAllBuffers_ok [OF wake_all.IH, of now] wake_all.hyps(2) show ?case by auto
next
  case (block c a p)
  then show ?case by (intro waiting_inv_cong [OF block.IH]) (simp_all add: blockOnQueue_def waiting_inv_def)
next
  case (unblock c a)
  then show ?case by (intro waiting_inv_cong [OF unblock.IH]) (simp_all add: unblock_def Let_def waiting_inv_def)
qed


text \<open>Two ports with a message each, for the examples.\<close>

definition two_ports :: "nat \<Rightarrow> (bool, nat) controller" where
  "two_ports r = (AbstractController_new (\<lambda>p. mb_three) 2)\<lparr>m_cur_in_port := r\<rparr>"

lemma mb_three_ok: "buf_ok mb_three" "m_stall_msg_map mb_three = []"
  by (simp_all add: buf_ok_def stalled_def mb_budget_def stall_wf_def) (simp_all add: mb_three_def mb_fifo_def MessageBuffer_new_def)



end
