(* ===== verification/Directory_Memory.thy ===== *)
theory Directory_Memory
  imports Cache_Memory Net_Dest
begin

text \<open>
  The directory's entries: \<open>DirectoryMemory\<close> of
  src/gem5-stable/src/mem/ruby/structures/DirectoryMemory.hh and DirectoryMemory.cc, with the remaining
  logarithms of src/gem5-stable/src/base/intmath.hh and the mapping of addresses to machines of
  slicc_interface/RubySlicc_ComponentMapping.hh. Memory is interleaved over the directories by the address
  bits below \<open>m_numa_high_bit\<close>; the other bits, without the block offset, number the entries of one
  directory. The static members of the class are a record of their own. The lemmas show that this
  numbering gives every line of the memory an entry of its own.
\<close>

section \<open>Logarithms\<close>

definition log_step :: "nat \<Rightarrow> u64 \<Rightarrow> nat \<times> u64 \<Rightarrow> nat \<times> u64" where
  "log_step k m = (\<lambda>(y, x). if x AND m \<noteq> 0 then (y + k, drop_bit k x) else (y, x))"

definition floorLog2_long :: "u64 \<Rightarrow> nat result" where
  "floorLog2_long x = ensure (0 < x) AssertFailed (
     Inr (fst (log_step 1 0x2 (log_step 2 0xc (log_step 4 0xf0 (log_step 8 0xff00
       (log_step 16 0xffff0000 (log_step 32 0xffffffff00000000 (0, x)))))))))"

definition floorLog2_int :: "int \<Rightarrow> nat result" where
  "floorLog2_int x = ensure (0 < x) AssertFailed (floorLog2 (word_of_int x))"

definition ceilLog2 :: "int \<Rightarrow> nat result" where
  "ceilLog2 n = (if n = 1 then Inr 0 else rbind (floorLog2_int (n - 1)) (\<lambda>y. Inr (y + 1)))"

section \<open>The directory memory\<close>

record dir_statics =
  m_num_directories :: int
  m_num_directories_bits :: nat
  m_total_size_bytes :: u64
  m_numa_high_bit :: int

record 'e directory_memory =
  m_entries :: "'e option list"
  m_size_bytes :: u64
  m_size_bits :: nat
  m_num_entries :: u64
  dm_version :: int

definition dir_statics_new :: dir_statics where
  "dir_statics_new = \<lparr>m_num_directories = 0, m_num_directories_bits = 0, m_total_size_bytes = 0, m_numa_high_bit = 0\<rparr>"

definition DirectoryMemory_new :: "dir_statics \<Rightarrow> int \<Rightarrow> u64 \<Rightarrow> int \<Rightarrow> (dir_statics \<times> 'e directory_memory) result" where
  "DirectoryMemory_new st version size1 numa_high_bit = rbind (floorLog2_long size1) (\<lambda>bits.
     Inr (st\<lparr>m_numa_high_bit := numa_high_bit\<rparr>,
          \<lparr>m_entries = [], m_size_bytes = size1, m_size_bits = bits, m_num_entries = 0, dm_version = version\<rparr>))"

definition DirectoryMemory_init :: "ruby_system \<Rightarrow> dir_statics \<Rightarrow> 'e directory_memory \<Rightarrow>
    (dir_statics \<times> 'e directory_memory) result" where
  "DirectoryMemory_init rs st d = ensure (m_block_size_bytes rs \<noteq> 0) DivisionByZero (
     let n = m_size_bytes d div ucast (m_block_size_bytes rs);
         d1 = d\<lparr>m_num_entries := n, m_entries := replicate (unat n) None\<rparr>
     in rbind (ceilLog2 (m_num_directories st + 1)) (\<lambda>bits.
        let st1 = st\<lparr>m_num_directories := m_num_directories st + 1, m_num_directories_bits := bits,
              m_total_size_bytes := m_total_size_bytes st + m_size_bytes d,
              m_numa_high_bit := (if m_numa_high_bit st = 0 then int (m_memory_size_bits rs) - 1 else m_numa_high_bit st)\<rparr>
        in ensure (m_numa_high_bit st1 \<noteq> 0) AssertFailed (Inr (st1, d1))))"

text \<open>The bounds of the bit range are unsigned in \<open>bitSelect\<close> and \<open>bitRemove\<close>: a negative lower bound is
  above the upper one and fails their assertion.\<close>

definition numa_range :: "dir_statics \<Rightarrow> (nat \<times> nat) result" where
  "numa_range st = (let small = m_numa_high_bit st - int (m_num_directories_bits st) + 1
     in ensure (0 \<le> small \<and> 0 \<le> m_numa_high_bit st) AssertFailed (Inr (nat small, nat (m_numa_high_bit st))))"

definition mapAddressToDirectoryVersion :: "dir_statics \<Rightarrow> addr \<Rightarrow> u64 result" where
  "mapAddressToDirectoryVersion st a = (if m_num_directories_bits st = 0 then Inr 0
     else rbind (numa_range st) (\<lambda>(small, big). bitSelect a small big))"

definition DirectoryMemory_isPresent :: "dir_statics \<Rightarrow> 'e directory_memory \<Rightarrow> addr \<Rightarrow> bool result" where
  "DirectoryMemory_isPresent st d a = rbind (mapAddressToDirectoryVersion st a) (\<lambda>v. Inr (v = word_of_int (dm_version d)))"

definition mapAddressToLocalIdx :: "ruby_system \<Rightarrow> dir_statics \<Rightarrow> addr \<Rightarrow> u64 result" where
  "mapAddressToLocalIdx rs st a =
     rbind (if 0 < m_num_directories_bits st then rbind (numa_range st) (\<lambda>(small, big). bitRemove a small big) else Inr a)
       (\<lambda>ret. ensure (m_block_size_bits rs < 64) UndefinedShift (Inr (drop_bit (m_block_size_bits rs) ret)))"

definition entry_index :: "ruby_system \<Rightarrow> dir_statics \<Rightarrow> 'e directory_memory \<Rightarrow> addr \<Rightarrow> nat result" where
  "entry_index rs st d a = rbind (DirectoryMemory_isPresent st d a) (\<lambda>p. ensure p AssertFailed (
     rbind (mapAddressToLocalIdx rs st a) (\<lambda>idx. ensure (idx < m_num_entries d) AssertFailed (Inr (unat idx)))))"

definition DirectoryMemory_lookup :: "ruby_system \<Rightarrow> dir_statics \<Rightarrow> 'e directory_memory \<Rightarrow> addr \<Rightarrow> 'e option result" where
  "DirectoryMemory_lookup rs st d a = rbind (entry_index rs st d a) (\<lambda>i. at_pos (m_entries d) i)"

text \<open>The entry is stored after its permission has been changed to \<open>Read_Only\<close>; \<open>perm\<close> changes the
  permission of an entry of the protocol.\<close>

definition DirectoryMemory_allocate :: "(access_permission \<Rightarrow> 'e \<Rightarrow> 'e) \<Rightarrow> ruby_system \<Rightarrow> dir_statics \<Rightarrow>
    'e directory_memory \<Rightarrow> addr \<Rightarrow> 'e \<Rightarrow> ('e \<times> 'e directory_memory) result" where
  "DirectoryMemory_allocate perm rs st d a e = rbind (entry_index rs st d a) (\<lambda>i.
     let e1 = perm AccessPermission_Read_Only e
     in rbind (set_pos (m_entries d) i (Some e1)) (\<lambda>es. Inr (e1, d\<lparr>m_entries := es\<rparr>)))"

section \<open>Addresses and machines\<close>

text \<open>The machines of the protocol MSI_Snooping_One_Level_RT, in the order of its files.\<close>

definition MachineType_L1Cache :: nat where
  "MachineType_L1Cache = 0"

definition MachineType_Directory :: nat where
  "MachineType_Directory = 1"

definition map_Address_to_DirectoryNode :: "dir_statics \<Rightarrow> addr \<Rightarrow> nat result" where
  "map_Address_to_DirectoryNode st a = rbind (mapAddressToDirectoryVersion st a) (\<lambda>v. Inr (unat v))"

definition map_Address_to_Directory :: "dir_statics \<Rightarrow> addr \<Rightarrow> machine_id result" where
  "map_Address_to_Directory st a = rbind (map_Address_to_DirectoryNode st a) (\<lambda>n.
     Inr \<lparr>mach_type = MachineType_Directory, mach_num = n\<rparr>)"

definition broadcast :: "nat list \<Rightarrow> nat \<Rightarrow> net_dest result" where
  "broadcast ct ty = rbind (NetDest_new ct) (\<lambda>d0. rbind (MachineType_base_count ct ty) (\<lambda>n.
     rfold (\<lambda>d i. NetDest_add ct d \<lparr>mach_type = ty, mach_num = i\<rparr>) d0 [0..<n]))"

definition mapAddressToRange :: "addr \<Rightarrow> nat \<Rightarrow> nat \<Rightarrow> nat \<Rightarrow> nat \<Rightarrow> machine_id result" where
  "mapAddressToRange a ty low_bit num_bits cluster_id =
     (if num_bits = 0 then Inr \<lparr>mach_type = ty, mach_num = cluster_id\<rparr>
      else rbind (bitSelect a low_bit (low_bit + num_bits - 1)) (\<lambda>v.
        ensure (num_bits < 31) UndefinedShift (
        Inr \<lparr>mach_type = ty, mach_num = unat (ucast (v + word_of_nat (2 ^ num_bits * cluster_id)) :: u32)\<rparr>)))"

section \<open>Logarithms are right\<close>

lemma floorLog2_long_masks:
  "(0xffffffff00000000 :: u64) = push_bit 32 (mask 32)" "(0xffff0000 :: u64) = push_bit 16 (mask 16)"
  "(0xff00 :: u64) = push_bit 8 (mask 8)" "(0xf0 :: u64) = push_bit 4 (mask 4)" "(0xc :: u64) = push_bit 2 (mask 2)"
  "(0x2 :: u64) = push_bit 1 (mask 1)"
  by (simp_all add: push_bit_eq_mult mask_eq_exp_minus_1)

lemma log_step_inv:
  assumes "floorLog2_inv n j (fst p) (unat (snd p))" and "j = 2 * k" and "m = push_bit k (mask k)"
  shows "floorLog2_inv n k (fst (log_step k m p)) (unat (snd (log_step k m p)))"
  by (rule floorLog2_step [OF assms(1-3)]) (simp add: log_step_def split: prod.split)

lemma floorLog2_long_correct:
  assumes "0 < x"
  shows "\<exists>y. floorLog2_long x = Inr y \<and> 2 ^ y \<le> unat x \<and> unat x < 2 ^ (y + 1)"
proof -
  have "floorLog2_inv (unat x) 64 (fst (0 :: nat, x)) (unat (snd (0 :: nat, x)))"
    using assms unsigned_less [of x] by (simp add: floorLog2_inv_def word_less_nat_alt)
  note inv32 = log_step_inv [OF this _ floorLog2_long_masks(1), simplified]
  note inv16 = log_step_inv [OF inv32 _ floorLog2_long_masks(2), simplified]
  note inv8 = log_step_inv [OF inv16 _ floorLog2_long_masks(3), simplified]
  note inv4 = log_step_inv [OF inv8 _ floorLog2_long_masks(4), simplified]
  note inv2 = log_step_inv [OF inv4 _ floorLog2_long_masks(5), simplified]
  have "floorLog2_inv (unat x) 1 (fst (log_step 1 0x2 (log_step 2 0xc (log_step 4 0xf0 (log_step 8 0xff00
       (log_step 16 0xffff0000 (log_step 32 0xffffffff00000000 (0, x))))))))
     (unat (snd (log_step 1 0x2 (log_step 2 0xc (log_step 4 0xf0 (log_step 8 0xff00
       (log_step 16 0xffff0000 (log_step 32 0xffffffff00000000 (0, x)))))))))"
    by (rule log_step_inv [OF inv2 _ floorLog2_long_masks(6)]) simp
  from floorLog2_inv_end [OF this] show ?thesis using assms by (simp add: floorLog2_long_def)
qed

section \<open>The numbering of the lines\<close>

text \<open>A configuration in which the bits that select the directory lie above the block offset and the
  directory is large enough for its share of the \<open>2 ^ (h + 1)\<close> bytes of memory.\<close>

definition dir_layout :: "ruby_system \<Rightarrow> dir_statics \<Rightarrow> 'e directory_memory \<Rightarrow> nat \<Rightarrow> bool" where
  "dir_layout rs st d h \<longleftrightarrow> ruby_system_wf rs \<and> 0 < m_block_size_bits rs \<and> m_numa_high_bit st = int h \<and> h < 63 \<and>
     m_block_size_bits rs + m_num_directories_bits st \<le> h + 1 \<and>
     unat (m_num_entries d) = 2 ^ (h + 1 - m_num_directories_bits st - m_block_size_bits rs) \<and>
     length (m_entries d) = unat (m_num_entries d)"

lemma dir_version_bits:
  assumes "dir_layout rs st d h"
  shows "\<exists>v. mapAddressToDirectoryVersion st a = Inr v \<and>
    (\<forall>i. bit v i \<longleftrightarrow> i < m_num_directories_bits st \<and> bit a (h + 1 - m_num_directories_bits st + i))"
proof (cases "m_num_directories_bits st = 0")
  case True
  then show ?thesis by (simp add: mapAddressToDirectoryVersion_def)
next
  case False
  let ?small = "h + 1 - m_num_directories_bits st"
  have L: "m_num_directories_bits st \<le> h" "m_numa_high_bit st = int h" "h < 63" "?small \<le> h"
    using assms False by (auto simp: dir_layout_def)
  then have "numa_range st = Inr (?small, h)" by (auto simp: numa_range_def Let_def nat_diff_distrib)
  then have "mapAddressToDirectoryVersion st a = Inr (drop_bit ?small (take_bit (h + 1) a))"
    using False L bitSelect_Inr [of ?small h a] by (simp add: mapAddressToDirectoryVersion_def)
  moreover have "?small + i < h + 1 \<longleftrightarrow> i < m_num_directories_bits st" for i using L by auto
  ultimately show ?thesis by (auto simp: bit_simps)
qed

lemma local_idx_bits:
  assumes "dir_layout rs st d h"
  shows "\<exists>w. mapAddressToLocalIdx rs st a = Inr w \<and>
    (\<forall>i. bit w i \<longleftrightarrow> bit a (if i + m_block_size_bits rs < h + 1 - m_num_directories_bits st then i + m_block_size_bits rs
       else i + m_block_size_bits rs + m_num_directories_bits st))"
proof -
  let ?small = "h + 1 - m_num_directories_bits st"
  have L: "m_num_directories_bits st \<le> h" "m_numa_high_bit st = int h" "h < 63" "0 < ?small" "m_block_size_bits rs < 64"
    using assms by (auto simp: dir_layout_def ruby_system_wf_def)
  show ?thesis
  proof (cases "m_num_directories_bits st = 0")
    case True
    then show ?thesis using L by (auto simp: mapAddressToLocalIdx_def bit_simps add.commute)
  next
    case False
    then have "?small \<le> h" using L by simp
    from bitRemove_bits [OF L(4) this L(3), of a] obtain w where
      w: "bitRemove a ?small h = Inr w" "\<And>i. bit w i \<longleftrightarrow> bit a (if i < ?small then i else i + (h + 1 - ?small))" by blast
    have "numa_range st = Inr (?small, h)" using L by (auto simp: numa_range_def Let_def nat_diff_distrib)
    then have "mapAddressToLocalIdx rs st a = Inr (drop_bit (m_block_size_bits rs) w)"
      using False L w(1) by (simp add: mapAddressToLocalIdx_def)
    moreover have "h + 1 - ?small = m_num_directories_bits st" using L by simp
    ultimately show ?thesis using w(2) by (auto simp: bit_drop_bit_eq add.commute)
  qed
qed

text \<open>The addresses of the memory.\<close>

definition in_memory :: "nat \<Rightarrow> addr \<Rightarrow> bool" where
  "in_memory h a \<longleftrightarrow> unat a < 2 ^ (h + 1)"

lemma in_memory_take: "in_memory h a \<longleftrightarrow> take_bit (h + 1) a = a"
proof
  assume "in_memory h a"
  then have "unat (take_bit (h + 1) a) = unat a"
    by (simp only: unsigned_take_bit_eq in_memory_def take_bit_nat_eq_self)
  then show "take_bit (h + 1) a = a" by (rule unsigned_word_eqI)
next
  assume "take_bit (h + 1) a = a"
  then have "unat a = take_bit (h + 1) (unat a)" by (metis unsigned_take_bit_eq)
  then show "in_memory h a" unfolding in_memory_def by (metis take_bit_nat_less_exp)
qed

lemma in_memory_bit: "in_memory h a \<Longrightarrow> bit a i \<Longrightarrow> i \<le> h"
  by (metis bit_take_bit_iff in_memory_take less_Suc_eq_le Suc_eq_plus1)

lemma local_idx_less:
  assumes "dir_layout rs st d h" and "in_memory h a" and "mapAddressToLocalIdx rs st a = Inr w"
  shows "w < m_num_entries d"
proof -
  let ?n = "h + 1 - m_num_directories_bits st - m_block_size_bits rs"
  have L: "m_block_size_bits rs + m_num_directories_bits st \<le> h + 1" "unat (m_num_entries d) = 2 ^ ?n"
    using assms(1) by (simp_all add: dir_layout_def)
  have w: "bit w i \<longleftrightarrow> bit a (if i + m_block_size_bits rs < h + 1 - m_num_directories_bits st then i + m_block_size_bits rs
       else i + m_block_size_bits rs + m_num_directories_bits st)" for i
    using local_idx_bits [OF assms(1), of a] assms(3) by auto
  have "i < ?n" if "bit w i" for i
  proof (rule ccontr)
    assume "\<not> i < ?n"
    then have "\<not> i + m_block_size_bits rs < h + 1 - m_num_directories_bits st" using L(1) by simp
    then have "bit a (i + m_block_size_bits rs + m_num_directories_bits st)" using w that by simp
    then have "i + m_block_size_bits rs + m_num_directories_bits st \<le> h" by (rule in_memory_bit [OF assms(2)])
    then show False using \<open>\<not> i < ?n\<close> by simp
  qed
  then have "take_bit ?n w = w" by (intro bit_word_eqI) (auto simp: bit_take_bit_iff)
  then have "unat w = take_bit ?n (unat w)" by (metis unsigned_take_bit_eq)
  then have "unat w < 2 ^ ?n" by (metis take_bit_nat_less_exp)
  then show ?thesis by (simp add: word_less_nat_alt L(2))
qed

lemma local_idx_inj:
  assumes "dir_layout rs st d h" and "in_memory h a" and "in_memory h b"
    and "a = line_address rs a" and "b = line_address rs b"
    and "mapAddressToDirectoryVersion st a = mapAddressToDirectoryVersion st b"
    and "mapAddressToLocalIdx rs st a = mapAddressToLocalIdx rs st b"
  shows "a = b"
proof (rule bit_word_eqI)
  fix i
  let ?k = "m_num_directories_bits st" and ?bb = "m_block_size_bits rs"
  have wf: "ruby_system_wf rs" and L: "?bb + ?k \<le> h + 1" using assms(1) by (simp_all add: dir_layout_def)
  have line: "bit a i \<Longrightarrow> ?bb \<le> i" "bit b i \<Longrightarrow> ?bb \<le> i"
    using bit_line_address [OF wf, of a i] bit_line_address [OF wf, of b i] assms(4,5) by simp_all
  have v: "bit a (h + 1 - ?k + j) \<longleftrightarrow> bit b (h + 1 - ?k + j)" if "j < ?k" for j
    using dir_version_bits [OF assms(1), of a] dir_version_bits [OF assms(1), of b] assms(6) that by fastforce
  obtain u where u: "mapAddressToLocalIdx rs st a = Inr u"
    "\<And>j. bit u j \<longleftrightarrow> bit a (if j + ?bb < h + 1 - ?k then j + ?bb else j + ?bb + ?k)"
    using local_idx_bits [OF assms(1), of a] by blast
  have w: "bit a (if j + ?bb < h + 1 - ?k then j + ?bb else j + ?bb + ?k) \<longleftrightarrow>
      bit b (if j + ?bb < h + 1 - ?k then j + ?bb else j + ?bb + ?k)" for j
    using local_idx_bits [OF assms(1), of b] u(1) assms(7) unfolding u(2) [symmetric] by auto
  consider "i < ?bb" | "?bb \<le> i" "i < h + 1 - ?k" | "h + 1 - ?k \<le> i" "i \<le> h" | "h < i" by linarith
  then show "bit a i \<longleftrightarrow> bit b i"
  proof cases
    case 1
    then show ?thesis using line by auto
  next
    case 2
    then show ?thesis using w [of "i - ?bb"] by simp
  next
    case 3
    then have "i - (h + 1 - ?k) < ?k" using L by linarith
    then show ?thesis using v [of "i - (h + 1 - ?k)"] 3 by simp
  next
    case 4
    then show ?thesis using in_memory_bit assms(2,3) by (meson leD)
  qed
qed

lemma entry_index_Inr:
  assumes "dir_layout rs st d h" and "in_memory h a" and "DirectoryMemory_isPresent st d a = Inr True"
  shows "\<exists>w. mapAddressToLocalIdx rs st a = Inr w \<and> entry_index rs st d a = Inr (unat w) \<and> unat w < length (m_entries d)"
proof -
  obtain w where w: "mapAddressToLocalIdx rs st a = Inr w" using local_idx_bits [OF assms(1), of a] by blast
  then show ?thesis using local_idx_less [OF assms(1,2) w] assms(1,3)
    by (simp add: entry_index_def dir_layout_def word_less_nat_alt)
qed


text \<open>Two directories of 1 KB each share a memory of 2 KB; address 1088 is line 1 of the second.\<close>

definition two_directories :: "(dir_statics \<times> nat directory_memory) result" where
  "two_directories = (let rs = ruby64\<lparr>m_memory_size_bits := 11\<rparr> in
     rbind (DirectoryMemory_new dir_statics_new 0 1024 0) (\<lambda>(st, d0). rbind (DirectoryMemory_init rs st d0) (\<lambda>(st, d0 :: nat directory_memory).
     rbind (DirectoryMemory_new st 1 1024 (m_numa_high_bit st)) (\<lambda>(st, d1). DirectoryMemory_init rs st d1))))"


end
