(* ===== verification/Protocol_Messages.thy ===== *)
theory Protocol_Messages
  imports Abstract_Controller Directory_Memory
begin

text \<open>
  The messages of the coherence protocol: src/gem5-stable/src/mem/protocol/MSI_Snooping_One_Level_RT-msg.sm
  and the requests of the processor, src/gem5-stable/src/mem/ruby/slicc_interface/RubyRequest.hh and
  RubyRequest.cc. All buffers of a controller carry one sum type; \<open>peek\<close> with a message type is the
  cast that the protocol compiler emits (src/gem5-stable/src/mem/slicc/ast/PeekStatementAST.py), and its
  assertion fails on a message of another type.
\<close>

section \<open>Coherence messages\<close>

datatype coherence_request_type =
    CoherenceRequestType_GETM | CoherenceRequestType_GETMA | CoherenceRequestType_GETX | CoherenceRequestType_GETS
  | CoherenceRequestType_GETI | CoherenceRequestType_INV | CoherenceRequestType_UPG | CoherenceRequestType_PUTM
  | CoherenceRequestType_GETMATOMICEN | CoherenceRequestType_GETMATOMICST | CoherenceRequestType_WB_ACK
  | CoherenceRequestType_DMA_READ | CoherenceRequestType_DMA_WRITE

datatype coherence_response_type =
    CoherenceResponseType_INV | CoherenceResponseType_ACK | CoherenceResponseType_DATA
  | CoherenceResponseType_DATA_EXCLUSIVE_CLEAN | CoherenceResponseType_DATA_EXCLUSIVE_DIRTY
  | CoherenceResponseType_UNBLOCK | CoherenceResponseType_UNBLOCK_EXCLUSIVE | CoherenceResponseType_WB_ACK
  | CoherenceResponseType_WRITEBACK_CLEAN | CoherenceResponseType_WRITEBACK_DIRTY | CoherenceResponseType_WRITEBACK
  | CoherenceResponseType_DATA_FROM_DIR | CoherenceResponseType_DATA_FROM_OWNER | CoherenceResponseType_DATA_TO_WB
  | CoherenceResponseType_DATA_TO_DIR | CoherenceResponseType_DATA_TO_CACHE | CoherenceResponseType_MEMORY_DATA
  | CoherenceResponseType_MEMORY_ACK

record request_msg =
  rq_Addr :: addr
  rq_Type :: coherence_request_type
  rq_Requestor :: machine_id
  rq_Destination :: net_dest
  rq_DataBlk :: data_block
  rq_MessageSize :: message_size_type
  rq_Len :: int
  rq_Data :: u64
  rq_DataOffset :: u64
  rq_DataSize :: int

record response_msg =
  rp_Addr :: addr
  rp_Type :: coherence_response_type
  rp_Sender :: machine_id
  rp_Destination :: net_dest
  rp_DataBlk :: data_block
  rp_Dirty :: bool
  rp_MessageSize :: message_size_type
  rp_AckCount :: int
  rp_SendTime :: cycles

definition RequestMsg_functionalRead :: "ruby_system \<Rightarrow> request_msg \<Rightarrow> packet \<Rightarrow> (bool \<times> packet) result" where
  "RequestMsg_functionalRead rs m pkt =
     (if rq_Type m = CoherenceRequestType_PUTM then testAndRead rs (rq_Addr m) (rq_DataBlk m) pkt else Inr (False, pkt))"

definition RequestMsg_functionalWrite :: "ruby_system \<Rightarrow> request_msg \<Rightarrow> packet \<Rightarrow> (bool \<times> request_msg) result" where
  "RequestMsg_functionalWrite rs m pkt = rbind (testAndWrite rs (rq_Addr m) (rq_DataBlk m) pkt) (\<lambda>(w, b).
     Inr (w, m\<lparr>rq_DataBlk := b\<rparr>))"

definition ResponseMsg_functionalRead :: "ruby_system \<Rightarrow> response_msg \<Rightarrow> packet \<Rightarrow> (bool \<times> packet) result" where
  "ResponseMsg_functionalRead rs m pkt = testAndRead rs (rp_Addr m) (rp_DataBlk m) pkt"

definition ResponseMsg_functionalWrite :: "ruby_system \<Rightarrow> response_msg \<Rightarrow> packet \<Rightarrow> (bool \<times> response_msg) result" where
  "ResponseMsg_functionalWrite rs m pkt = rbind (testAndWrite rs (rp_Addr m) (rp_DataBlk m) pkt) (\<lambda>(w, b).
     Inr (w, m\<lparr>rp_DataBlk := b\<rparr>))"

section \<open>Requests of the processor\<close>

datatype ruby_access_mode = RubyAccessMode_Supervisor | RubyAccessMode_User | RubyAccessMode_Device

datatype prefetch_bit = PrefetchBit_No | PrefetchBit_Yes | PrefetchBit_L1_HW | PrefetchBit_L2_HW

text \<open>The data pointer is the list of the bytes from it on, \<open>None\<close> when it is null; the packet the request
  stands for is not part of the record.\<close>

record ruby_request =
  rr_PhysicalAddress :: addr
  rr_LineAddress :: addr
  rr_Type :: request_type
  rr_PType :: request_type
  rr_ProgramCounter :: addr
  rr_AccessMode :: ruby_access_mode
  rr_Size :: int
  rr_Prefetch :: prefetch_bit
  rr_Data :: "byte list option"
  rr_Data64Bit :: u64
  rr_contextId :: u32
  rr_Offset :: u64

text \<open>The first eight bytes at the data pointer are read whatever the size of the access, then masked;
  without data the field keeps its indeterminate value \<open>raw\<close>.\<close>

definition data_64bit :: "u64 \<Rightarrow> byte list option \<Rightarrow> int \<Rightarrow> u64 result" where
  "data_64bit raw data len = (case data of
     None \<Rightarrow> Inr raw
   | Some bs \<Rightarrow> ensure (8 \<le> length bs) OutOfBounds (
       let v = le_value (take 8 bs)
       in Inr (if len < 8 then v AND mask (nat (len * 8)) else v)))"

definition RubyRequest_new :: "ruby_system \<Rightarrow> u64 \<Rightarrow> addr \<Rightarrow> byte list option \<Rightarrow> int \<Rightarrow> addr \<Rightarrow> request_type \<Rightarrow> request_type \<Rightarrow>
    ruby_access_mode \<Rightarrow> prefetch_bit \<Rightarrow> u32 \<Rightarrow> ruby_request result" where
  "RubyRequest_new rs raw paddr data len pc ptype type mode pb proc_id =
     rbind (data_64bit raw data len) (\<lambda>v. rbind (getOffset rs paddr) (\<lambda>off.
     Inr \<lparr>rr_PhysicalAddress = paddr, rr_LineAddress = makeLineAddress rs paddr, rr_Type = type, rr_PType = ptype,
          rr_ProgramCounter = pc, rr_AccessMode = mode, rr_Size = len, rr_Prefetch = pb, rr_Data = data,
          rr_Data64Bit = v, rr_contextId = proc_id, rr_Offset = off\<rparr>))"

definition bypassBlocked :: "ruby_request \<Rightarrow> bool" where
  "bypassBlocked m \<longleftrightarrow> rr_Type m = RubyRequestType_Locked_RMW_Write"

definition RubyRequest_functionalRead :: "ruby_request \<Rightarrow> packet \<Rightarrow> bool" where
  "RubyRequest_functionalRead m pkt = False"

text \<open>The bytes of the packet that overlap the request overwrite its data; then the eight bytes at the
  data pointer are read again, without a test of the pointer and without the mask of the constructor.\<close>

definition RubyRequest_functionalWrite :: "ruby_request \<Rightarrow> packet \<Rightarrow> (bool \<times> ruby_request) result" where
  "RubyRequest_functionalWrite m pkt =
     (let wBase = pkt_addr pkt; wTail = wBase + word_of_nat (length (pkt_data pkt));
          mBase = rr_PhysicalAddress m; mTail = mBase + word_of_int (rr_Size m);
          cBase = max wBase mBase; cTail = min wTail mTail
      in rbind (deref (rr_Data m)) (\<lambda>bs.
         rbind (rfold (\<lambda>bs i. rbind (at_pos (pkt_data pkt) (unat (cBase - wBase) + i))
             (\<lambda>x. set_pos bs (unat (cBase - mBase) + i) x)) bs [0..<(if cBase < cTail then unat (cTail - cBase) else 0)]) (\<lambda>bs'.
         ensure (8 \<le> length bs') OutOfBounds (
         Inr (cBase < cTail, m\<lparr>rr_Data := Some bs', rr_Data64Bit := le_value (take 8 bs')\<rparr>)))))"

section \<open>What the buffers of a controller carry\<close>

datatype coherence_msg =
    RequestMsg request_msg | ResponseMsg response_msg | MandatoryMsg ruby_request | MemoryMsg memory_msg

fun as_request :: "coherence_msg \<Rightarrow> request_msg result" where
  "as_request (RequestMsg m) = Inr m"
| "as_request _ = Inl AssertFailed"

fun as_response :: "coherence_msg \<Rightarrow> response_msg result" where
  "as_response (ResponseMsg m) = Inr m"
| "as_response _ = Inl AssertFailed"

fun as_mandatory :: "coherence_msg \<Rightarrow> ruby_request result" where
  "as_mandatory (MandatoryMsg m) = Inr m"
| "as_mandatory _ = Inl AssertFailed"

fun as_memory :: "coherence_msg \<Rightarrow> memory_msg result" where
  "as_memory (MemoryMsg m) = Inr m"
| "as_memory _ = Inl AssertFailed"

lemmas as_msg_defs = as_request.simps as_response.simps as_mandatory.simps as_memory.simps

end
