(* ===== verification/L1_Protocol.thy ===== *)
theory L1_Protocol
  imports Cache_Memory
begin

text \<open>
  The L1 cache's side of the coherence protocol: the states, events, actions and transitions of
  src/gem5-stable/src/mem/protocol/MSI_Snooping_One_Level_RT-cache.sm. The transition table lists the
  \<open>transition\<close> declarations of the file in their order: source states, events, actions and, where the
  state changes, the next state. The actions themselves are in \<open>L1_Controller\<close>. The lemmas are about the
  table: it is deterministic, the states that can be reached from the initial one are known, and every
  completed transaction wakes the requests it may have stalled.
\<close>

section \<open>States, events, actions\<close>

datatype (plugins only: code) l1_state =
    L1_NP | L1_I | L1_S | L1_M | L1_IS_AD | L1_IS_D | L1_IS_DI | L1_IS_A | L1_IM_AD | L1_IM_D | L1_IM_A |
    L1_IM_DS | L1_IM_DI | L1_IM_DSI | L1_SM | L1_IS_I | L1_IM_S | L1_IM_SI | L1_SM_I | L1_SM_S | L1_SM_SI |
    L1_SM_AD | L1_SM_A | L1_SM_D | L1_SM_DS | L1_SM_DSI | L1_SM_DI | L1_M_I | L1_MI_A | L1_MS_A | L1_II_A |
    L1_I_I | L1_SM_W | L1_IM_W | L1_MS_WB | L1_MI_WB | L1_M_L | L1_SM_WL | L1_IM_WL | L1_IM_ADL | L1_IM_DL |
    L1_IM_AL

datatype (plugins only: code) l1_event =
    Ev_Load | Ev_Store | Ev_Ifetch | Ev_RMW_Read | Ev_RMW_Write | Ev_Replacement | Ev_Load_Approx |
    Ev_Store_Approx | Ev_Other_GETS | Ev_Other_GETM | Ev_Other_GETM_Approx | Ev_Other_GETI | Ev_Other_PUTM |
    Ev_OWN_GETS | Ev_OWN_GETM | Ev_OWN_GETI | Ev_OWN_PUTM | Ev_OWN_UPG | Ev_Other_UPG | Ev_INV | Ev_ATOMICST |
    Ev_ATOMICEN | Ev_Data | Ev_Ack

datatype (plugins only: code) l1_action =
    as_issueGETSMem | ai_issueGETINSTR | bm_issueGETMR | bm_issueUpg | bam_issueGETM | bm_issueGETM |
    bam_issueGETMATOMICST | bam_issueGETMATOMICEN | bpm_issuePUTM | bpm_issuePUTMR | bpm_issuePUTMD |
    cc_sendDataCacheToDir | ct_sendDataTBEToDir | r_load_hit | rx_load_hit | s_store_hit | sx_store_hit |
    sx_atomic_store_hit_set | sx_atomic_store_hit_unset | i_allocateAtomicTBE | i_allocateTBE |
    k_popMandatoryQueue | setStartTime | setStartTimeCE | copyStartTimeCETBE | l_popRequestQueue |
    l_popRequestWBQueue | l_popAtomicRequestQueue | o_popIncomingResponseQueue | s_deallocateTBE |
    u_writeDataToL1Cache | ff_deallocateL1CacheBlock | oo_allocateAtomicL1DCacheBlock |
    oo_allocateL1DCacheBlock | pp_allocateL1ICacheBlock | z_stallAndWaitMandatoryQueue |
    z_stallAndWaitRequestQueue | z_stallAndWaitRequestWBQueue | kd_wakeUpDependents | ka_wakeUpAllDependents |
    uu_profileInstMiss | uu_profileInstHit | uu_profileDataMiss | uu_profileDataHit |
    uu_profileIstate_othergetM | uu_profilecoherence_inv | setBlocked | setUnblocked

fun L1Cache_State_to_permission :: "l1_state \<Rightarrow> access_permission" where
  "L1Cache_State_to_permission L1_NP = AccessPermission_Invalid"
| "L1Cache_State_to_permission L1_I = AccessPermission_Invalid"
| "L1Cache_State_to_permission L1_S = AccessPermission_Read_Only"
| "L1Cache_State_to_permission L1_M = AccessPermission_Read_Write"
| "L1Cache_State_to_permission L1_IS_AD = AccessPermission_Busy"
| "L1Cache_State_to_permission L1_IS_D = AccessPermission_Busy"
| "L1Cache_State_to_permission L1_IS_DI = AccessPermission_Busy"
| "L1Cache_State_to_permission L1_IS_A = AccessPermission_Busy"
| "L1Cache_State_to_permission L1_IM_AD = AccessPermission_Busy"
| "L1Cache_State_to_permission L1_IM_D = AccessPermission_Busy"
| "L1Cache_State_to_permission L1_IM_A = AccessPermission_Busy"
| "L1Cache_State_to_permission L1_IM_DS = AccessPermission_Busy"
| "L1Cache_State_to_permission L1_IM_DI = AccessPermission_Busy"
| "L1Cache_State_to_permission L1_IM_DSI = AccessPermission_Busy"
| "L1Cache_State_to_permission L1_SM = AccessPermission_Read_Only"
| "L1Cache_State_to_permission L1_IS_I = AccessPermission_Busy"
| "L1Cache_State_to_permission L1_IM_S = AccessPermission_Busy"
| "L1Cache_State_to_permission L1_IM_SI = AccessPermission_Busy"
| "L1Cache_State_to_permission L1_SM_I = AccessPermission_Read_Only"
| "L1Cache_State_to_permission L1_SM_S = AccessPermission_Read_Only"
| "L1Cache_State_to_permission L1_SM_SI = AccessPermission_Read_Only"
| "L1Cache_State_to_permission L1_SM_AD = AccessPermission_Read_Only"
| "L1Cache_State_to_permission L1_SM_A = AccessPermission_Read_Only"
| "L1Cache_State_to_permission L1_SM_D = AccessPermission_Read_Only"
| "L1Cache_State_to_permission L1_SM_DS = AccessPermission_Read_Only"
| "L1Cache_State_to_permission L1_SM_DSI = AccessPermission_Read_Only"
| "L1Cache_State_to_permission L1_SM_DI = AccessPermission_Read_Only"
| "L1Cache_State_to_permission L1_M_I = AccessPermission_Read_Only"
| "L1Cache_State_to_permission L1_MI_A = AccessPermission_Read_Only"
| "L1Cache_State_to_permission L1_MS_A = AccessPermission_Read_Only"
| "L1Cache_State_to_permission L1_II_A = AccessPermission_Read_Only"
| "L1Cache_State_to_permission L1_I_I = AccessPermission_Busy"
| "L1Cache_State_to_permission L1_SM_W = AccessPermission_Busy"
| "L1Cache_State_to_permission L1_IM_W = AccessPermission_Busy"
| "L1Cache_State_to_permission L1_MS_WB = AccessPermission_Busy"
| "L1Cache_State_to_permission L1_MI_WB = AccessPermission_Busy"
| "L1Cache_State_to_permission L1_M_L = AccessPermission_Busy"
| "L1Cache_State_to_permission L1_SM_WL = AccessPermission_Busy"
| "L1Cache_State_to_permission L1_IM_WL = AccessPermission_Busy"
| "L1Cache_State_to_permission L1_IM_ADL = AccessPermission_Busy"
| "L1Cache_State_to_permission L1_IM_DL = AccessPermission_Busy"
| "L1Cache_State_to_permission L1_IM_AL = AccessPermission_Busy"

section \<open>Transitions\<close>

type_synonym l1_decl = "l1_state list \<times> l1_event list \<times> l1_action list \<times> l1_state option"

definition l1_transitions :: "l1_decl list" where
  "l1_transitions = [
     ([L1_I], [Ev_INV],
      [l_popRequestQueue], None),
     ([L1_IS_AD, L1_IS_D, L1_IS_A, L1_IS_DI, L1_IM_AD, L1_IM_D, L1_IM_A, L1_IM_DI, L1_IM_DS, L1_IM_DSI,
       L1_SM_AD, L1_SM_D, L1_SM_A, L1_SM_DI, L1_SM_DS, L1_SM_DSI, L1_MI_A, L1_II_A], [Ev_INV],
      [z_stallAndWaitRequestQueue], None),
     ([L1_MS_WB], [Ev_Ack],
      [o_popIncomingResponseQueue, ka_wakeUpAllDependents], Some L1_S),
     ([L1_MS_WB, L1_MI_WB], [Ev_Store, Ev_Load, Ev_Replacement],
      [z_stallAndWaitMandatoryQueue], None),
     ([L1_MS_WB, L1_MI_WB], [Ev_Other_GETS, Ev_Other_GETM],
      [z_stallAndWaitRequestQueue], None),
     ([L1_MS_WB, L1_MI_WB], [Ev_Other_PUTM],
      [z_stallAndWaitRequestWBQueue], None),
     ([L1_I], [Ev_Load],
      [oo_allocateL1DCacheBlock, i_allocateTBE, uu_profileDataMiss, as_issueGETSMem, setStartTime],
       Some L1_IS_AD),
     ([L1_I], [Ev_Ifetch],
      [pp_allocateL1ICacheBlock, i_allocateTBE, uu_profileInstMiss, ai_issueGETINSTR, setStartTime],
       Some L1_IS_AD),
     ([L1_I], [Ev_Store],
      [oo_allocateL1DCacheBlock, i_allocateTBE, uu_profileDataMiss, bm_issueGETM, setStartTime], Some L1_IM_AD),
     ([L1_IS_AD], [Ev_OWN_GETS, Ev_OWN_GETI],
      [l_popRequestQueue], Some L1_IS_D),
     ([L1_IM_AD], [Ev_OWN_GETM],
      [l_popRequestQueue], Some L1_IM_D),
     ([L1_IS_D], [Ev_Data],
      [u_writeDataToL1Cache, r_load_hit, s_deallocateTBE, o_popIncomingResponseQueue, kd_wakeUpDependents,
       ka_wakeUpAllDependents], Some L1_S),
     ([L1_IM_D, L1_IM_DI], [Ev_OWN_GETM],
      [l_popRequestQueue], None),
     ([L1_IM_D], [Ev_Data],
      [u_writeDataToL1Cache, s_store_hit, s_deallocateTBE, o_popIncomingResponseQueue, kd_wakeUpDependents,
       ka_wakeUpAllDependents], Some L1_M),
     ([L1_IS_D], [Ev_Other_GETM],
      [uu_profilecoherence_inv, l_popRequestQueue], Some L1_IS_DI),
     ([L1_IS_D], [Ev_Other_UPG],
      [l_popRequestQueue], Some L1_IS_DI),
     ([L1_IS_DI], [Ev_Data],
      [u_writeDataToL1Cache, r_load_hit, s_deallocateTBE, o_popIncomingResponseQueue,
       ff_deallocateL1CacheBlock, kd_wakeUpDependents, ka_wakeUpAllDependents], Some L1_I),
     ([L1_IS_AD], [Ev_Data],
      [u_writeDataToL1Cache, s_deallocateTBE, o_popIncomingResponseQueue], Some L1_IS_A),
     ([L1_IS_A], [Ev_OWN_GETS, Ev_OWN_GETI],
      [r_load_hit, l_popRequestQueue, kd_wakeUpDependents, ka_wakeUpAllDependents], Some L1_S),
     ([L1_IM_AD], [Ev_Data],
      [u_writeDataToL1Cache, s_deallocateTBE, o_popIncomingResponseQueue], Some L1_IM_A),
     ([L1_IM_A], [Ev_OWN_GETM],
      [s_store_hit, l_popRequestQueue, kd_wakeUpDependents, ka_wakeUpAllDependents], Some L1_M),
     ([L1_IM_D], [Ev_Other_GETS, Ev_Other_GETI],
      [l_popRequestQueue], Some L1_IM_DS),
     ([L1_IM_DS], [Ev_Data],
      [u_writeDataToL1Cache, s_deallocateTBE, s_store_hit, bpm_issuePUTMD, o_popIncomingResponseQueue],
       Some L1_MS_A),
     ([L1_IM_D], [Ev_Other_GETM],
      [uu_profilecoherence_inv, l_popRequestQueue], Some L1_IM_DI),
     ([L1_IM_D], [Ev_Other_UPG],
      [l_popRequestQueue], None),
     ([L1_IM_DI], [Ev_Data],
      [u_writeDataToL1Cache, s_deallocateTBE, s_store_hit, bpm_issuePUTMD, o_popIncomingResponseQueue],
       Some L1_MI_A),
     ([L1_IM_DS], [Ev_Other_GETM, Ev_Other_UPG],
      [uu_profilecoherence_inv, l_popRequestQueue], Some L1_IM_DI),
     ([L1_IM_DS, L1_SM_DS], [Ev_Other_GETS],
      [l_popRequestQueue], None),
     ([L1_IM_DSI], [Ev_Data],
      [u_writeDataToL1Cache, s_deallocateTBE, s_store_hit, cc_sendDataCacheToDir, ff_deallocateL1CacheBlock,
       o_popIncomingResponseQueue, kd_wakeUpDependents, ka_wakeUpAllDependents], Some L1_I),
     ([L1_S], [Ev_Other_GETM],
      [uu_profilecoherence_inv, ff_deallocateL1CacheBlock, l_popRequestQueue], Some L1_I),
     ([L1_S], [Ev_Store],
      [bm_issueUpg, setStartTimeCE], Some L1_SM_W),
     ([L1_SM_W], [Ev_OWN_UPG],
      [sx_store_hit, l_popRequestQueue, kd_wakeUpDependents, ka_wakeUpAllDependents], Some L1_M),
     ([L1_SM_W], [Ev_Store, Ev_Load, Ev_Replacement],
      [z_stallAndWaitMandatoryQueue], None),
     ([L1_SM_W], [Ev_Other_GETS],
      [l_popRequestQueue], None),
     ([L1_SM_W, L1_IM_W], [Ev_Other_PUTM],
      [l_popRequestWBQueue], None),
     ([L1_SM_W], [Ev_Other_UPG, Ev_Other_GETM],
      [l_popRequestQueue], Some L1_IM_W),
     ([L1_IM_W], [Ev_OWN_UPG],
      [bm_issueGETMR, i_allocateTBE, copyStartTimeCETBE, l_popRequestQueue], Some L1_IM_D),
     ([L1_S], [Ev_Other_UPG],
      [ff_deallocateL1CacheBlock, l_popRequestQueue], Some L1_I),
     ([L1_I], [Ev_Other_UPG],
      [l_popRequestQueue], None),
     ([L1_SM_AD], [Ev_OWN_GETM],
      [l_popRequestQueue], Some L1_SM_D),
     ([L1_SM_D], [Ev_Data],
      [u_writeDataToL1Cache, sx_store_hit, s_deallocateTBE, o_popIncomingResponseQueue, kd_wakeUpDependents,
       ka_wakeUpAllDependents], Some L1_M),
     ([L1_SM_AD], [Ev_Other_GETM, Ev_Other_UPG],
      [uu_profilecoherence_inv, l_popRequestQueue], Some L1_IM_AD),
     ([L1_SM_AD], [Ev_Data],
      [u_writeDataToL1Cache, s_deallocateTBE, o_popIncomingResponseQueue], Some L1_SM_A),
     ([L1_SM_A], [Ev_OWN_GETM],
      [sx_store_hit, l_popRequestQueue, kd_wakeUpDependents, ka_wakeUpAllDependents], Some L1_M),
     ([L1_SM_A], [Ev_Other_GETM],
      [uu_profilecoherence_inv, l_popRequestQueue], Some L1_IM_A),
     ([L1_SM_D], [Ev_Other_GETS, Ev_Other_GETI],
      [l_popRequestQueue], Some L1_SM_DS),
     ([L1_SM_D], [Ev_Other_GETM, Ev_Other_UPG],
      [uu_profilecoherence_inv, l_popRequestQueue], Some L1_SM_DI),
     ([L1_SM_DS], [Ev_Data],
      [u_writeDataToL1Cache, sx_store_hit, s_deallocateTBE, o_popIncomingResponseQueue, cc_sendDataCacheToDir,
       kd_wakeUpDependents, ka_wakeUpAllDependents], Some L1_S),
     ([L1_SM_DSI], [Ev_Data],
      [u_writeDataToL1Cache, sx_store_hit, s_deallocateTBE, o_popIncomingResponseQueue, cc_sendDataCacheToDir,
       ff_deallocateL1CacheBlock, kd_wakeUpDependents, ka_wakeUpAllDependents], Some L1_I),
     ([L1_SM_DI], [Ev_Data],
      [u_writeDataToL1Cache, sx_store_hit, s_deallocateTBE, o_popIncomingResponseQueue, cc_sendDataCacheToDir,
       ff_deallocateL1CacheBlock, kd_wakeUpDependents, ka_wakeUpAllDependents], Some L1_I),
     ([L1_SM_DS], [Ev_Other_GETM],
      [uu_profilecoherence_inv, l_popRequestQueue], Some L1_SM_DSI),
     ([L1_M], [Ev_Other_GETM, Ev_Other_UPG],
      [bpm_issuePUTMR, l_popRequestQueue], Some L1_MI_A),
     ([L1_M], [Ev_Other_GETI, Ev_Other_GETS],
      [bpm_issuePUTMR, l_popRequestQueue], Some L1_MS_A),
     ([L1_M], [Ev_Replacement],
      [bpm_issuePUTM, z_stallAndWaitMandatoryQueue], Some L1_MI_A),
     ([L1_MI_A, L1_MS_A], [Ev_Replacement],
      [z_stallAndWaitMandatoryQueue], None),
     ([L1_MS_A], [Ev_Ifetch, Ev_Load, Ev_Store, Ev_RMW_Read],
      [z_stallAndWaitMandatoryQueue], None),
     ([L1_S], [Ev_INV, Ev_Replacement],
      [ff_deallocateL1CacheBlock], Some L1_I),
     ([L1_MI_A], [Ev_OWN_PUTM],
      [i_allocateTBE, ct_sendDataTBEToDir, ff_deallocateL1CacheBlock, l_popRequestWBQueue,
       ka_wakeUpAllDependents, kd_wakeUpDependents, s_deallocateTBE], Some L1_I),
     ([L1_MS_A], [Ev_OWN_PUTM],
      [i_allocateTBE, ct_sendDataTBEToDir, l_popRequestWBQueue, ka_wakeUpAllDependents, kd_wakeUpDependents,
       s_deallocateTBE], Some L1_S),
     ([L1_M], [Ev_INV],
      [i_allocateTBE, ct_sendDataTBEToDir, ff_deallocateL1CacheBlock, l_popRequestQueue,
       ka_wakeUpAllDependents, kd_wakeUpDependents, s_deallocateTBE], Some L1_I),
     ([L1_MI_A], [Ev_Other_GETS, Ev_Other_GETI, Ev_Other_GETM, Ev_Other_UPG],
      [l_popRequestQueue], None),
     ([L1_MS_A], [Ev_Other_GETM],
      [l_popRequestQueue], Some L1_MI_A),
     ([L1_MS_A], [Ev_Other_UPG],
      [l_popRequestQueue], None),
     ([L1_MS_A], [Ev_Other_GETS, Ev_Other_GETI],
      [l_popRequestQueue], None),
     ([L1_I], [Ev_Other_GETM],
      [uu_profileIstate_othergetM, l_popRequestQueue], None),
     ([L1_I], [Ev_Other_GETS, Ev_Other_GETI],
      [l_popRequestQueue], None),
     ([L1_S, L1_IS_D], [Ev_Other_GETI, Ev_Other_GETS],
      [l_popRequestQueue], None),
     ([L1_II_A], [Ev_OWN_PUTM],
      [ff_deallocateL1CacheBlock, l_popRequestWBQueue, ka_wakeUpAllDependents, kd_wakeUpDependents], Some L1_I),
     ([L1_IS_AD, L1_IS_D, L1_IS_A, L1_IS_DI, L1_IM_AD, L1_IM_D, L1_IM_A, L1_IM_DI, L1_IM_DS, L1_IM_DSI,
       L1_II_A], [Ev_Load, Ev_Ifetch, Ev_Store, Ev_Replacement, Ev_RMW_Read, Ev_RMW_Write],
      [z_stallAndWaitMandatoryQueue], None),
     ([L1_IS_AD, L1_IM_AD, L1_IM_A, L1_IM_AL, L1_II_A], [Ev_Other_GETS, Ev_Other_GETI, Ev_Other_UPG],
      [l_popRequestQueue], None),
     ([L1_IS_AD, L1_IM_AD, L1_IM_A, L1_IM_AL, L1_II_A], [Ev_Other_PUTM],
      [l_popRequestWBQueue], None),
     ([L1_IS_AD, L1_IM_AD, L1_IM_A, L1_II_A, L1_IM_AL], [Ev_Other_GETM],
      [uu_profileIstate_othergetM, l_popRequestQueue], None),
     ([L1_IM_DI, L1_IS_A, L1_IM_DSI, L1_SM_DI, L1_SM_DSI, L1_IS_DI, L1_IM_W, L1_IM_WL], [Ev_Other_GETS,
       Ev_Other_GETI],
      [l_popRequestQueue], None),
     ([L1_IM_DI, L1_IS_A, L1_IM_DSI, L1_SM_DI, L1_SM_DSI, L1_IS_DI, L1_IM_W], [Ev_Other_GETM, Ev_Other_UPG],
      [uu_profileIstate_othergetM, l_popRequestQueue], None),
     ([L1_S, L1_SM_DS, L1_SM_AD, L1_SM_D, L1_SM_A, L1_SM_DI, L1_SM_DSI, L1_M, L1_MI_A], [Ev_Load],
      [rx_load_hit, uu_profileDataHit, k_popMandatoryQueue], None),
     ([L1_S, L1_SM_DS, L1_SM_AD, L1_SM_D, L1_SM_A, L1_SM_DI, L1_SM_DSI, L1_M, L1_MI_A], [Ev_Ifetch],
      [rx_load_hit, uu_profileInstHit, k_popMandatoryQueue], None),
     ([L1_SM_AD, L1_SM_D, L1_SM_A, L1_SM_DI, L1_SM_DSI, L1_SM_DS], [Ev_Replacement, Ev_Store],
      [z_stallAndWaitMandatoryQueue], None),
     ([L1_M, L1_MI_A], [Ev_Store],
      [sx_store_hit, uu_profileDataHit, k_popMandatoryQueue], None),
     ([L1_MI_A], [Ev_RMW_Read],
      [z_stallAndWaitMandatoryQueue], None),
     ([L1_I, L1_S], [Ev_Other_PUTM],
      [l_popRequestWBQueue], None),
     ([L1_I, L1_II_A, L1_S], [Ev_Data],
      [o_popIncomingResponseQueue], None),
     ([L1_SM_AD, L1_SM_A], [Ev_Other_GETS],
      [l_popRequestQueue], None),
     ([L1_M], [Ev_Data],
      [o_popIncomingResponseQueue], None),
     ([L1_M], [Ev_RMW_Read],
      [bam_issueGETMATOMICST, sx_atomic_store_hit_set, uu_profileDataHit, k_popMandatoryQueue], Some L1_M_L),
     ([L1_I], [Ev_RMW_Read],
      [oo_allocateAtomicL1DCacheBlock, i_allocateAtomicTBE, uu_profileDataMiss, bam_issueGETM,
       bam_issueGETMATOMICST, k_popMandatoryQueue], Some L1_IM_DL),
     ([L1_IM_ADL], [Ev_Data],
      [u_writeDataToL1Cache, s_deallocateTBE, o_popIncomingResponseQueue], Some L1_IM_AL),
     ([L1_IM_AL], [Ev_OWN_GETM],
      [sx_atomic_store_hit_set, l_popRequestQueue], Some L1_M_L),
     ([L1_S], [Ev_RMW_Read],
      [uu_profileDataMiss, bm_issueUpg, bam_issueGETMATOMICST, k_popMandatoryQueue], Some L1_SM_WL),
     ([L1_SM_WL], [Ev_OWN_UPG],
      [sx_atomic_store_hit_set, l_popRequestQueue], Some L1_M_L),
     ([L1_SM_WL, L1_IM_WL], [Ev_Other_UPG, Ev_Other_GETM],
      [l_popRequestQueue], Some L1_IM_WL),
     ([L1_SM_WL, L1_IM_WL], [Ev_Other_PUTM],
      [l_popRequestWBQueue], Some L1_IM_WL),
     ([L1_SM_WL], [Ev_Other_GETS],
      [l_popRequestQueue], None),
     ([L1_IM_WL], [Ev_OWN_UPG],
      [bm_issueGETMR, i_allocateTBE, l_popRequestQueue], Some L1_IM_DL),
     ([L1_IM_DL], [Ev_OWN_GETM],
      [l_popRequestQueue], None),
     ([L1_IM_ADL], [Ev_Other_GETS, Ev_Other_GETM, Ev_Other_UPG],
      [l_popRequestQueue], None),
     ([L1_IM_ADL, L1_IM_DL, L1_M_L], [Ev_Other_PUTM],
      [l_popRequestWBQueue], None),
     ([L1_IM_DL, L1_M_L], [Ev_Other_GETS, Ev_Other_GETM, Ev_Other_UPG],
      [z_stallAndWaitRequestQueue], None),
     ([L1_IM_ADL, L1_IM_DL, L1_SM_WL, L1_M_L], [Ev_Load, Ev_Store, Ev_Replacement, Ev_RMW_Read],
      [z_stallAndWaitMandatoryQueue], None),
     ([L1_IM_DL], [Ev_Data],
      [u_writeDataToL1Cache, sx_atomic_store_hit_set, s_deallocateTBE, o_popIncomingResponseQueue], Some L1_M_L),
     ([L1_M_L], [Ev_RMW_Write],
      [bam_issueGETMATOMICEN, sx_atomic_store_hit_unset, uu_profileDataHit, k_popMandatoryQueue,
       ka_wakeUpAllDependents, kd_wakeUpDependents], Some L1_M),
     ([L1_I, L1_M, L1_S, L1_IS_AD, L1_IS_D, L1_IS_DI, L1_IS_A, L1_IM_AD, L1_IM_D, L1_IM_A, L1_IM_DS, L1_IM_DI,
       L1_IM_DSI, L1_SM, L1_IS_I, L1_IM_S, L1_IM_SI, L1_SM_I, L1_SM_S, L1_SM_SI, L1_SM_AD, L1_SM_A, L1_SM_D,
       L1_SM_DS, L1_SM_DSI, L1_SM_DI, L1_M_I, L1_MI_A, L1_MS_A, L1_II_A, L1_I_I, L1_SM_W, L1_IM_W, L1_MS_WB,
       L1_SM_WL, L1_M_L, L1_IM_ADL, L1_IM_WL, L1_IM_DL, L1_IM_AL], [Ev_ATOMICST],
      [setBlocked, l_popAtomicRequestQueue], None),
     ([L1_I, L1_M, L1_S, L1_IS_AD, L1_IS_D, L1_IS_DI, L1_IS_A, L1_IM_AD, L1_IM_D, L1_IM_A, L1_IM_DS, L1_IM_DI,
       L1_IM_DSI, L1_SM, L1_IS_I, L1_IM_S, L1_IM_SI, L1_SM_I, L1_SM_S, L1_SM_SI, L1_SM_AD, L1_SM_A, L1_SM_D,
       L1_SM_DS, L1_SM_DSI, L1_SM_DI, L1_M_I, L1_MI_A, L1_MS_A, L1_II_A, L1_I_I, L1_SM_W, L1_IM_W, L1_MS_WB,
       L1_SM_WL, L1_IM_DL, L1_IM_ADL, L1_IM_WL, L1_M_L, L1_IM_AL], [Ev_ATOMICEN],
      [setUnblocked, l_popAtomicRequestQueue], None),
     ([L1_IM_D, L1_IM_DI, L1_M, L1_IS_D, L1_IS_DI, L1_MI_A, L1_MS_A, L1_IM_DS, L1_IM_DSI], [Ev_Other_PUTM],
      [l_popRequestWBQueue], None)]"

text \<open>What the generated switch does for a state and an event: the actions and the next state, or nothing
  for a pair without a declaration, where it stops with \<open>Invalid transition\<close>.\<close>

definition l1_row :: "l1_state \<Rightarrow> l1_event \<Rightarrow> (l1_action list \<times> l1_state) option" where
  "l1_row s e = map_option (\<lambda>(_, _, acts, n). (acts, case n of None \<Rightarrow> s | Some s' \<Rightarrow> s'))
     (find (\<lambda>(ss, es, _). s \<in> set ss \<and> e \<in> set es) l1_transitions)"

end
