(* ===== verification/L1_Controller.thy ===== *)
theory L1_Controller
  imports Protocol_Messages L1_Protocol TDM_Schedule
begin

text \<open>
  The L1 cache controller: the state, ports, functions and actions of
  src/gem5-stable/src/mem/protocol/MSI_Snooping_One_Level_RT-cache.sm, and the code that the protocol
  compiler wraps around them: \<open>doTransition\<close> and \<open>doTransitionWorker\<close>
  (src/gem5-stable/src/mem/slicc/symbols/StateMachine.py), \<open>trigger\<close> (ast/FuncCallExprAST.py), \<open>peek\<close> with
  \<open>block_on\<close> (ast/PeekStatementAST.py) and \<open>enqueue\<close> (ast/EnqueueStatementAST.py).

  The input buffers and the tables of stalled messages are those of \<open>Abstract_Controller\<close>, the two caches
  those of \<open>Cache_Memory\<close>, the transaction table that of \<open>Ruby_Tables\<close>. An entry of a cache has its
  permission, address and data in the cache and the fields of the protocol in a map from addresses; a line
  is in at most one of the two caches, which \<open>getState\<close> asserts. A pointer to the entry or the transaction
  of the address at hand is a truth value, false for null. Messages sent and calls on the sequencer are
  returned as effects. What \<open>writeCallback\<close> of the sequencer leaves in the block is a function of the
  environment. Statistics counters are left out.
\<close>

section \<open>State\<close>

datatype l1_port = atomicRequestNetwork_in | responseNetwork_in | requestNetwork_in | requestNetworkWB_in | mandatoryQueue_in

datatype l1_out = requestNetwork_out | requestNetworkWB_out | responseNetwork_out | atomicRequestNetwork_out

fun l1_rank :: "l1_port \<Rightarrow> nat" where
  "l1_rank atomicRequestNetwork_in = 1"
| "l1_rank responseNetwork_in = 1"
| "l1_rank requestNetwork_in = 0"
| "l1_rank requestNetworkWB_in = 0"
| "l1_rank mandatoryQueue_in = 0"

record l1_entry =
  ce_State :: l1_state
  ce_Dirty :: bool
  ce_finalDestination :: machine_id
  ce_finalDestinationSet :: net_dest
  ce_isAtomic :: bool
  ce_startTime :: cycles
  ce_endTime :: cycles
  ce_arbitLatency :: cycles
  ce_interCoreCohLatency :: cycles
  ce_intraCoreCohLatency :: cycles
  ce_firstScheduledTime :: cycles
  ce_CoreID :: int
  ce_zeroArb :: bool

record l1_tbe =
  tbe_Addr :: addr
  tbe_State :: l1_state
  tbe_DataBlk :: data_block
  tbe_Dirty :: bool
  tbe_pendingAcks :: int
  tbe_isAtomic :: bool
  tbe_startTime :: cycles
  tbe_endTime :: cycles
  tbe_arbitLatency :: cycles
  tbe_interCoreCohLatency :: cycles
  tbe_intraCoreCohLatency :: cycles
  tbe_firstScheduledTime :: cycles
  tbe_CoreID :: int
  tbe_zeroArb :: bool

record l1_ctrl =
  l1_ctl :: "(l1_port, coherence_msg) controller"
  Dcache :: cache_memory
  Icache :: cache_memory
  l1_entries :: "addr \<Rightarrow> l1_entry option"
  TBEs :: "l1_tbe tbe_table"
  is_blocked :: int

text \<open>The environment of a transition: the tick, the configuration, the answer of
  \<open>areNSlotsAvailable\<close> for the output buffers, the effect of the sequencer on a written block, and the
  values of what a constructor leaves open.\<close>

record l1_env =
  le_now :: tick
  le_rs :: ruby_system
  le_ct :: "nat list"
  le_dir :: dir_statics
  le_machineID :: machine_id
  l1_request_latency :: cycles
  l1_response_latency :: cycles
  le_slots :: "l1_out \<Rightarrow> nat \<Rightarrow> bool"
  le_write :: "addr \<Rightarrow> data_block \<Rightarrow> data_block"
  le_rnd :: "cycles \<times> cycles \<times> cycles"
  le_request0 :: request_msg
  le_response0 :: response_msg
  le_block0 :: data_block
  le_int0 :: int

datatype l1_effect =
    SendMsg l1_out coherence_msg cycles
  | ReadCallback addr data_block bool
  | WriteCallback addr data_block bool
  | Wake consumer_call
  | ScheduleEvent cycles

definition l1_entry_new :: "l1_env \<Rightarrow> l1_entry result" where
  "l1_entry_new env = rbind (NetDest_new (le_ct env)) (\<lambda>d.
     Inr \<lparr>ce_State = L1_I, ce_Dirty = False, ce_finalDestination = le_machineID env, ce_finalDestinationSet = d,
          ce_isAtomic = False, ce_startTime = 0, ce_endTime = 0, ce_arbitLatency = 0, ce_interCoreCohLatency = 0,
          ce_intraCoreCohLatency = 0, ce_firstScheduledTime = 0, ce_CoreID = le_int0 env, ce_zeroArb = False\<rparr>)"

definition l1_tbe_new :: "l1_env \<Rightarrow> l1_tbe" where
  "l1_tbe_new env = \<lparr>tbe_Addr = 0, tbe_State = L1_I, tbe_DataBlk = le_block0 env, tbe_Dirty = False, tbe_pendingAcks = 0,
     tbe_isAtomic = False, tbe_startTime = 0, tbe_endTime = 0, tbe_arbitLatency = 0, tbe_interCoreCohLatency = 0,
     tbe_intraCoreCohLatency = 0, tbe_firstScheduledTime = 0, tbe_CoreID = le_int0 env, tbe_zeroArb = False\<rparr>"

section \<open>Access through pointers\<close>

definition entry_update :: "ruby_system \<Rightarrow> cache_memory \<Rightarrow> addr \<Rightarrow> (cache_entry \<Rightarrow> cache_entry) \<Rightarrow> cache_memory result" where
  "entry_update rs c a f = rbind (present_line rs c a) (\<lambda>(st, i, e). cache_put c st i (Some (f e)))"

definition modify_line :: "l1_env \<Rightarrow> l1_ctrl \<Rightarrow> addr \<Rightarrow> (cache_entry \<Rightarrow> cache_entry) \<Rightarrow> l1_ctrl result" where
  "modify_line env c a f = rbind (isTagPresent (le_rs env) (Dcache c) a) (\<lambda>d.
     if d then rbind (entry_update (le_rs env) (Dcache c) a f) (\<lambda>m. Inr (c\<lparr>Dcache := m\<rparr>))
     else rbind (entry_update (le_rs env) (Icache c) a f) (\<lambda>m. Inr (c\<lparr>Icache := m\<rparr>)))"

definition line_block :: "l1_env \<Rightarrow> l1_ctrl \<Rightarrow> addr \<Rightarrow> data_block result" where
  "line_block env c a = rbind (isTagPresent (le_rs env) (Dcache c) a) (\<lambda>d.
     rbind (present_line (le_rs env) (if d then Dcache c else Icache c) a) (\<lambda>(st, i, e). Inr (DataBlk e)))"

definition modify_entry :: "l1_ctrl \<Rightarrow> addr \<Rightarrow> (l1_entry \<Rightarrow> l1_entry) \<Rightarrow> l1_ctrl result" where
  "modify_entry c a f = rbind (deref (l1_entries c a)) (\<lambda>e. Inr (c\<lparr>l1_entries := (l1_entries c)(a \<mapsto> f e)\<rparr>))"

definition modify_tbe :: "l1_ctrl \<Rightarrow> addr \<Rightarrow> (l1_tbe \<Rightarrow> l1_tbe) \<Rightarrow> l1_ctrl result" where
  "modify_tbe c a f = rbind (deref (TBETable_lookup (TBEs c) a)) (\<lambda>t.
     Inr (c\<lparr>TBEs := (TBEs c)\<lparr>tbe_map := AList.update a (f t) (tbe_map (TBEs c))\<rparr>\<rparr>))"

section \<open>Functions of the machine\<close>

definition getL1CacheEntry :: "l1_env \<Rightarrow> l1_ctrl \<Rightarrow> addr \<Rightarrow> bool result" where
  "getL1CacheEntry env c a = rbind (CacheMemory_lookup (le_rs env) (Dcache c) a) (\<lambda>d.
     if d \<noteq> None then Inr True else rbind (CacheMemory_lookup (le_rs env) (Icache c) a) (\<lambda>i. Inr (i \<noteq> None)))"

definition tbe_valid :: "l1_ctrl \<Rightarrow> addr \<Rightarrow> bool" where
  "tbe_valid c a \<longleftrightarrow> TBETable_lookup (TBEs c) a \<noteq> None"

definition isAtomic :: "l1_env \<Rightarrow> l1_ctrl \<Rightarrow> addr \<Rightarrow> bool result" where
  "isAtomic env c a = rbind (getL1CacheEntry env c a) (\<lambda>v.
     if v then rbind (deref (l1_entries c a)) (\<lambda>e. Inr (ce_isAtomic e)) else Inr False)"

definition one_cache :: "l1_env \<Rightarrow> l1_ctrl \<Rightarrow> addr \<Rightarrow> unit result" where
  "one_cache env c a = rbind (isTagPresent (le_rs env) (Dcache c) a) (\<lambda>d.
     rbind (if d then isTagPresent (le_rs env) (Icache c) a else Inr False) (\<lambda>both. ensure (\<not> both) AssertFailed (Inr ())))"

definition getState :: "l1_env \<Rightarrow> l1_ctrl \<Rightarrow> bool \<Rightarrow> bool \<Rightarrow> addr \<Rightarrow> l1_state result" where
  "getState env c tbe entry a = rbind (one_cache env c a) (\<lambda>_.
     if tbe then rbind (deref (TBETable_lookup (TBEs c) a)) (\<lambda>t. Inr (tbe_State t))
     else if entry then rbind (deref (l1_entries c a)) (\<lambda>e. Inr (ce_State e))
     else Inr L1_I)"

definition is_dataSendState :: "l1_state \<Rightarrow> bool" where
  "is_dataSendState s \<longleftrightarrow> s = L1_M \<or> s = L1_IM_D \<or> s = L1_SM_D \<or> s = L1_MI_A"

definition is_dataWaitingState :: "l1_state \<Rightarrow> bool" where
  "is_dataWaitingState s \<longleftrightarrow> s = L1_IM_D \<or> s = L1_SM_D \<or> s = L1_M"

definition is_atomicInvariant :: "l1_state \<Rightarrow> bool" where
  "is_atomicInvariant s \<longleftrightarrow> \<not> (s = L1_M \<or> s = L1_S \<or> s = L1_I)"

definition setState :: "l1_env \<Rightarrow> l1_ctrl \<Rightarrow> bool \<Rightarrow> bool \<Rightarrow> addr \<Rightarrow> l1_state \<Rightarrow> l1_ctrl result" where
  "setState env c tbe entry a s = rbind (one_cache env c a) (\<lambda>_.
     rbind (if tbe then modify_tbe c a (\<lambda>t. t\<lparr>tbe_State := s\<rparr>) else Inr c) (\<lambda>c1.
     if entry then modify_entry c1 a (\<lambda>e. e\<lparr>ce_State := s\<rparr>) else Inr c1))"

definition getAccessPermission :: "l1_env \<Rightarrow> l1_ctrl \<Rightarrow> addr \<Rightarrow> access_permission result" where
  "getAccessPermission env c a = (case TBETable_lookup (TBEs c) a of
     Some t \<Rightarrow> Inr (L1Cache_State_to_permission (tbe_State t))
   | None \<Rightarrow> rbind (getL1CacheEntry env c a) (\<lambda>v.
       if v then rbind (deref (l1_entries c a)) (\<lambda>e. Inr (L1Cache_State_to_permission (ce_State e)))
       else Inr AccessPermission_NotPresent))"

definition l1_functionalRead :: "l1_env \<Rightarrow> l1_ctrl \<Rightarrow> addr \<Rightarrow> packet \<Rightarrow> (bool \<times> packet) result" where
  "l1_functionalRead env c a pkt = (case TBETable_lookup (TBEs c) a of
     Some t \<Rightarrow> testAndRead (le_rs env) a (tbe_DataBlk t) pkt
   | None \<Rightarrow> rbind (getL1CacheEntry env c a) (\<lambda>v. ensure v NullDereference (
       rbind (line_block env c a) (\<lambda>b. testAndRead (le_rs env) a b pkt))))"

definition l1_functionalWrite :: "l1_env \<Rightarrow> l1_ctrl \<Rightarrow> addr \<Rightarrow> packet \<Rightarrow> (int \<times> l1_ctrl) result" where
  "l1_functionalWrite env c a pkt = (case TBETable_lookup (TBEs c) a of
     Some t \<Rightarrow> rbind (testAndWrite (le_rs env) a (tbe_DataBlk t) pkt) (\<lambda>(w, b).
       rbind (modify_tbe c a (\<lambda>t. t\<lparr>tbe_DataBlk := b\<rparr>)) (\<lambda>c'. Inr (of_bool w, c')))
   | None \<Rightarrow> rbind (getL1CacheEntry env c a) (\<lambda>v. ensure v NullDereference (
       rbind (line_block env c a) (\<lambda>b0. rbind (testAndWrite (le_rs env) a b0 pkt) (\<lambda>(w, b).
       rbind (modify_line env c a (\<lambda>e. e\<lparr>DataBlk := b\<rparr>)) (\<lambda>c'. Inr (of_bool w, c')))))))"

definition setAccessPermission :: "l1_env \<Rightarrow> l1_ctrl \<Rightarrow> bool \<Rightarrow> addr \<Rightarrow> l1_state \<Rightarrow> l1_ctrl result" where
  "setAccessPermission env c entry a s =
     (if entry then modify_line env c a (\<lambda>e. AbstractCacheEntry_changePermission e (L1Cache_State_to_permission s)) else Inr c)"

definition mandatory_request_type_to_event :: "request_type \<Rightarrow> l1_event result" where
  "mandatory_request_type_to_event ty = (case ty of
     RubyRequestType_LD \<Rightarrow> Inr Ev_Load | RubyRequestType_LD_SHARED \<Rightarrow> Inr Ev_Load
   | RubyRequestType_LD_APPROX \<Rightarrow> Inr Ev_Load_Approx | RubyRequestType_IFETCH \<Rightarrow> Inr Ev_Ifetch
   | RubyRequestType_ST \<Rightarrow> Inr Ev_Store | RubyRequestType_ATOMIC \<Rightarrow> Inr Ev_Store | RubyRequestType_ST_SHARED \<Rightarrow> Inr Ev_Store
   | RubyRequestType_ST_APPROX \<Rightarrow> Inr Ev_Store_Approx
   | RubyRequestType_Locked_RMW_Read \<Rightarrow> Inr Ev_RMW_Read | RubyRequestType_Locked_RMW_Write \<Rightarrow> Inr Ev_RMW_Write
   | _ \<Rightarrow> Inl Panicked)"

section \<open>Actions\<close>

text \<open>The local state of a transition: the controller, the two pointers and the effects so far.\<close>

record l1_ctx =
  cx_c :: l1_ctrl
  cx_tbe :: bool
  cx_entry :: bool
  cx_effects :: "l1_effect list"

definition cx_lift :: "l1_ctx \<Rightarrow> l1_ctrl result \<Rightarrow> l1_ctx result" where
  "cx_lift cx r = rbind r (\<lambda>c. Inr (cx\<lparr>cx_c := c\<rparr>))"

definition emit :: "l1_effect list \<Rightarrow> l1_ctx \<Rightarrow> l1_ctx" where
  "emit es cx = cx\<lparr>cx_effects := cx_effects cx @ es\<rparr>"

definition l1_buf :: "l1_ctx \<Rightarrow> l1_port \<Rightarrow> coherence_msg message_buffer" where
  "l1_buf cx p = ac_buf (l1_ctl (cx_c cx)) p"

definition peek_port :: "l1_ctx \<Rightarrow> l1_port \<Rightarrow> coherence_msg result" where
  "peek_port cx p = rbind (MessageBuffer_peek (l1_buf cx p)) (\<lambda>m. Inr (payload m))"

definition dequeue_port :: "l1_env \<Rightarrow> l1_port \<Rightarrow> l1_ctx \<Rightarrow> (cycles \<times> l1_ctx) result" where
  "dequeue_port env p cx = rbind (MessageBuffer_dequeue (le_now env) (l1_buf cx p)) (\<lambda>(t, m, b).
     Inr (t, cx\<lparr>cx_c := (cx_c cx)\<lparr>l1_ctl := set_buf (l1_ctl (cx_c cx)) p b\<rparr>\<rparr>))"

definition pop_port :: "l1_env \<Rightarrow> l1_port \<Rightarrow> l1_ctx \<Rightarrow> l1_ctx result" where
  "pop_port env p cx = rbind (dequeue_port env p cx) (\<lambda>(_, cx'). Inr cx')"

definition with_entry :: "l1_ctx \<Rightarrow> addr \<Rightarrow> (l1_entry \<Rightarrow> l1_entry) \<Rightarrow> l1_ctx result" where
  "with_entry cx a f = ensure (cx_entry cx) NullDereference (cx_lift cx (modify_entry (cx_c cx) a f))"

definition with_tbe :: "l1_ctx \<Rightarrow> addr \<Rightarrow> (l1_tbe \<Rightarrow> l1_tbe) \<Rightarrow> l1_ctx result" where
  "with_tbe cx a f = ensure (cx_tbe cx) NullDereference (cx_lift cx (modify_tbe (cx_c cx) a f))"

definition entry_block :: "l1_env \<Rightarrow> l1_ctx \<Rightarrow> addr \<Rightarrow> data_block result" where
  "entry_block env cx a = ensure (cx_entry cx) NullDereference (line_block env (cx_c cx) a)"

text \<open>Requests: to all L1 caches and the directory of the address, or, for atomic sections, to the other L1
  caches.\<close>

definition new_request :: "l1_env \<Rightarrow> addr \<Rightarrow> coherence_request_type \<Rightarrow> net_dest \<Rightarrow> request_msg" where
  "new_request env a ty d = (le_request0 env)\<lparr>rq_Addr := a, rq_Type := ty, rq_Requestor := le_machineID env,
     rq_Destination := d, rq_MessageSize := MessageSizeType_Control\<rparr>"

definition request_to_all :: "l1_env \<Rightarrow> addr \<Rightarrow> coherence_request_type \<Rightarrow> request_msg result" where
  "request_to_all env a ty =
     rbind (NetDest_new (le_ct env)) (\<lambda>d0. rbind (NetDest_broadcast_type (le_ct env) d0 MachineType_L1Cache) (\<lambda>d1.
     rbind (map_Address_to_Directory (le_dir env) a) (\<lambda>m. rbind (NetDest_add (le_ct env) d1 m) (\<lambda>d2.
     Inr (new_request env a ty d2)))))"

definition request_to_others :: "l1_env \<Rightarrow> addr \<Rightarrow> coherence_request_type \<Rightarrow> request_msg result" where
  "request_to_others env a ty =
     rbind (NetDest_new (le_ct env)) (\<lambda>d0. rbind (NetDest_broadcast_type (le_ct env) d0 MachineType_L1Cache) (\<lambda>d1.
     rbind (NetDest_remove (le_ct env) d1 (le_machineID env)) (\<lambda>d2. Inr (new_request env a ty d2))))"

definition with_data :: "ruby_request \<Rightarrow> request_msg \<Rightarrow> request_msg" where
  "with_data r m = m\<lparr>rq_Data := rr_Data64Bit r, rq_DataOffset := rr_Offset r, rq_DataSize := rr_Size r\<rparr>"

definition send_request :: "l1_env \<Rightarrow> l1_out \<Rightarrow> l1_ctx \<Rightarrow> request_msg \<Rightarrow> l1_ctx" where
  "send_request env out cx m = emit [SendMsg out (RequestMsg m) (l1_request_latency env)] cx"

definition issue_plain :: "l1_env \<Rightarrow> l1_ctx \<Rightarrow> addr \<Rightarrow> coherence_request_type \<Rightarrow> l1_ctx result" where
  "issue_plain env cx a ty = rbind (peek_port cx mandatoryQueue_in) (\<lambda>p. rbind (as_mandatory p) (\<lambda>_.
     rbind (request_to_all env a ty) (\<lambda>m. Inr (send_request env requestNetwork_out cx m))))"

definition issue_data :: "l1_env \<Rightarrow> l1_ctx \<Rightarrow> addr \<Rightarrow> coherence_request_type \<Rightarrow> l1_ctx result" where
  "issue_data env cx a ty = rbind (peek_port cx mandatoryQueue_in) (\<lambda>p. rbind (as_mandatory p) (\<lambda>r.
     rbind (request_to_all env a ty) (\<lambda>m. Inr (send_request env requestNetwork_out cx (with_data r m)))))"

definition issue_atomic :: "l1_env \<Rightarrow> l1_ctx \<Rightarrow> addr \<Rightarrow> coherence_request_type \<Rightarrow> l1_ctx result" where
  "issue_atomic env cx a ty = rbind (peek_port cx mandatoryQueue_in) (\<lambda>p. rbind (as_mandatory p) (\<lambda>_.
     rbind (request_to_others env a ty) (\<lambda>m. Inr (send_request env atomicRequestNetwork_out cx m))))"

definition issue_putm :: "l1_env \<Rightarrow> l1_ctx \<Rightarrow> addr \<Rightarrow> l1_ctx result" where
  "issue_putm env cx a = rbind (request_to_all env a CoherenceRequestType_PUTM) (\<lambda>m. rbind (entry_block env cx a) (\<lambda>b.
     Inr (send_request env requestNetworkWB_out cx (m\<lparr>rq_DataBlk := b\<rparr>))))"

text \<open>Data to the directory.\<close>

definition send_data :: "l1_env \<Rightarrow> l1_ctx \<Rightarrow> addr \<Rightarrow> data_block \<Rightarrow> l1_ctx result" where
  "send_data env cx a b = rbind (NetDest_new (le_ct env)) (\<lambda>d0. rbind (map_Address_to_Directory (le_dir env) a) (\<lambda>m.
     rbind (NetDest_add (le_ct env) d0 m) (\<lambda>d.
     Inr (emit [SendMsg responseNetwork_out (ResponseMsg ((le_response0 env)\<lparr>rp_Addr := a,
       rp_Type := CoherenceResponseType_DATA_TO_WB, rp_Sender := le_machineID env, rp_Destination := d, rp_DataBlk := b,
       rp_MessageSize := MessageSizeType_Control\<rparr>)) (l1_response_latency env)] cx))))"

text \<open>The sequencer's callbacks.\<close>

definition load_hit :: "l1_env \<Rightarrow> l1_ctx \<Rightarrow> addr \<Rightarrow> bool \<Rightarrow> l1_ctx result" where
  "load_hit env cx a initial = ensure (cx_entry cx) AssertFailed (
     rbind (entry_block env cx a) (\<lambda>b. Inr (emit [ReadCallback a b initial] cx)))"

definition store_hit :: "l1_env \<Rightarrow> l1_ctx \<Rightarrow> addr \<Rightarrow> bool \<Rightarrow> (l1_entry \<Rightarrow> l1_entry) \<Rightarrow> l1_ctx result" where
  "store_hit env cx a initial f = ensure (cx_entry cx) AssertFailed (
     rbind (entry_block env cx a) (\<lambda>b.
     rbind (cx_lift (emit [WriteCallback a b initial] cx) (modify_line env (cx_c cx) a (\<lambda>e. e\<lparr>DataBlk := le_write env a b\<rparr>))) (\<lambda>cx1.
     with_entry cx1 a (\<lambda>e. f (e\<lparr>ce_Dirty := True\<rparr>)))))"

text \<open>Transactions.\<close>

definition allocate_tbe :: "l1_env \<Rightarrow> l1_ctx \<Rightarrow> addr \<Rightarrow> bool \<Rightarrow> l1_ctx result" where
  "allocate_tbe env cx a atomic = ensure (cx_entry cx) AssertFailed (
     rbind (TBETable_allocate (le_rs env) (l1_tbe_new env) (TBEs (cx_c cx)) a) (\<lambda>t.
     let cx1 = cx\<lparr>cx_c := (cx_c cx)\<lparr>TBEs := t\<rparr>, cx_tbe := TBETable_lookup t a \<noteq> None\<rparr>
     in rbind (deref (l1_entries (cx_c cx1) a)) (\<lambda>e. rbind (entry_block env cx1 a) (\<lambda>b.
        with_tbe cx1 a (\<lambda>t. t\<lparr>tbe_Dirty := ce_Dirty e, tbe_DataBlk := b, tbe_isAtomic := atomic\<rparr>)))))"

definition write_data :: "l1_env \<Rightarrow> l1_ctx \<Rightarrow> addr \<Rightarrow> l1_ctx result" where
  "write_data env cx a = rbind (peek_port cx responseNetwork_in) (\<lambda>p. rbind (as_response p) (\<lambda>m.
     ensure (cx_entry cx) AssertFailed (
     rbind (cx_lift cx (modify_line env (cx_c cx) a (\<lambda>e. e\<lparr>DataBlk := rp_DataBlk m\<rparr>))) (\<lambda>cx1.
     rbind (with_entry cx1 a (\<lambda>e. e\<lparr>ce_Dirty := rp_Dirty m\<rparr>)) (\<lambda>cx2.
     ensure (cx_tbe cx2) NullDereference (
     rbind (deref (TBETable_lookup (TBEs (cx_c cx2)) a)) (\<lambda>t.
     rbind (Cycles_minus (rp_SendTime m) (tbe_firstScheduledTime t)) (\<lambda>inter.
     rbind (NetDest_smallestNodeID (rp_Destination m)) (\<lambda>core.
     rbind (case getArbitLatency (tbe_startTime t) (int core) (tbe_zeroArb t) of None \<Rightarrow> Inl NoReturn | Some r \<Rightarrow> r) (\<lambda>arbit.
     with_tbe cx2 a (\<lambda>t. t\<lparr>tbe_interCoreCohLatency := inter, tbe_CoreID := int core, tbe_arbitLatency := arbit\<rparr>)))))))))))"

text \<open>The caches.\<close>

definition allocate_d :: "l1_env \<Rightarrow> l1_ctx \<Rightarrow> addr \<Rightarrow> l1_ctx result" where
  "allocate_d env cx a = (if cx_entry cx then Inr cx else
     rbind (l1_entry_new env) (\<lambda>e. rbind (CacheMemory_allocate (le_now env) (le_rs env) (Dcache (cx_c cx)) a
         (AbstractCacheEntry_new (le_block0 env))) (\<lambda>(_, m).
     Inr (cx\<lparr>cx_c := (cx_c cx)\<lparr>Dcache := m, l1_entries := (l1_entries (cx_c cx))(a \<mapsto> e)\<rparr>, cx_entry := True\<rparr>))))"

definition allocate_i :: "l1_env \<Rightarrow> l1_ctx \<Rightarrow> addr \<Rightarrow> l1_ctx result" where
  "allocate_i env cx a = (if cx_entry cx then Inr cx else
     rbind (l1_entry_new env) (\<lambda>e. rbind (CacheMemory_allocate (le_now env) (le_rs env) (Icache (cx_c cx)) a
         (AbstractCacheEntry_new (le_block0 env))) (\<lambda>(_, m).
     Inr (cx\<lparr>cx_c := (cx_c cx)\<lparr>Icache := m, l1_entries := (l1_entries (cx_c cx))(a \<mapsto> e)\<rparr>, cx_entry := True\<rparr>))))"

definition deallocate_line :: "l1_env \<Rightarrow> l1_ctx \<Rightarrow> addr \<Rightarrow> l1_ctx result" where
  "deallocate_line env cx a = rbind (isTagPresent (le_rs env) (Dcache (cx_c cx)) a) (\<lambda>d.
     rbind (if d then rbind (CacheMemory_deallocate (le_rs env) (Dcache (cx_c cx)) a) (\<lambda>m. Inr ((cx_c cx)\<lparr>Dcache := m\<rparr>))
            else rbind (CacheMemory_deallocate (le_rs env) (Icache (cx_c cx)) a) (\<lambda>m. Inr ((cx_c cx)\<lparr>Icache := m\<rparr>))) (\<lambda>c.
     Inr (cx\<lparr>cx_c := c\<lparr>l1_entries := (l1_entries c)(a := None)\<rparr>, cx_entry := False\<rparr>)))"

text \<open>Stalling and waking.\<close>

definition stall_port :: "l1_env \<Rightarrow> l1_port \<Rightarrow> l1_ctx \<Rightarrow> addr \<Rightarrow> l1_ctx result" where
  "stall_port env p cx a = rbind (stall_and_wait (le_now env) (le_rs env) (l1_ctl (cx_c cx)) p a) (\<lambda>k.
     Inr (cx\<lparr>cx_c := (cx_c cx)\<lparr>l1_ctl := k\<rparr>\<rparr>))"

definition wake_with :: "l1_env \<Rightarrow> l1_ctx \<Rightarrow> addr \<Rightarrow>
    ((l1_port, coherence_msg) controller \<Rightarrow> ((l1_port, coherence_msg) controller \<times> consumer_call list) result) \<Rightarrow> l1_ctx result" where
  "wake_with env cx a f = rbind (isAtomic env (cx_c cx) a) (\<lambda>at. if at then Inr cx else
     rbind (f (l1_ctl (cx_c cx))) (\<lambda>(k, calls). Inr (emit (map Wake calls) (cx\<lparr>cx_c := (cx_c cx)\<lparr>l1_ctl := k\<rparr>\<rparr>))))"

text \<open>The actions that some transition uses.\<close>

fun do_action :: "l1_env \<Rightarrow> addr \<Rightarrow> l1_action \<Rightarrow> l1_ctx \<Rightarrow> l1_ctx result" where
  "do_action env a as_issueGETSMem cx = issue_plain env cx a CoherenceRequestType_GETS"
| "do_action env a ai_issueGETINSTR cx = issue_plain env cx a CoherenceRequestType_GETI"
| "do_action env a bm_issueGETMR cx = rbind (peek_port cx requestNetwork_in) (\<lambda>p. rbind (as_request p) (\<lambda>_.
     rbind (request_to_all env a CoherenceRequestType_GETM) (\<lambda>m.
     Inr (send_request env requestNetwork_out cx (m\<lparr>rq_Destination := NetDest_makeSidePacket (rq_Destination m)\<rparr>)))))"
| "do_action env a bm_issueUpg cx = issue_data env cx a CoherenceRequestType_UPG"
| "do_action env a bam_issueGETM cx = issue_data env cx a CoherenceRequestType_GETM"
| "do_action env a bm_issueGETM cx = issue_data env cx a CoherenceRequestType_GETM"
| "do_action env a bam_issueGETMATOMICST cx = issue_atomic env cx a CoherenceRequestType_GETMATOMICST"
| "do_action env a bam_issueGETMATOMICEN cx = issue_atomic env cx a CoherenceRequestType_GETMATOMICEN"
| "do_action env a bpm_issuePUTM cx = rbind (peek_port cx mandatoryQueue_in) (\<lambda>p. rbind (as_mandatory p) (\<lambda>_. issue_putm env cx a))"
| "do_action env a bpm_issuePUTMR cx = rbind (peek_port cx requestNetwork_in) (\<lambda>p. rbind (as_request p) (\<lambda>_. issue_putm env cx a))"
| "do_action env a bpm_issuePUTMD cx = issue_putm env cx a"
| "do_action env a cc_sendDataCacheToDir cx = ensure (cx_entry cx) AssertFailed (rbind (entry_block env cx a) (send_data env cx a))"
| "do_action env a ct_sendDataTBEToDir cx = ensure (cx_tbe cx) AssertFailed (
     rbind (deref (TBETable_lookup (TBEs (cx_c cx)) a)) (\<lambda>t. send_data env cx a (tbe_DataBlk t)))"
| "do_action env a r_load_hit cx = load_hit env cx a False"
| "do_action env a rx_load_hit cx = load_hit env cx a True"
| "do_action env a s_store_hit cx = store_hit env cx a False (\<lambda>e. e)"
| "do_action env a sx_store_hit cx = store_hit env cx a True (\<lambda>e. e)"
| "do_action env a sx_atomic_store_hit_set cx = store_hit env cx a True (\<lambda>e. e\<lparr>ce_isAtomic := True\<rparr>)"
| "do_action env a sx_atomic_store_hit_unset cx = store_hit env cx a True (\<lambda>e. e\<lparr>ce_isAtomic := False\<rparr>)"
| "do_action env a i_allocateAtomicTBE cx = allocate_tbe env cx a True"
| "do_action env a i_allocateTBE cx = allocate_tbe env cx a False"
| "do_action env a k_popMandatoryQueue cx = pop_port env mandatoryQueue_in cx"
| "do_action env a setStartTime cx = rbind (dequeue_port env mandatoryQueue_in cx) (\<lambda>(t, cx1). with_tbe cx1 a (\<lambda>b. b\<lparr>tbe_startTime := t\<rparr>))"
| "do_action env a setStartTimeCE cx = rbind (dequeue_port env mandatoryQueue_in cx) (\<lambda>(t, cx1). with_entry cx1 a (\<lambda>e. e\<lparr>ce_startTime := t\<rparr>))"
| "do_action env a copyStartTimeCETBE cx = ensure (cx_entry cx) NullDereference (
     rbind (deref (l1_entries (cx_c cx) a)) (\<lambda>e. with_tbe cx a (\<lambda>b. b\<lparr>tbe_startTime := ce_startTime e\<rparr>)))"
| "do_action env a l_popRequestQueue cx = pop_port env requestNetwork_in cx"
| "do_action env a l_popRequestWBQueue cx = pop_port env requestNetworkWB_in cx"
| "do_action env a l_popAtomicRequestQueue cx = pop_port env atomicRequestNetwork_in cx"
| "do_action env a o_popIncomingResponseQueue cx = pop_port env responseNetwork_in cx"
| "do_action env a s_deallocateTBE cx = rbind (TBETable_deallocate (le_rs env) (TBEs (cx_c cx)) a) (\<lambda>t.
     Inr (cx\<lparr>cx_c := (cx_c cx)\<lparr>TBEs := t\<rparr>, cx_tbe := False\<rparr>))"
| "do_action env a u_writeDataToL1Cache cx = write_data env cx a"
| "do_action env a ff_deallocateL1CacheBlock cx = deallocate_line env cx a"
| "do_action env a oo_allocateAtomicL1DCacheBlock cx = rbind (allocate_d env cx a) (\<lambda>cx1. with_entry cx1 a (\<lambda>e. e\<lparr>ce_isAtomic := True\<rparr>))"
| "do_action env a oo_allocateL1DCacheBlock cx = allocate_d env cx a"
| "do_action env a pp_allocateL1ICacheBlock cx = allocate_i env cx a"
| "do_action env a z_stallAndWaitMandatoryQueue cx = stall_port env mandatoryQueue_in cx a"
| "do_action env a z_stallAndWaitRequestQueue cx = stall_port env requestNetwork_in cx a"
| "do_action env a z_stallAndWaitRequestWBQueue cx = stall_port env requestNetworkWB_in cx a"
| "do_action env a kd_wakeUpDependents cx = wake_with env cx a (\<lambda>k. wakeUpBuffers (le_now env) k a)"
| "do_action env a ka_wakeUpAllDependents cx = wake_with env cx a (wakeUpAllBuffers (le_now env))"
| "do_action env a uu_profileInstMiss cx = Inr cx"
| "do_action env a uu_profileInstHit cx = Inr cx"
| "do_action env a uu_profileDataMiss cx = Inr cx"
| "do_action env a uu_profileDataHit cx = Inr cx"
| "do_action env a uu_profileIstate_othergetM cx = Inr cx"
| "do_action env a uu_profilecoherence_inv cx = rbind (peek_port cx requestNetwork_in) (\<lambda>p. rbind (as_request p) (\<lambda>m.
     rbind (NetDest_isElement (le_ct env) (rq_Destination m) (le_machineID env)) (\<lambda>i. ensure i AssertFailed (Inr cx))))"
| "do_action env a setBlocked cx = Inr (cx\<lparr>cx_c := (cx_c cx)\<lparr>is_blocked := is_blocked (cx_c cx) + 1\<rparr>\<rparr>)"
| "do_action env a setUnblocked cx = Inr (cx\<lparr>cx_c := (cx_c cx)\<lparr>is_blocked := is_blocked (cx_c cx) - 1\<rparr>\<rparr>)"

section \<open>Transitions\<close>

text \<open>The resources an action needs: a place in an output buffer for every \<open>enqueue\<close>, a place in the
  transaction table for every \<open>check_allocate\<close>. A transition needs the sum over its actions.\<close>

definition out_needs :: "l1_action \<Rightarrow> l1_out list" where
  "out_needs act = (case act of
     as_issueGETSMem \<Rightarrow> [requestNetwork_out] | ai_issueGETINSTR \<Rightarrow> [requestNetwork_out] | bm_issueGETMR \<Rightarrow> [requestNetwork_out]
   | bm_issueUpg \<Rightarrow> [requestNetwork_out] | bam_issueGETM \<Rightarrow> [requestNetwork_out] | bm_issueGETM \<Rightarrow> [requestNetwork_out]
   | bam_issueGETMATOMICST \<Rightarrow> [atomicRequestNetwork_out] | bam_issueGETMATOMICEN \<Rightarrow> [atomicRequestNetwork_out]
   | bpm_issuePUTM \<Rightarrow> [requestNetworkWB_out] | bpm_issuePUTMR \<Rightarrow> [requestNetworkWB_out] | bpm_issuePUTMD \<Rightarrow> [requestNetworkWB_out]
   | cc_sendDataCacheToDir \<Rightarrow> [responseNetwork_out] | ct_sendDataTBEToDir \<Rightarrow> [responseNetwork_out]
   | _ \<Rightarrow> [])"

definition tbe_needs :: "l1_action \<Rightarrow> nat" where
  "tbe_needs act = (case act of i_allocateTBE \<Rightarrow> 1 | i_allocateAtomicTBE \<Rightarrow> 1 | _ \<Rightarrow> 0)"

definition resources_available :: "l1_env \<Rightarrow> l1_ctrl \<Rightarrow> l1_action list \<Rightarrow> bool" where
  "resources_available env c acts \<longleftrightarrow>
     (let outs = concat (map out_needs acts); tbes = sum_list (map tbe_needs acts)
      in list_all (\<lambda>p. le_slots env p (count_list outs p)) outs \<and>
         (tbes = 0 \<or> TBETable_areNSlotsAvailable (TBEs c) (int tbes)))"

datatype transition_result = TransitionResult_Valid | TransitionResult_ResourceStall

definition doTransitionWorker :: "l1_env \<Rightarrow> l1_event \<Rightarrow> l1_state \<Rightarrow> l1_ctx \<Rightarrow> addr \<Rightarrow>
    (transition_result \<times> l1_state \<times> l1_ctx) result" where
  "doTransitionWorker env ev s cx a = (case l1_row s ev of
     None \<Rightarrow> Inl Panicked
   | Some (acts, s') \<Rightarrow>
       if \<not> resources_available env (cx_c cx) acts then Inr (TransitionResult_ResourceStall, s', cx)
       else rbind (rfold (\<lambda>cx act. do_action env a act cx) cx acts) (\<lambda>cx'. Inr (TransitionResult_Valid, s', cx')))"

definition doTransition :: "l1_env \<Rightarrow> l1_event \<Rightarrow> bool \<Rightarrow> bool \<Rightarrow> addr \<Rightarrow> l1_ctrl \<Rightarrow>
    (transition_result \<times> l1_ctrl \<times> l1_effect list) result" where
  "doTransition env ev entry tbe a c = rbind (getState env c tbe entry a) (\<lambda>s.
     rbind (doTransitionWorker env ev s \<lparr>cx_c = c, cx_tbe = tbe, cx_entry = entry, cx_effects = []\<rparr> a) (\<lambda>(res, s', cx).
     case res of
       TransitionResult_ResourceStall \<Rightarrow> Inr (res, c, [])
     | TransitionResult_Valid \<Rightarrow>
         rbind (setState env (cx_c cx) (cx_tbe cx) (cx_entry cx) a s') (\<lambda>c1.
         rbind (setAccessPermission env c1 (cx_entry cx) a s') (\<lambda>c2. Inr (res, c2, cx_effects cx)))))"

text \<open>\<open>trigger\<close> looks up the two pointers of the address and runs the transition.\<close>

definition trigger :: "l1_env \<Rightarrow> l1_event \<Rightarrow> addr \<Rightarrow> l1_ctrl \<Rightarrow> (transition_result \<times> l1_ctrl \<times> l1_effect list) result" where
  "trigger env ev a c = rbind (getL1CacheEntry env c a) (\<lambda>entry. doTransition env ev entry (tbe_valid c a) a c)"

section \<open>Input ports\<close>

text \<open>What a port does with its first message: nothing, start over at the first port, or a transition. A
  transition without resources has the controller scheduled for the next cycle.\<close>

datatype port_result =
    Fall_Through
  | Start_Over
  | Triggered transition_result

type_synonym port_step = "port_result \<times> l1_ctrl \<times> l1_effect list"

definition triggered :: "(transition_result \<times> l1_ctrl \<times> l1_effect list) result \<Rightarrow> port_step result" where
  "triggered r = rbind r (\<lambda>(res, c, es).
     Inr (Triggered res, c, if res = TransitionResult_ResourceStall then es @ [ScheduleEvent 1] else es))"

text \<open>\<open>peek\<close> with \<open>block_on\<close>: a message for a blocked address is put back for a cycle. A write that ends a
  locked access passes.\<close>

definition blocked_on :: "l1_ctrl \<Rightarrow> l1_port \<Rightarrow> addr \<Rightarrow> bool" where
  "blocked_on c p a \<longleftrightarrow> m_is_blocking (l1_ctl c) \<and> map_of (m_block_map (l1_ctl c)) a = Some p"

definition delay_port :: "l1_env \<Rightarrow> l1_ctrl \<Rightarrow> l1_port \<Rightarrow> port_step result" where
  "delay_port env c p = rbind (delayHead (le_now env) (le_rs env) (le_rnd env) (ac_buf (l1_ctl c) p)) (\<lambda>(b, calls).
     Inr (Start_Over, c\<lparr>l1_ctl := set_buf (l1_ctl c) p b\<rparr>, map Wake calls))"

definition pop_step :: "l1_env \<Rightarrow> l1_ctrl \<Rightarrow> l1_port \<Rightarrow> port_step result" where
  "pop_step env c p = rbind (MessageBuffer_dequeue (le_now env) (ac_buf (l1_ctl c) p)) (\<lambda>(t, m, b).
     Inr (Fall_Through, c\<lparr>l1_ctl := set_buf (l1_ctl c) p b\<rparr>, []))"

text \<open>A request of another core: the controller may have to send it the data, and an atomic section defers it.\<close>

definition remote_request :: "l1_env \<Rightarrow> l1_ctrl \<Rightarrow> request_msg \<Rightarrow> l1_event \<Rightarrow> port_step result" where
  "remote_request env c m ev = (let a = rq_Addr m in
     rbind (getL1CacheEntry env c a) (\<lambda>entry. rbind (getState env c (tbe_valid c a) entry a) (\<lambda>s.
     rbind (if is_dataSendState s
            then ensure entry NullDereference (rbind (deref (l1_entries c a)) (\<lambda>e.
              if NetDest_isEmpty (ce_finalDestinationSet e)
              then rbind (NetDest_add (le_ct env) (ce_finalDestinationSet e) (rq_Requestor m)) (\<lambda>d.
                   modify_entry c a (\<lambda>e. e\<lparr>ce_finalDestinationSet := d\<rparr>))
              else Inr c))
            else Inr c) (\<lambda>c1.
     rbind (isAtomic env c1 a) (\<lambda>at. rbind (if at then getState env c1 (tbe_valid c1 a) entry a else Inr s) (\<lambda>s1.
     if at \<and> is_dataWaitingState s1 then Inr (Fall_Through, c1, [])
     else triggered (doTransition env ev entry (tbe_valid c1 a) a c1)))))))"

definition request_body :: "l1_env \<Rightarrow> l1_ctrl \<Rightarrow> request_msg \<Rightarrow> port_step result" where
  "request_body env c m =
     (let own = (rq_Requestor m = le_machineID env); go = (\<lambda>ev. triggered (trigger env ev (rq_Addr m) c))
      in rbind (NetDest_isElement (le_ct env) (rq_Destination m) (le_machineID env)) (\<lambda>i. ensure i AssertFailed (
         case rq_Type m of
           CoherenceRequestType_GETS \<Rightarrow> if own then go Ev_OWN_GETS else remote_request env c m Ev_Other_GETS
         | CoherenceRequestType_INV \<Rightarrow> go Ev_INV
         | CoherenceRequestType_GETI \<Rightarrow> go (if own then Ev_OWN_GETI else Ev_Other_GETI)
         | CoherenceRequestType_UPG \<Rightarrow> go (if own then Ev_OWN_UPG else Ev_Other_UPG)
         | CoherenceRequestType_GETM \<Rightarrow> if own then go Ev_OWN_GETM else remote_request env c m Ev_Other_GETM
         | CoherenceRequestType_GETMA \<Rightarrow> if own then go Ev_OWN_GETM else remote_request env c m Ev_Other_GETM_Approx
         | CoherenceRequestType_GETX \<Rightarrow> if own then go Ev_OWN_GETM else remote_request env c m Ev_Other_GETM
         | CoherenceRequestType_PUTM \<Rightarrow> go (if own then Ev_OWN_PUTM else Ev_Other_PUTM)
         | _ \<Rightarrow> Inr (Fall_Through, c, []))))"

definition response_body :: "l1_env \<Rightarrow> l1_ctrl \<Rightarrow> response_msg \<Rightarrow> port_step result" where
  "response_body env c m = (case rp_Type m of
     CoherenceResponseType_DATA \<Rightarrow> triggered (trigger env Ev_Data (rp_Addr m) c)
   | CoherenceResponseType_DATA_TO_CACHE \<Rightarrow> triggered (trigger env Ev_Data (rp_Addr m) c)
   | CoherenceResponseType_MEMORY_ACK \<Rightarrow> triggered (trigger env Ev_Ack (rp_Addr m) c)
   | _ \<Rightarrow> Inr (Fall_Through, c, []))"

definition atomic_body :: "l1_env \<Rightarrow> l1_ctrl \<Rightarrow> request_msg \<Rightarrow> port_step result" where
  "atomic_body env c m = (case rq_Type m of
     CoherenceRequestType_GETMATOMICEN \<Rightarrow> triggered (trigger env Ev_ATOMICEN (rq_Addr m) c)
   | CoherenceRequestType_GETMATOMICST \<Rightarrow>
       if rq_Requestor m \<noteq> le_machineID env then triggered (trigger env Ev_ATOMICST (rq_Addr m) c)
       else pop_step env c atomicRequestNetwork_in
   | _ \<Rightarrow> Inr (Fall_Through, c, []))"

text \<open>A processor request whose line is in no cache while its set is full replaces the victim first. While
  another core is in an atomic section only the write that ends an atomic section passes.\<close>

definition mandatory_body :: "l1_env \<Rightarrow> l1_ctrl \<Rightarrow> ruby_request \<Rightarrow> port_step result" where
  "mandatory_body env c m =
     (let a = rr_LineAddress m;
          request = rbind (mandatory_request_type_to_event (rr_Type m)) (\<lambda>ev. triggered (trigger env ev a c))
      in rbind (getL1CacheEntry env c a) (\<lambda>valid.
         if is_blocked c = 0
         then (let cache = (if rr_Type m = RubyRequestType_IFETCH then Icache c else Dcache c)
               in rbind (if valid then Inr True else cacheAvail (le_rs env) cache a) (\<lambda>room.
                  if room then request
                  else rbind (cacheProbe (le_rs env) cache a) (\<lambda>victim. triggered (trigger env Ev_Replacement victim c))))
         else if rr_Type m = RubyRequestType_Locked_RMW_Write then request
         else Inr (Fall_Through, c, [])))"

definition l1_in_port :: "l1_env \<Rightarrow> l1_ctrl \<Rightarrow> l1_port \<Rightarrow> port_step result" where
  "l1_in_port env c0 p =
     (let c = c0\<lparr>l1_ctl := (l1_ctl c0)\<lparr>m_cur_in_port := l1_rank p\<rparr>\<rparr>
      in rbind (MessageBuffer_isReady (le_now env) (ac_buf (l1_ctl c) p)) (\<lambda>ready.
      if \<not> ready then Inr (Fall_Through, c, [])
      else rbind (MessageBuffer_peek (ac_buf (l1_ctl c) p)) (\<lambda>msg. case p of
        mandatoryQueue_in \<Rightarrow> rbind (as_mandatory (payload msg)) (\<lambda>m.
          if blocked_on c p (rr_LineAddress m) \<and> rr_PType m \<noteq> RubyRequestType_Locked_RMW_Write then delay_port env c p
          else mandatory_body env c m)
      | responseNetwork_in \<Rightarrow> rbind (as_response (payload msg)) (\<lambda>m.
          if blocked_on c p (rp_Addr m) then delay_port env c p else response_body env c m)
      | atomicRequestNetwork_in \<Rightarrow> rbind (as_request (payload msg)) (\<lambda>m.
          if blocked_on c p (rq_Addr m) then delay_port env c p else atomic_body env c m)
      | _ \<Rightarrow> rbind (as_request (payload msg)) (\<lambda>m.
          if blocked_on c p (rq_Addr m) then delay_port env c p else request_body env c m))))"

section \<open>The wakeup loop\<close>

text \<open>One pass over the ports, in the order of their declaration, up to the first that starts over or makes
  a valid transition.\<close>

definition l1_ports :: "l1_port list" where
  "l1_ports = [atomicRequestNetwork_in, responseNetwork_in, requestNetwork_in, requestNetworkWB_in, mandatoryQueue_in]"

fun l1_pass :: "l1_env \<Rightarrow> l1_ctrl \<Rightarrow> l1_port list \<Rightarrow> port_step result" where
  "l1_pass env c [] = Inr (Fall_Through, c, [])"
| "l1_pass env c (p # ps) = rbind (l1_in_port env c p) (\<lambda>(r, c1, es). case r of
     Start_Over \<Rightarrow> Inr (r, c1, es)
   | Triggered TransitionResult_Valid \<Rightarrow> Inr (r, c1, es)
   | _ \<Rightarrow> rbind (l1_pass env c1 ps) (\<lambda>(r', c2, es'). Inr (r', c2, es @ es')))"

partial_function (option) l1_wakeup :: "l1_env \<Rightarrow> nat \<Rightarrow> nat \<Rightarrow> l1_ctrl \<Rightarrow> l1_effect list \<Rightarrow> (l1_ctrl \<times> l1_effect list) result option" where
  "l1_wakeup env limit counter c es =
     (if limit < counter then Some (Inl AssertFailed)
      else if counter = limit then Some (Inr (c, es @ [ScheduleEvent 1]))
      else case l1_pass env c l1_ports of
        Inl err \<Rightarrow> Some (Inl err)
      | Inr (r, c1, es1) \<Rightarrow>
          if r = Fall_Through then Some (Inr (c1, es @ es1))
          else l1_wakeup env limit (if r = Start_Over then counter else counter + 1) c1 (es @ es1))"

end
