(* ===== verification/L1_Abstraction.thy ===== *)
theory L1_Abstraction
  imports L1_Controller
begin

text \<open>
  What the actions of the L1 controller rely on, as an abstract run of the transition table. A running
  transition is abstracted to whether there is a transaction, a cache entry, an entry that may be in an atomic
  section, the message of the port, room in the transaction table and in the caches. Every action has a
  guard and an effect on this abstraction, and the abstract run of every transition of the table from
  every live state passes its guards: evaluated over the whole table.
\<close>

section \<open>The table\<close>

lemma l1_row_decl:
  assumes "l1_row s e = Some (acts, n)"
  shows "\<exists>ss es n'. (ss, es, acts, n') \<in> set l1_transitions \<and> s \<in> set ss \<and> e \<in> set es \<and>
    n = (case n' of None \<Rightarrow> s | Some s' \<Rightarrow> s')"
proof -
  obtain d where d: "find (\<lambda>(ss, es, _). s \<in> set ss \<and> e \<in> set es) l1_transitions = Some d"
    "(acts, n) = (\<lambda>(_, _, acts, n). (acts, case n of None \<Rightarrow> s | Some s' \<Rightarrow> s')) d"
    using assms unfolding l1_row_def by auto
  obtain ss es n' where d': "d = (ss, es, acts, n')" using d(2) by (cases d) auto
  from d(1) have "d \<in> set l1_transitions" "s \<in> set ss" "e \<in> set es"
    unfolding find_Some_iff d' by (auto simp del: nth_mem) (metis nth_mem)+
  then show ?thesis using d(2) d' by auto
qed

text \<open>The states with a transaction, and the other states with a cache entry.\<close>

definition tbe_states :: "l1_state list" where
  "tbe_states = [L1_IS_AD, L1_IS_D, L1_IS_DI, L1_IM_AD, L1_IM_D, L1_IM_DI, L1_IM_DS, L1_IM_DL]"

definition entry_states :: "l1_state list" where
  "entry_states = [L1_S, L1_M, L1_IS_A, L1_IM_A, L1_MI_A, L1_MS_A, L1_SM_W, L1_IM_W, L1_SM_WL, L1_IM_WL, L1_M_L]"

definition live_states :: "l1_state list" where
  "live_states = L1_I # tbe_states @ entry_states"

definition atomic_states :: "l1_state list" where
  "atomic_states = [L1_IM_DL, L1_M_L]"

text \<open>The port whose messages trigger an event.\<close>

definition event_port :: "l1_event \<Rightarrow> l1_port" where
  "event_port e = (case e of
     Ev_Other_PUTM \<Rightarrow> requestNetworkWB_in | Ev_OWN_PUTM \<Rightarrow> requestNetworkWB_in
   | Ev_ATOMICST \<Rightarrow> atomicRequestNetwork_in | Ev_ATOMICEN \<Rightarrow> atomicRequestNetwork_in
   | Ev_Data \<Rightarrow> responseNetwork_in | Ev_Ack \<Rightarrow> responseNetwork_in
   | Ev_Load \<Rightarrow> mandatoryQueue_in | Ev_Store \<Rightarrow> mandatoryQueue_in | Ev_Ifetch \<Rightarrow> mandatoryQueue_in
   | Ev_RMW_Read \<Rightarrow> mandatoryQueue_in | Ev_RMW_Write \<Rightarrow> mandatoryQueue_in | Ev_Replacement \<Rightarrow> mandatoryQueue_in
   | Ev_Load_Approx \<Rightarrow> mandatoryQueue_in | Ev_Store_Approx \<Rightarrow> mandatoryQueue_in
   | _ \<Rightarrow> requestNetwork_in)"

section \<open>The abstraction\<close>

record l1_skel =
  sk_tbe :: bool
  sk_entry :: bool
  sk_atomic :: bool
  sk_head :: bool
  sk_popped :: bool
  sk_slot :: bool
  sk_roomD :: bool
  sk_roomI :: bool

definition guarded :: "bool \<Rightarrow> l1_skel \<Rightarrow> l1_skel option" where
  "guarded b sk = (if b then Some sk else None)"

definition abs_action :: "l1_port \<Rightarrow> l1_action \<Rightarrow> l1_skel \<Rightarrow> l1_skel option" where
  "abs_action p act sk = (let head = (\<lambda>q. p = q \<and> sk_head sk) in case act of
     as_issueGETSMem \<Rightarrow> guarded (head mandatoryQueue_in) sk
   | ai_issueGETINSTR \<Rightarrow> guarded (head mandatoryQueue_in) sk
   | bm_issueGETMR \<Rightarrow> guarded (head requestNetwork_in) sk
   | bm_issueUpg \<Rightarrow> guarded (head mandatoryQueue_in) sk
   | bam_issueGETM \<Rightarrow> guarded (head mandatoryQueue_in) sk
   | bm_issueGETM \<Rightarrow> guarded (head mandatoryQueue_in) sk
   | bam_issueGETMATOMICST \<Rightarrow> guarded (head mandatoryQueue_in) sk
   | bam_issueGETMATOMICEN \<Rightarrow> guarded (head mandatoryQueue_in) sk
   | bpm_issuePUTM \<Rightarrow> guarded (head mandatoryQueue_in \<and> sk_entry sk) sk
   | bpm_issuePUTMR \<Rightarrow> guarded (head requestNetwork_in \<and> sk_entry sk) sk
   | bpm_issuePUTMD \<Rightarrow> guarded (sk_entry sk) sk
   | cc_sendDataCacheToDir \<Rightarrow> guarded (sk_entry sk) sk
   | ct_sendDataTBEToDir \<Rightarrow> guarded (sk_tbe sk) sk
   | r_load_hit \<Rightarrow> guarded (sk_entry sk) sk
   | rx_load_hit \<Rightarrow> guarded (sk_entry sk) sk
   | s_store_hit \<Rightarrow> guarded (sk_entry sk) sk
   | sx_store_hit \<Rightarrow> guarded (sk_entry sk) sk
   | sx_atomic_store_hit_set \<Rightarrow> guarded (sk_entry sk) (sk\<lparr>sk_atomic := True\<rparr>)
   | sx_atomic_store_hit_unset \<Rightarrow> guarded (sk_entry sk) (sk\<lparr>sk_atomic := False\<rparr>)
   | i_allocateAtomicTBE \<Rightarrow> guarded (sk_entry sk \<and> \<not> sk_tbe sk \<and> sk_slot sk) (sk\<lparr>sk_tbe := True, sk_slot := False\<rparr>)
   | i_allocateTBE \<Rightarrow> guarded (sk_entry sk \<and> \<not> sk_tbe sk \<and> sk_slot sk) (sk\<lparr>sk_tbe := True, sk_slot := False\<rparr>)
   | k_popMandatoryQueue \<Rightarrow> guarded (head mandatoryQueue_in) (sk\<lparr>sk_head := False, sk_popped := True\<rparr>)
   | setStartTime \<Rightarrow> guarded (head mandatoryQueue_in \<and> sk_tbe sk) (sk\<lparr>sk_head := False, sk_popped := True\<rparr>)
   | setStartTimeCE \<Rightarrow> guarded (head mandatoryQueue_in \<and> sk_entry sk) (sk\<lparr>sk_head := False, sk_popped := True\<rparr>)
   | copyStartTimeCETBE \<Rightarrow> guarded (sk_entry sk \<and> sk_tbe sk) sk
   | l_popRequestQueue \<Rightarrow> guarded (head requestNetwork_in) (sk\<lparr>sk_head := False, sk_popped := True\<rparr>)
   | l_popRequestWBQueue \<Rightarrow> guarded (head requestNetworkWB_in) (sk\<lparr>sk_head := False, sk_popped := True\<rparr>)
   | l_popAtomicRequestQueue \<Rightarrow> guarded (head atomicRequestNetwork_in) (sk\<lparr>sk_head := False, sk_popped := True\<rparr>)
   | o_popIncomingResponseQueue \<Rightarrow> guarded (head responseNetwork_in) (sk\<lparr>sk_head := False, sk_popped := True\<rparr>)
   | s_deallocateTBE \<Rightarrow> guarded (sk_tbe sk) (sk\<lparr>sk_tbe := False\<rparr>)
   | u_writeDataToL1Cache \<Rightarrow> guarded (head responseNetwork_in \<and> sk_entry sk \<and> sk_tbe sk) sk
   | ff_deallocateL1CacheBlock \<Rightarrow> guarded (sk_entry sk) (sk\<lparr>sk_entry := False, sk_atomic := False, sk_roomD := False, sk_roomI := False\<rparr>)
   | oo_allocateAtomicL1DCacheBlock \<Rightarrow> guarded (\<not> sk_entry sk \<and> sk_roomD sk) (sk\<lparr>sk_entry := True, sk_atomic := True\<rparr>)
   | oo_allocateL1DCacheBlock \<Rightarrow> guarded (\<not> sk_entry sk \<and> sk_roomD sk) (sk\<lparr>sk_entry := True, sk_atomic := False\<rparr>)
   | pp_allocateL1ICacheBlock \<Rightarrow> guarded (\<not> sk_entry sk \<and> sk_roomI sk) (sk\<lparr>sk_entry := True, sk_atomic := False\<rparr>)
   | z_stallAndWaitMandatoryQueue \<Rightarrow> guarded (head mandatoryQueue_in) (sk\<lparr>sk_head := False\<rparr>)
   | z_stallAndWaitRequestQueue \<Rightarrow> guarded (head requestNetwork_in) (sk\<lparr>sk_head := False\<rparr>)
   | z_stallAndWaitRequestWBQueue \<Rightarrow> guarded (head requestNetworkWB_in) (sk\<lparr>sk_head := False\<rparr>)
   | kd_wakeUpDependents \<Rightarrow> guarded (\<not> sk_atomic sk \<and> \<not> sk_head sk) sk
   | ka_wakeUpAllDependents \<Rightarrow> guarded (\<not> sk_atomic sk \<and> \<not> sk_head sk) sk
   | uu_profilecoherence_inv \<Rightarrow> guarded (head requestNetwork_in) sk
   | _ \<Rightarrow> Some sk)"

fun abs_run :: "l1_port \<Rightarrow> l1_action list \<Rightarrow> l1_skel \<Rightarrow> l1_skel option" where
  "abs_run p [] sk = Some sk"
| "abs_run p (act # acts) sk = (case abs_action p act sk of None \<Rightarrow> None | Some sk' \<Rightarrow> abs_run p acts sk')"

definition skel_of :: "l1_state \<Rightarrow> l1_event \<Rightarrow> l1_action list \<Rightarrow> l1_skel" where
  "skel_of s e acts = \<lparr>sk_tbe = (s \<in> set tbe_states), sk_entry = (s \<noteq> L1_I), sk_atomic = (s \<in> set atomic_states),
     sk_head = True, sk_popped = False, sk_slot = (sum_list (map tbe_needs acts) \<noteq> 0),
     sk_roomD = (s = L1_I \<and> e \<in> {Ev_Load, Ev_Store, Ev_RMW_Read}), sk_roomI = (s = L1_I \<and> e = Ev_Ifetch)\<rparr>"

definition skel_fits :: "l1_skel \<Rightarrow> l1_state \<Rightarrow> bool" where
  "skel_fits sk s \<longleftrightarrow> s \<in> set live_states \<and> sk_tbe sk = (s \<in> set tbe_states) \<and> sk_entry sk = (s \<noteq> L1_I) \<and>
     (sk_atomic sk \<longrightarrow> s \<in> set atomic_states)"

text \<open>From every live state, the actions of every declared transition pass their guards and end in what the
  next state stands for.\<close>

definition decl_ok :: "l1_decl \<Rightarrow> bool" where
  "decl_ok d = (case d of (ss, es, acts, n) \<Rightarrow>
     list_all (\<lambda>s. s \<in> set live_states \<longrightarrow> list_all (\<lambda>e. case abs_run (event_port e) acts (skel_of s e acts) of
       None \<Rightarrow> False | Some sk \<Rightarrow> skel_fits sk (case n of None \<Rightarrow> s | Some s' \<Rightarrow> s') \<and> (sk_head sk \<longrightarrow> n \<noteq> None \<and> n \<noteq> Some s)) es) ss)"

lemma l1_table_ok: "list_all decl_ok l1_transitions"
  by code_simp

lemma l1_row_ok:
  assumes "l1_row s e = Some (acts, n)" and "s \<in> set live_states"
  shows "\<exists>sk. abs_run (event_port e) acts (skel_of s e acts) = Some sk \<and> skel_fits sk n \<and>
    (sk_head sk \<longrightarrow> n \<noteq> s)"
proof -
  obtain ss es n' where d: "(ss, es, acts, n') \<in> set l1_transitions" "s \<in> set ss" "e \<in> set es"
    "n = (case n' of None \<Rightarrow> s | Some s' \<Rightarrow> s')" using l1_row_decl [OF assms(1)] by blast
  have "decl_ok (ss, es, acts, n')" using l1_table_ok d(1) by (simp only: list_all_iff)
  then have "case abs_run (event_port e) acts (skel_of s e acts) of None \<Rightarrow> False | Some sk \<Rightarrow> skel_fits sk n \<and>
      (sk_head sk \<longrightarrow> n \<noteq> s)"
    using d(2,3) assms(2) unfolding decl_ok_def list_all_iff prod.case d(4) by (fastforce split: option.splits)
  then show ?thesis by (cases "abs_run (event_port e) acts (skel_of s e acts)") auto
qed

end
