(* ===== verification/L1_Safety.thy ===== *)
theory L1_Safety
  imports L1_Abstraction
begin

text \<open>
  The L1 cache controller is safe: in every state it can reach, the transitions of the table run without a
  failing assertion, a null pointer or a missing message, and leave the controller in the state that the
  table names.
\<close>

section \<open>Lines\<close>

lemma present_line_Inr:
  assumes "cache_inv rs c" and "a = line_address rs a" and "cache_map c a = Some e"
  shows "\<exists>i < m_cache_assoc c. m_tag_index c a = Some i \<and> m_cache c ! cache_set c a ! i = Some e \<and> m_Address e = a \<and>
    present_line rs c a = Inr (cache_set c a, i, e)"
proof -
  note g = cache_inv_geometry [OF assms(1)]
  obtain i where i: "i < m_cache_assoc c" "m_tag_index c a = Some i" "m_cache c ! cache_set c a ! i = Some e" "m_Address e = a"
    using cache_map_Some [OF assms(1)] assms(3) by blast
  have "present_line rs c a = Inr (cache_set c a, i, e)"
    using find_line_Inr [OF assms(1,2)] i cache_at_Inr [OF g cache_set_less [OF g] i(1)] assms(2) by (simp add: present_line_def)
  then show ?thesis using i by blast
qed

lemma entry_update_Inr:
  assumes "cache_inv rs c" and "a = line_address rs a" and "cache_map c a = Some e"
    and "m_Address (f e) = a" and "m_Permission (f e) \<noteq> AccessPermission_NotPresent"
  shows "\<exists>c'. entry_update rs c a f = Inr c' \<and> cache_inv rs c' \<and> cache_map c' = (cache_map c)(a \<mapsto> f e)"
proof -
  note g = cache_inv_geometry [OF assms(1)]
  obtain i where i: "i < m_cache_assoc c" "m_tag_index c a = Some i" "m_cache c ! cache_set c a ! i = Some e" "m_Address e = a"
    and p: "present_line rs c a = Inr (cache_set c a, i, e)"
    using present_line_Inr [OF assms(1-3)] by blast
  define c' where "c' = c\<lparr>m_cache := (m_cache c)[cache_set c a := (m_cache c ! cache_set c a)[i := Some (f e)]]\<rparr>"
  have run: "entry_update rs c a f = Inr c'"
    using p cache_put_Inr [OF g cache_set_less [OF g] i(1)] by (simp add: entry_update_def c'_def)
  have here: "m_cache c' ! cache_set c a ! i = Some (f e)"
    using slot_update [OF g cache_set_less [OF g] i(1) cache_set_less [OF g, of a]] by (simp add: c'_def)
  have other: "m_cache c' ! st ! j = m_cache c ! st ! j" if "st < m_cache_num_sets c" "\<not> (st = cache_set c a \<and> j = i)" for st j
    using slot_update [OF g cache_set_less [OF g] i(1) that(1)] that(2) by (auto simp: c'_def)
  have same: "cache_set c' = cache_set c" "m_cache_assoc c' = m_cache_assoc c" "m_cache_num_sets c' = m_cache_num_sets c"
    "m_tag_index c' = m_tag_index c" by (simp_all add: c'_def)
  have at: "m_cache c' ! cache_set c b ! j = Some (if b = a then f e else e') \<and> j < m_cache_assoc c"
    if t: "m_tag_index c b = Some j" "m_cache c ! cache_set c b ! j = Some e'" "m_Address e' = b" for b j e'
  proof (cases "b = a")
    case True
    then show ?thesis using here t(1) i(1,2) by simp
  next
    case False
    have "\<not> (cache_set c b = cache_set c a \<and> j = i)"
    proof
      assume "cache_set c b = cache_set c a \<and> j = i"
      then have "Some e' = Some e" using t(2) i(3) by simp
      then show False using False t(3) i(4) by simp
    qed
    from other [OF cache_set_less [OF g, of b] this] show ?thesis
      using t False assms(1) by (simp add: cache_inv_def)
  qed
  have tag: "j < m_cache_assoc c \<and> (\<exists>e'. m_cache c' ! cache_set c b ! j = Some e' \<and> m_Address e' = b)"
    if t: "m_tag_index c b = Some j" for b j
  proof -
    obtain e' where "m_cache c ! cache_set c b ! j = Some e'" "m_Address e' = b" by (rule tag_entry [OF assms(1) t])
    from at [OF t this] this(2) assms(4) show ?thesis by auto
  qed
  have ent: "m_tag_index c (m_Address e') = Some j \<and> cache_set c (m_Address e') = st \<and>
      m_Address e' = line_address rs (m_Address e') \<and> m_Permission e' \<noteq> AccessPermission_NotPresent"
    if st: "st < m_cache_num_sets c" "j < m_cache_assoc c" and s: "m_cache c' ! st ! j = Some e'" for st j e'
  proof (cases "st = cache_set c a \<and> j = i")
    case True
    then have "e' = f e" using s here by simp
    then show ?thesis using True assms(2,4,5) i(2) by simp
  next
    case False
    then have "m_cache c ! st ! j = Some e'" using s other [OF st(1) False] by simp
    from cache_map_at [OF assms(1) st this] show ?thesis by simp
  qed
  have "cache_geometry c'" unfolding c'_def by (rule cache_put_geometry [OF g cache_set_less [OF g]])
  then have inv: "cache_inv rs c'" using tag ent unfolding cache_inv_def same by blast
  have "cache_map c' b = ((cache_map c)(a \<mapsto> f e)) b" for b
  proof (cases "m_tag_index c b")
    case None
    then show ?thesis using i(2) by (cases "b = a") (simp_all add: cache_map_def same)
  next
    case (Some j)
    obtain e' where e': "m_cache c ! cache_set c b ! j = Some e'" "m_Address e' = b" by (rule tag_entry [OF assms(1) Some])
    show ?thesis using at [OF Some e'] Some e'(1) by (cases "b = a") (simp_all add: cache_map_def same)
  qed
  then have "cache_map c' = (cache_map c)(a \<mapsto> f e)" by (rule ext)
  then show ?thesis using run inv by blast
qed

text \<open>The line of an address in either cache.\<close>

definition l1_line :: "l1_ctrl \<Rightarrow> addr \<Rightarrow> cache_entry option" where
  "l1_line c a = (case cache_map (Dcache c) a of Some e \<Rightarrow> Some e | None \<Rightarrow> cache_map (Icache c) a)"

definition caches_ok :: "ruby_system \<Rightarrow> l1_ctrl \<Rightarrow> bool" where
  "caches_ok rs c \<longleftrightarrow> cache_inv rs (Dcache c) \<and> cache_inv rs (Icache c) \<and>
     (\<forall>a. cache_map (Dcache c) a = None \<or> cache_map (Icache c) a = None)"

lemma l1_line_frame [simp]: "l1_line (c\<lparr>l1_ctl := x\<rparr>) = l1_line c" "l1_line (c\<lparr>l1_entries := y\<rparr>) = l1_line c"
  "l1_line (c\<lparr>TBEs := z\<rparr>) = l1_line c" "l1_line (c\<lparr>is_blocked := w\<rparr>) = l1_line c"
  by (simp_all add: l1_line_def fun_eq_iff split: option.split)

lemma caches_ok_frame [simp]: "caches_ok rs (c\<lparr>l1_ctl := x\<rparr>) = caches_ok rs c" "caches_ok rs (c\<lparr>l1_entries := y\<rparr>) = caches_ok rs c"
  "caches_ok rs (c\<lparr>TBEs := z\<rparr>) = caches_ok rs c" "caches_ok rs (c\<lparr>is_blocked := w\<rparr>) = caches_ok rs c"
  by (simp_all add: caches_ok_def)

lemma getL1CacheEntry_Inr:
  assumes "caches_ok (le_rs env) c" and "line_address (le_rs env) a = a"
  shows "getL1CacheEntry env c a = Inr (l1_line c a \<noteq> None)"
  using assms CacheMemory_lookup_Inr [of "le_rs env" "Dcache c" a] CacheMemory_lookup_Inr [of "le_rs env" "Icache c" a]
  by (simp add: getL1CacheEntry_def caches_ok_def l1_line_def split: option.splits)

lemma one_cache_Inr:
  assumes "caches_ok (le_rs env) c" and "line_address (le_rs env) a = a"
  shows "one_cache env c a = Inr ()"
  using assms isTagPresent_Inr [of "le_rs env" "Dcache c" a] isTagPresent_Inr [of "le_rs env" "Icache c" a]
  by (auto simp: one_cache_def caches_ok_def ensure_def)

lemma line_block_Inr:
  assumes "caches_ok (le_rs env) c" and "line_address (le_rs env) a = a" and "l1_line c a = Some e"
  shows "line_block env c a = Inr (DataBlk e)"
proof -
  have inv: "cache_inv (le_rs env) (Dcache c)" "cache_inv (le_rs env) (Icache c)" using assms(1) by (simp_all add: caches_ok_def)
  note tp = isTagPresent_Inr [OF inv(1) assms(2) [symmetric]]
  show ?thesis
  proof (cases "cache_map (Dcache c) a")
    case None
    then have "cache_map (Icache c) a = Some e" using assms(3) by (simp add: l1_line_def)
    from present_line_Inr [OF inv(2) assms(2) [symmetric] this] None tp show ?thesis by (auto simp: line_block_def)
  next
    case (Some d)
    then have "cache_map (Dcache c) a = Some e" using assms(3) by (simp add: l1_line_def)
    from present_line_Inr [OF inv(1) assms(2) [symmetric] this] Some tp show ?thesis by (auto simp: line_block_def)
  qed
qed

lemma modify_line_Inr:
  assumes "caches_ok (le_rs env) c" and "line_address (le_rs env) a = a" and "l1_line c a = Some e"
    and "\<And>e. m_Address (f e) = m_Address e" and "\<And>e. m_Permission e \<noteq> AccessPermission_NotPresent \<Longrightarrow>
      m_Permission (f e) \<noteq> AccessPermission_NotPresent"
  shows "\<exists>d i. modify_line env c a f = Inr (c\<lparr>Dcache := d, Icache := i\<rparr>) \<and> caches_ok (le_rs env) (c\<lparr>Dcache := d, Icache := i\<rparr>) \<and>
    l1_line (c\<lparr>Dcache := d, Icache := i\<rparr>) = (l1_line c)(a \<mapsto> f e)"
proof -
  have inv: "cache_inv (le_rs env) (Dcache c)" "cache_inv (le_rs env) (Icache c)"
    "\<And>b. cache_map (Dcache c) b = None \<or> cache_map (Icache c) b = None" using assms(1) by (auto simp: caches_ok_def)
  note tp = isTagPresent_Inr [OF inv(1) assms(2) [symmetric]]
  have ok: "m_Address (f e) = a \<and> m_Permission (f e) \<noteq> AccessPermission_NotPresent"
    if ci: "cache_inv (le_rs env) k" "cache_map k a = Some e" for k
  proof -
    obtain i where i: "i < m_cache_assoc k" "m_cache k ! cache_set k a ! i = Some e" "m_Address e = a"
      using cache_map_Some [OF ci(1)] ci(2) by blast
    note g = cache_inv_geometry [OF ci(1)]
    from cache_map_at(5) [OF ci(1) cache_set_less [OF g] i(1,2)] show ?thesis using assms(4,5) i(3) by simp
  qed
  show ?thesis
  proof (cases "cache_map (Dcache c) a")
    case None
    then have i: "cache_map (Icache c) a = Some e" using assms(3) by (simp add: l1_line_def)
    from entry_update_Inr [OF inv(2) assms(2) [symmetric] this, of f] ok [OF inv(2) i] obtain k where
      k: "entry_update (le_rs env) (Icache c) a f = Inr k" "cache_inv (le_rs env) k" "cache_map k = (cache_map (Icache c))(a \<mapsto> f e)"
      by blast
    have "modify_line env c a f = Inr (c\<lparr>Dcache := Dcache c, Icache := k\<rparr>)" using None tp k(1) by (simp add: modify_line_def)
    moreover have "caches_ok (le_rs env) (c\<lparr>Dcache := Dcache c, Icache := k\<rparr>)"
      using inv k(2,3) None by (simp add: caches_ok_def) 
    moreover have "l1_line (c\<lparr>Dcache := Dcache c, Icache := k\<rparr>) = (l1_line c)(a \<mapsto> f e)"
      using None k(3) by (intro ext) (simp add: l1_line_def split: option.split)
    ultimately show ?thesis by blast
  next
    case (Some d)
    then have d: "cache_map (Dcache c) a = Some e" using assms(3) by (simp add: l1_line_def)
    from entry_update_Inr [OF inv(1) assms(2) [symmetric] this, of f] ok [OF inv(1) d] obtain k where
      k: "entry_update (le_rs env) (Dcache c) a f = Inr k" "cache_inv (le_rs env) k" "cache_map k = (cache_map (Dcache c))(a \<mapsto> f e)"
      by blast
    have "modify_line env c a f = Inr (c\<lparr>Dcache := k, Icache := Icache c\<rparr>)" using Some tp k(1) by (simp add: modify_line_def)
    moreover have "caches_ok (le_rs env) (c\<lparr>Dcache := k, Icache := Icache c\<rparr>)"
      using inv(1,2) inv(3) [of a] inv(3) k(2,3) d by (auto simp: caches_ok_def)
    moreover have "l1_line (c\<lparr>Dcache := k, Icache := Icache c\<rparr>) = (l1_line c)(a \<mapsto> f e)"
      using k(3) by (intro ext) (simp add: l1_line_def split: option.split)
    ultimately show ?thesis by blast
  qed
qed

section \<open>What a running transition keeps\<close>

definition l1_ok :: "l1_env \<Rightarrow> l1_ctrl \<Rightarrow> bool" where
  "l1_ok env c \<longleftrightarrow> caches_ok (le_rs env) c \<and> tbe_wf (le_rs env) (TBEs c) \<and>
     waiting_sound l1_rank (l1_ctl c) \<and> m_in_ports (l1_ctl c) = 5 \<and>
     (\<forall>a e. l1_entries c a = Some e \<longrightarrow> net_dest_wf (le_ct env) (ce_finalDestinationSet e))"

text \<open>The configuration: fewer than 32 controllers of each type, the controller is one of them, and the address
  belongs to a directory.\<close>

definition env_ok :: "l1_env \<Rightarrow> addr \<Rightarrow> bool" where
  "env_ok env a \<longleftrightarrow> (\<forall>n \<in> set (le_ct env). n < 32) \<and> 1 < length (le_ct env) \<and>
     (\<exists>n < le_ct env ! MachineType_L1Cache. le_machineID env = \<lparr>mach_type = MachineType_L1Cache, mach_num = n\<rparr>) \<and>
     (\<exists>n < le_ct env ! MachineType_Directory. map_Address_to_Directory (le_dir env) a = Inr \<lparr>mach_type = MachineType_Directory, mach_num = n\<rparr>) \<and>
     ruby_system_wf (le_rs env) \<and> 0 < m_block_size_bits (le_rs env) \<and> line_address (le_rs env) a = a"

text \<open>The message at the head of a port is due and has the type and the destinations that the port expects.\<close>

definition payload_ok :: "l1_env \<Rightarrow> l1_port \<Rightarrow> coherence_msg \<Rightarrow> bool" where
  "payload_ok env p m = (case p of
     mandatoryQueue_in \<Rightarrow> (case m of MandatoryMsg r \<Rightarrow> True | _ \<Rightarrow> False)
   | responseNetwork_in \<Rightarrow> (case m of ResponseMsg r \<Rightarrow> net_dest_wf (le_ct env) (rp_Destination r) \<and> dests (rp_Destination r) \<noteq> {} | _ \<Rightarrow> False)
   | _ \<Rightarrow> (case m of RequestMsg r \<Rightarrow> net_dest_wf (le_ct env) (rq_Destination r) \<and>
       (mach_type (le_machineID env), mach_num (le_machineID env)) \<in> dests (rq_Destination r) | _ \<Rightarrow> False))"

definition head_msg :: "coherence_msg message_buffer \<Rightarrow> coherence_msg" where
  "head_msg b = payload (m_msgptr (hd (m_prio_heap b)))"

definition port_ready :: "l1_env \<Rightarrow> l1_port \<Rightarrow> coherence_msg message_buffer \<Rightarrow> bool" where
  "port_ready env p b \<longleftrightarrow> MessageBuffer_isReady (le_now env) b = Inr True \<and> m_sender b \<noteq> None \<and>
     m_LastEnqueueTime (m_msgptr (hd (m_prio_heap b))) \<le> m_time (hd (m_prio_heap b)) \<and> stalled b < mb_budget b \<and>
     payload_ok env p (head_msg b)"

definition only_at :: "addr \<Rightarrow> l1_ctrl \<Rightarrow> l1_ctrl \<Rightarrow> bool" where
  "only_at a c0 c \<longleftrightarrow> (\<forall>b. b \<noteq> a \<longrightarrow> l1_line c b = l1_line c0 b \<and> l1_entries c b = l1_entries c0 b \<and>
     TBETable_lookup (TBEs c) b = TBETable_lookup (TBEs c0) b)"

definition tracks :: "l1_env \<Rightarrow> l1_port \<Rightarrow> addr \<Rightarrow> l1_ctrl \<Rightarrow> l1_skel \<Rightarrow> l1_ctx \<Rightarrow> bool" where
  "tracks env p a c0 sk cx \<longleftrightarrow> l1_ok env (cx_c cx) \<and> m_cur_in_port (l1_ctl (cx_c cx)) = l1_rank p \<and> only_at a c0 (cx_c cx) \<and>
     cx_tbe cx = sk_tbe sk \<and> (TBETable_lookup (TBEs (cx_c cx)) a \<noteq> None) = sk_tbe sk \<and>
     (\<forall>t. TBETable_lookup (TBEs (cx_c cx)) a = Some t \<longrightarrow> tbe_firstScheduledTime t = 0 \<and> \<not> tbe_zeroArb t) \<and>
     cx_entry cx = sk_entry sk \<and> (l1_line (cx_c cx) a \<noteq> None) = sk_entry sk \<and> (l1_entries (cx_c cx) a \<noteq> None) = sk_entry sk \<and>
     (\<forall>e. l1_entries (cx_c cx) a = Some e \<longrightarrow> ce_isAtomic e \<longrightarrow> sk_atomic sk) \<and>
     (sk_head sk \<longrightarrow> ac_buf (l1_ctl (cx_c cx)) p = ac_buf (l1_ctl c0) p \<and> \<not> sk_popped sk) \<and>
     (\<forall>q. all_payloads (ac_buf (l1_ctl (cx_c cx)) q) =
        all_payloads (ac_buf (l1_ctl c0) q) - (if q = p \<and> sk_popped sk then {#head_msg (ac_buf (l1_ctl c0) p)#} else {#})) \<and>
     (sk_slot sk \<longrightarrow> int (length (tbe_map (TBEs (cx_c cx)))) < m_number_of_TBEs (TBEs (cx_c cx))) \<and>
     (sk_roomD sk \<and> \<not> sk_entry sk \<longrightarrow> free_way (Dcache (cx_c cx)) a) \<and>
     (sk_roomI sk \<and> \<not> sk_entry sk \<longrightarrow> free_way (Icache (cx_c cx)) a)"

definition sent_ports :: "l1_effect list \<Rightarrow> l1_out list" where
  "sent_ports es = concat (map (\<lambda>e. case e of SendMsg out m l \<Rightarrow> [out] | _ \<Rightarrow> []) es)"

text \<open>A result that keeps track of the abstraction and has sent through the given ports.\<close>

definition good :: "l1_env \<Rightarrow> l1_port \<Rightarrow> addr \<Rightarrow> l1_ctrl \<Rightarrow> l1_skel \<Rightarrow> l1_ctx \<Rightarrow> l1_out list \<Rightarrow> l1_ctx result \<Rightarrow> bool" where
  "good env p a c0 sk cx outs r \<longleftrightarrow> (\<exists>cx'. r = Inr cx' \<and> tracks env p a c0 sk cx' \<and>
     sent_ports (cx_effects cx') = sent_ports (cx_effects cx) @ outs)"

lemma tracks_emit [simp]: "tracks env p a c0 sk (emit es cx) \<longleftrightarrow> tracks env p a c0 sk cx"
  by (simp add: tracks_def emit_def)

lemma emit_fields [simp]: "cx_c (emit es cx) = cx_c cx" "cx_tbe (emit es cx) = cx_tbe cx" "cx_entry (emit es cx) = cx_entry cx"
  "sent_ports (cx_effects (emit es cx)) = sent_ports (cx_effects cx) @ sent_ports es"
  by (simp_all add: emit_def sent_ports_def)

lemma sent_ports_simps [simp]: "sent_ports [] = []" "sent_ports (SendMsg out m l # es) = out # sent_ports es"
  "sent_ports (ReadCallback x y z # es) = sent_ports es" "sent_ports (WriteCallback x y z # es) = sent_ports es"
  "sent_ports (map Wake calls) = []"
  by (simp_all add: sent_ports_def o_def)

lemma good_emit: "tracks env p a c0 sk cx \<Longrightarrow> sent_ports es = outs \<Longrightarrow> good env p a c0 sk cx outs (Inr (emit es cx))"
  by (auto simp: good_def)

lemma good_keep: "tracks env p a c0 sk cx \<Longrightarrow> good env p a c0 sk cx [] (Inr cx)"
  by (auto simp: good_def)

text \<open>The pieces of a tracked state.\<close>

lemma tracksD:
  assumes "tracks env p a c0 sk cx"
  shows "l1_ok env (cx_c cx)" "cx_tbe cx = sk_tbe sk" "cx_entry cx = sk_entry sk"
    "sk_tbe sk \<Longrightarrow> \<exists>t. TBETable_lookup (TBEs (cx_c cx)) a = Some t \<and> tbe_firstScheduledTime t = 0 \<and> \<not> tbe_zeroArb t"
    "sk_entry sk \<Longrightarrow> \<exists>e. l1_line (cx_c cx) a = Some e" "sk_entry sk \<Longrightarrow> \<exists>e. l1_entries (cx_c cx) a = Some e"
    "sk_head sk \<Longrightarrow> l1_buf cx p = ac_buf (l1_ctl c0) p"
    "caches_ok (le_rs env) (cx_c cx)" "tbe_wf (le_rs env) (TBEs (cx_c cx))" "waiting_sound l1_rank (l1_ctl (cx_c cx))"
  using assms by (auto simp: tracks_def l1_ok_def l1_buf_def)

lemma with_entry_good:
  assumes "tracks env p a c0 sk cx" and "sk_entry sk" and "\<And>e. (ce_isAtomic e \<Longrightarrow> sk_atomic sk) \<Longrightarrow> ce_isAtomic (f e) \<Longrightarrow> b"
    and "\<And>e. ce_finalDestinationSet (f e) = ce_finalDestinationSet e"
  shows "good env p a c0 (sk\<lparr>sk_atomic := b\<rparr>) cx [] (with_entry cx a f)"
proof -
  obtain e where e: "l1_entries (cx_c cx) a = Some e" using tracksD(6) [OF assms(1,2)] by blast
  let ?cx = "cx\<lparr>cx_c := (cx_c cx)\<lparr>l1_entries := (l1_entries (cx_c cx))(a \<mapsto> f e)\<rparr>\<rparr>"
  have "with_entry cx a f = Inr ?cx" using e assms(2) tracksD(3) [OF assms(1)] by (simp add: with_entry_def cx_lift_def modify_entry_def)
  moreover have "ce_isAtomic (f e) \<Longrightarrow> b" using assms(1) e by (intro assms(3)) (auto simp: tracks_def)
  then have "tracks env p a c0 (sk\<lparr>sk_atomic := b\<rparr>) ?cx" using assms(1,2) assms(4) e
    by (auto simp: tracks_def l1_ok_def only_at_def)
  ultimately show ?thesis by (auto simp: good_def)
qed

lemma with_entry_same:
  assumes "tracks env p a c0 sk cx" and "sk_entry sk" and "\<And>e. ce_isAtomic (f e) = ce_isAtomic e"
    and "\<And>e. ce_finalDestinationSet (f e) = ce_finalDestinationSet e"
  shows "good env p a c0 sk cx [] (with_entry cx a f)"
  using with_entry_good [OF assms(1,2), of f "sk_atomic sk"] assms(3,4) by simp

lemma update_present:
  assumes "tbe_wf rs t" and "TBETable_lookup t a = Some x"
  shows "tbe_wf rs (t\<lparr>tbe_map := AList.update a y (tbe_map t)\<rparr>)" "length (AList.update a y (tbe_map t)) = length (tbe_map t)"
proof -
  have "a \<in> set (map fst (tbe_map t))" using assms(2) by (auto simp: TBETable_lookup_def dest: map_of_SomeD intro: rev_image_eqI)
  then have keys: "map fst (AList.update a y (tbe_map t)) = map fst (tbe_map t)" by (simp add: update_keys)
  then show len: "length (AList.update a y (tbe_map t)) = length (tbe_map t)" by (metis length_map)
  show "tbe_wf rs (t\<lparr>tbe_map := AList.update a y (tbe_map t)\<rparr>)"
    using assms(1) keys len by (simp add: tbe_wf_def flip: set_map)
qed

lemma with_tbe_good:
  assumes "tracks env p a c0 sk cx" and "sk_tbe sk" and "\<And>t. tbe_firstScheduledTime (f t) = tbe_firstScheduledTime t"
    and "\<And>t. tbe_zeroArb (f t) = tbe_zeroArb t"
  shows "good env p a c0 sk cx [] (with_tbe cx a f)"
proof -
  obtain t where t: "TBETable_lookup (TBEs (cx_c cx)) a = Some t" "tbe_firstScheduledTime t = 0" "\<not> tbe_zeroArb t"
    using tracksD(4) [OF assms(1,2)] by blast
  let ?T = "(TBEs (cx_c cx))\<lparr>tbe_map := AList.update a (f t) (tbe_map (TBEs (cx_c cx)))\<rparr>"
  let ?cx = "cx\<lparr>cx_c := (cx_c cx)\<lparr>TBEs := ?T\<rparr>\<rparr>"
  note u = update_present [OF tracksD(9) [OF assms(1)] t(1), of "f t"]
  have "with_tbe cx a f = Inr ?cx" using t assms(2) tracksD(2) [OF assms(1)] by (simp add: with_tbe_def cx_lift_def modify_tbe_def)
  moreover have "tracks env p a c0 sk ?cx" using assms u t
    by (simp add: tracks_def l1_ok_def only_at_def TBETable_lookup_def update_conv')
  ultimately show ?thesis by (auto simp: good_def)
qed

lemma modify_line_good:
  assumes "tracks env p a c0 sk cx" and "sk_entry sk" and "line_address (le_rs env) a = a" and "\<And>e. m_Address (f e) = m_Address e"
    and "\<And>e. m_Permission e \<noteq> AccessPermission_NotPresent \<Longrightarrow> m_Permission (f e) \<noteq> AccessPermission_NotPresent"
  shows "good env p a c0 sk cx [] (cx_lift cx (modify_line env (cx_c cx) a f))"
proof -
  obtain e where e: "l1_line (cx_c cx) a = Some e" using tracksD(5) [OF assms(1,2)] by blast
  from modify_line_Inr [OF tracksD(8) [OF assms(1)] assms(3) e, of f] assms(4,5) obtain d i where
    m: "modify_line env (cx_c cx) a f = Inr ((cx_c cx)\<lparr>Dcache := d, Icache := i\<rparr>)" "caches_ok (le_rs env) ((cx_c cx)\<lparr>Dcache := d, Icache := i\<rparr>)"
      "l1_line ((cx_c cx)\<lparr>Dcache := d, Icache := i\<rparr>) = (l1_line (cx_c cx))(a \<mapsto> f e)" by blast
  let ?cx = "cx\<lparr>cx_c := (cx_c cx)\<lparr>Dcache := d, Icache := i\<rparr>\<rparr>"
  have "tracks env p a c0 sk ?cx" using assms(1,2) m(2,3) by (simp add: tracks_def l1_ok_def only_at_def)
  then show ?thesis using m(1) by (auto simp: good_def cx_lift_def)
qed

text \<open>Good steps in sequence.\<close>

lemma good_bind:
  assumes "good env p a c0 sk cx outs1 r" and "\<And>cx'. tracks env p a c0 sk cx' \<Longrightarrow> good env p a c0 sk' cx' outs2 (f cx')"
    and "outs = outs1 @ outs2"
  shows "good env p a c0 sk' cx outs (rbind r f)"
proof -
  obtain cx1 where 1: "r = Inr cx1" "tracks env p a c0 sk cx1" "sent_ports (cx_effects cx1) = sent_ports (cx_effects cx) @ outs1"
    using assms(1) by (auto simp: good_def)
  obtain cx2 where 2: "f cx1 = Inr cx2" "tracks env p a c0 sk' cx2" "sent_ports (cx_effects cx2) = sent_ports (cx_effects cx1) @ outs2"
    using assms(2) [OF 1(2)] by (auto simp: good_def)
  show ?thesis using 1 2 assms(3) by (auto simp: good_def)
qed

section \<open>Messages out\<close>

lemma request_to_all_Inr:
  assumes "env_ok env a"
  shows "\<exists>d n. request_to_all env a ty = Inr (new_request env a ty d) \<and> map_Address_to_Directory (le_dir env) a = Inr \<lparr>mach_type = MachineType_Directory, mach_num = n\<rparr> \<and>
    dests d = insert (MachineType_Directory, n) ({MachineType_L1Cache} \<times> {..<le_ct env ! MachineType_L1Cache})"
proof -
  have ct: "\<forall>n \<in> set (le_ct env). n < 32" "MachineType_L1Cache < length (le_ct env)" "MachineType_Directory < length (le_ct env)"
    using assms by (auto simp: env_ok_def MachineType_L1Cache_def MachineType_Directory_def)
  obtain n where n: "n < le_ct env ! MachineType_Directory" "map_Address_to_Directory (le_dir env) a = Inr \<lparr>mach_type = MachineType_Directory, mach_num = n\<rparr>"
    using assms by (auto simp: env_ok_def)
  obtain d0 where d0: "NetDest_new (le_ct env) = Inr d0" "net_dest_wf (le_ct env) d0" "dests d0 = {}" using NetDest_new_spec [OF ct(1)] by blast
  obtain d1 where d1: "NetDest_broadcast_type (le_ct env) d0 MachineType_L1Cache = Inr d1" "net_dest_wf (le_ct env) d1"
    "dests d1 = {MachineType_L1Cache} \<times> {..<le_ct env ! MachineType_L1Cache}"
    using NetDest_broadcast_type_spec [OF d0(2) ct(2)] d0(3) by auto
  obtain d2 where d2: "NetDest_add (le_ct env) d1 \<lparr>mach_type = MachineType_Directory, mach_num = n\<rparr> = Inr d2"
    "dests d2 = insert (MachineType_Directory, n) (dests d1)" using NetDest_add_spec [OF d1(2) ct(3) n(1)] by blast
  show ?thesis using d0(1) d1(1,3) d2 n(2) by (auto simp: request_to_all_def)
qed

lemma request_to_others_Inr:
  assumes "env_ok env a"
  shows "\<exists>d. request_to_others env a ty = Inr (new_request env a ty d) \<and>
    dests d = {MachineType_L1Cache} \<times> {..<le_ct env ! MachineType_L1Cache} - {(MachineType_L1Cache, mach_num (le_machineID env))}"
proof -
  have ct: "\<forall>n \<in> set (le_ct env). n < 32" "MachineType_L1Cache < length (le_ct env)"
    using assms by (auto simp: env_ok_def MachineType_L1Cache_def)
  obtain n where n: "n < le_ct env ! MachineType_L1Cache" "le_machineID env = \<lparr>mach_type = MachineType_L1Cache, mach_num = n\<rparr>"
    using assms by (auto simp: env_ok_def)
  obtain d0 where d0: "NetDest_new (le_ct env) = Inr d0" "net_dest_wf (le_ct env) d0" "dests d0 = {}" using NetDest_new_spec [OF ct(1)] by blast
  obtain d1 where d1: "NetDest_broadcast_type (le_ct env) d0 MachineType_L1Cache = Inr d1" "net_dest_wf (le_ct env) d1"
    "dests d1 = {MachineType_L1Cache} \<times> {..<le_ct env ! MachineType_L1Cache}"
    using NetDest_broadcast_type_spec [OF d0(2) ct(2)] d0(3) by auto
  obtain d2 where d2: "NetDest_remove (le_ct env) d1 \<lparr>mach_type = MachineType_L1Cache, mach_num = n\<rparr> = Inr d2"
    "dests d2 = dests d1 - {(MachineType_L1Cache, n)}" using NetDest_remove_spec [OF d1(2) ct(2) n(1)] by blast
  show ?thesis using d0(1) d1(1,3) d2 n(2) by (auto simp: request_to_others_def)
qed

lemma send_data_good:
  assumes "env_ok env a" and "tracks env p a c0 sk cx"
  shows "good env p a c0 sk cx [responseNetwork_out] (send_data env cx a b)"
proof -
  have ct: "\<forall>n \<in> set (le_ct env). n < 32" "MachineType_Directory < length (le_ct env)"
    using assms(1) by (auto simp: env_ok_def MachineType_Directory_def)
  obtain n where n: "n < le_ct env ! MachineType_Directory" "map_Address_to_Directory (le_dir env) a = Inr \<lparr>mach_type = MachineType_Directory, mach_num = n\<rparr>"
    using assms(1) by (auto simp: env_ok_def)
  obtain d0 where d0: "NetDest_new (le_ct env) = Inr d0" "net_dest_wf (le_ct env) d0" using NetDest_new_spec [OF ct(1)] by blast
  obtain d where "NetDest_add (le_ct env) d0 \<lparr>mach_type = MachineType_Directory, mach_num = n\<rparr> = Inr d"
    using NetDest_add_spec [OF d0(2) ct(2) n(1)] by blast
  then show ?thesis using d0 n(2) assms(2) by (simp add: send_data_def good_emit)
qed

text \<open>The message at the head of the port.\<close>

lemma port_ready_heap:
  assumes "port_ready env p b"
  shows "m_prio_heap b \<noteq> []" "\<exists>r. m_receiver b = Some r" "payload_ok env p (head_msg b)" "\<exists>sd. m_sender b = Some sd"
    "m_receiver b = Some r \<Longrightarrow> m_LastEnqueueTime (m_msgptr (hd (m_prio_heap b))) \<le> clockEdge (le_now env) r 0"
  using assms
  by (auto simp: port_ready_def MessageBuffer_isReady_def front_def deref_eq_Inr split: if_splits list.splits)

lemma peek_port_good:
  assumes "tracks env p a c0 sk cx" and "port_ready env p (ac_buf (l1_ctl c0) p)" and "sk_head sk"
  shows "peek_port cx p = Inr (head_msg (ac_buf (l1_ctl c0) p))"
proof (cases "m_prio_heap (ac_buf (l1_ctl c0) p)")
  case Nil
  then show ?thesis using port_ready_heap(1) [OF assms(2)] by simp
next
  case (Cons n ns)
  then show ?thesis using tracksD(7) [OF assms(1,3)] by (simp add: peek_port_def MessageBuffer_peek_def front_def head_msg_def)
qed

lemma dequeue_ready:
  assumes "buf_ok b" and "port_ready env p b"
  shows "\<exists>t m b'. MessageBuffer_dequeue (le_now env) b = Inr (t, m, b') \<and> buf_ok b' \<and> m_stall_msg_map b' = m_stall_msg_map b \<and>
    all_payloads b' = all_payloads b - {#head_msg b#}"
proof -
  note h = port_ready_heap [OF assms(2)]
  obtain r sd where rs: "m_receiver b = Some r" "m_sender b = Some sd" using h(2,4) by blast
  have inv: "mb_inv b" using assms(1) by (simp add: buf_ok_def)
  obtain t m b' where d: "MessageBuffer_dequeue (le_now env) b = Inr (t, m, b')"
    using dequeue_eq [OF inv h(1) rs, of "le_now env"] h(5) [OF rs(1)] by (auto simp: updateDelayedTicks_def Let_def)
  note ok = dequeue_buf_ok [OF assms(1) d]
  have "mset (m_prio_heap b) = add_mset (hd (m_prio_heap b)) (mset (m_prio_heap b'))" using dequeue_success [OF inv d] by blast
  from arg_cong [OF this, of "image_mset (\<lambda>n. payload (m_msgptr n))"] have "all_payloads b = add_mset (head_msg b) (all_payloads b')"
    using ok by (simp add: all_payloads_def buffered_messages_def head_msg_def image_mset.compositionality o_def)
  then show ?thesis using d ok by auto
qed

lemma issue_good:
  assumes "env_ok env a" and "tracks env p a c0 sk cx" and "port_ready env p (ac_buf (l1_ctl c0) p)" and "sk_head sk"
  shows "p = mandatoryQueue_in \<Longrightarrow> good env p a c0 sk cx [requestNetwork_out] (issue_plain env cx a ty)"
    and "p = mandatoryQueue_in \<Longrightarrow> good env p a c0 sk cx [requestNetwork_out] (issue_data env cx a ty)"
    and "p = mandatoryQueue_in \<Longrightarrow> good env p a c0 sk cx [atomicRequestNetwork_out] (issue_atomic env cx a ty)"
    and "p = requestNetwork_in \<Longrightarrow> good env p a c0 sk cx [requestNetwork_out] (do_action env a bm_issueGETMR cx)"
proof -
  note peek = peek_port_good [OF assms(2-4)]
  note pay = port_ready_heap(3) [OF assms(3)]
  obtain d where all: "request_to_all env a ty = Inr (new_request env a ty d)" using request_to_all_Inr [OF assms(1)] by blast
  obtain d' where others: "request_to_others env a ty = Inr (new_request env a ty d')" using request_to_others_Inr [OF assms(1)] by blast
  obtain d'' where getm: "request_to_all env a CoherenceRequestType_GETM = Inr (new_request env a CoherenceRequestType_GETM d'')"
    using request_to_all_Inr [OF assms(1)] by blast
  { assume p: "p = mandatoryQueue_in"
    then obtain r where r: "head_msg (ac_buf (l1_ctl c0) p) = MandatoryMsg r" using pay by (auto simp: payload_ok_def split: coherence_msg.splits)
    have "peek_port cx mandatoryQueue_in = Inr (MandatoryMsg r)" using peek p r by simp
    then show "good env p a c0 sk cx [requestNetwork_out] (issue_plain env cx a ty)"
      "good env p a c0 sk cx [requestNetwork_out] (issue_data env cx a ty)"
      "good env p a c0 sk cx [atomicRequestNetwork_out] (issue_atomic env cx a ty)"
      using all others assms(2)
      by (simp_all add: issue_plain_def issue_data_def issue_atomic_def send_request_def good_emit) }
  { assume p: "p = requestNetwork_in"
    then obtain r where r: "head_msg (ac_buf (l1_ctl c0) p) = RequestMsg r" using pay by (auto simp: payload_ok_def split: coherence_msg.splits)
    have "peek_port cx requestNetwork_in = Inr (RequestMsg r)" using peek p r by simp
    then show "good env p a c0 sk cx [requestNetwork_out] (do_action env a bm_issueGETMR cx)"
      using getm assms(2) by (simp add: send_request_def good_emit) }
qed

lemma issue_putm_good:
  assumes "env_ok env a" and "tracks env p a c0 sk cx" and "sk_entry sk"
  shows "good env p a c0 sk cx [requestNetworkWB_out] (issue_putm env cx a)"
proof -
  obtain d where "request_to_all env a CoherenceRequestType_PUTM = Inr (new_request env a CoherenceRequestType_PUTM d)"
    using request_to_all_Inr [OF assms(1)] by blast
  moreover obtain e where e: "l1_line (cx_c cx) a = Some e" using tracksD(5) [OF assms(2,3)] by blast
  have "line_address (le_rs env) a = a" using assms(1) by (simp add: env_ok_def)
  then have "entry_block env cx a = Inr (DataBlk e)"
    using line_block_Inr [OF tracksD(8) [OF assms(2)] _ e] tracksD(3) [OF assms(2)] assms(3) by (simp add: entry_block_def)
  ultimately show ?thesis using assms(2) by (simp add: issue_putm_def send_request_def good_emit)
qed

section \<open>The other actions\<close>

lemma entry_block_Inr:
  assumes "env_ok env a" and "tracks env p a c0 sk cx" and "sk_entry sk"
  shows "\<exists>e. l1_line (cx_c cx) a = Some e \<and> entry_block env cx a = Inr (DataBlk e)"
proof -
  obtain e where e: "l1_line (cx_c cx) a = Some e" using tracksD(5) [OF assms(2,3)] by blast
  have "line_address (le_rs env) a = a" using assms(1) by (simp add: env_ok_def)
  then show ?thesis
    using line_block_Inr [OF tracksD(8) [OF assms(2)] _ e] tracksD(3) [OF assms(2)] assms(3) e by (simp add: entry_block_def)
qed

lemma hit_good:
  assumes "env_ok env a" and "tracks env p a c0 sk cx" and "sk_entry sk"
  shows "good env p a c0 sk cx [] (load_hit env cx a initial)"
    and "(\<And>e. (ce_isAtomic e \<Longrightarrow> sk_atomic sk) \<Longrightarrow> ce_isAtomic (f e) \<Longrightarrow> b) \<Longrightarrow>
      (\<And>e. ce_finalDestinationSet (f e) = ce_finalDestinationSet e) \<Longrightarrow> good env p a c0 (sk\<lparr>sk_atomic := b\<rparr>) cx [] (store_hit env cx a initial f)"
proof -
  obtain e :: cache_entry where e: "entry_block env cx a = Inr (DataBlk e)" using entry_block_Inr [OF assms] by blast
  have line: "line_address (le_rs env) a = a" using assms(1) by (simp add: env_ok_def)
  have entry: "cx_entry cx" using tracksD(3) [OF assms(2)] assms(3) by simp
  show "good env p a c0 sk cx [] (load_hit env cx a initial)" using e entry assms(2) by (simp add: load_hit_def good_emit)
  assume f: "\<And>e. (ce_isAtomic e \<Longrightarrow> sk_atomic sk) \<Longrightarrow> ce_isAtomic (f e) \<Longrightarrow> b"
    "\<And>e. ce_finalDestinationSet (f e) = ce_finalDestinationSet e"
  let ?cx = "emit [WriteCallback a (DataBlk e) initial] cx"
  have t: "tracks env p a c0 sk ?cx" using assms(2) by simp
  have g: "good env p a c0 sk ?cx [] (cx_lift ?cx (modify_line env (cx_c ?cx) a (\<lambda>x. x\<lparr>DataBlk := le_write env a (DataBlk e)\<rparr>)))"
    by (rule modify_line_good [OF t assms(3) line]) simp_all
  have "good env p a c0 (sk\<lparr>sk_atomic := b\<rparr>) cx' [] (with_entry cx' a (\<lambda>e. f (e\<lparr>ce_Dirty := True\<rparr>)))" if "tracks env p a c0 sk cx'" for cx'
    by (rule with_entry_good [OF that assms(3)], rule f(1)) (auto simp: f(2))
  from good_bind [OF g this] have "good env p a c0 (sk\<lparr>sk_atomic := b\<rparr>) ?cx [] (rbind (cx_lift ?cx (modify_line env (cx_c ?cx) a
      (\<lambda>x. x\<lparr>DataBlk := le_write env a (DataBlk e)\<rparr>))) (\<lambda>cx'. with_entry cx' a (\<lambda>e. f (e\<lparr>ce_Dirty := True\<rparr>))))" by simp
  then show "good env p a c0 (sk\<lparr>sk_atomic := b\<rparr>) cx [] (store_hit env cx a initial f)"
    using e entry by (simp add: store_hit_def good_def)
qed

lemma allocate_tbe_good:
  assumes "env_ok env a" and "tracks env p a c0 sk cx" and "sk_entry sk" and "\<not> sk_tbe sk" and "sk_slot sk"
  shows "good env p a c0 (sk\<lparr>sk_tbe := True, sk_slot := False\<rparr>) cx [] (allocate_tbe env cx a atomic)"
proof -
  have line: "line_address (le_rs env) a = a" using assms(1) by (simp add: env_ok_def)
  have entry: "cx_entry cx" using tracksD(3) [OF assms(2)] assms(3) by simp
  obtain e where e: "l1_entries (cx_c cx) a = Some e" using tracksD(6) [OF assms(2,3)] by blast
  have "TBETable_lookup (TBEs (cx_c cx)) a = None" "int (length (tbe_map (TBEs (cx_c cx)))) < m_number_of_TBEs (TBEs (cx_c cx))"
    using assms(2,4,5) by (auto simp: tracks_def)
  from TBETable_allocate_spec [OF tracksD(9) [OF assms(2)] line this, of "l1_tbe_new env"] obtain t where
    t: "TBETable_allocate (le_rs env) (l1_tbe_new env) (TBEs (cx_c cx)) a = Inr t" "tbe_wf (le_rs env) t"
      "TBETable_lookup t = (TBETable_lookup (TBEs (cx_c cx)))(a \<mapsto> l1_tbe_new env)" by blast
  let ?cx = "cx\<lparr>cx_c := (cx_c cx)\<lparr>TBEs := t\<rparr>, cx_tbe := True\<rparr>" and ?sk = "sk\<lparr>sk_tbe := True, sk_slot := False\<rparr>"
  have tr: "tracks env p a c0 ?sk ?cx" using assms(2) t(2,3) by (simp add: tracks_def l1_ok_def only_at_def l1_tbe_new_def)
  then obtain e' :: cache_entry where e': "entry_block env ?cx a = Inr (DataBlk e')" using entry_block_Inr [OF assms(1) tr] assms(3) by auto
  have "good env p a c0 ?sk ?cx [] (with_tbe ?cx a (\<lambda>t. t\<lparr>tbe_Dirty := ce_Dirty e, tbe_DataBlk := DataBlk e', tbe_isAtomic := atomic\<rparr>))"
    by (rule with_tbe_good [OF tr]) simp_all
  moreover have "allocate_tbe env cx a atomic = with_tbe ?cx a (\<lambda>t. t\<lparr>tbe_Dirty := ce_Dirty e, tbe_DataBlk := DataBlk e', tbe_isAtomic := atomic\<rparr>)"
    using entry e t(1,3) e' by (simp add: allocate_tbe_def Let_def)
  ultimately show ?thesis by (simp add: good_def)
qed

lemma deallocate_tbe_good:
  assumes "env_ok env a" and "tracks env p a c0 sk cx" and "sk_tbe sk"
  shows "good env p a c0 (sk\<lparr>sk_tbe := False\<rparr>) cx [] (do_action env a s_deallocateTBE cx)"
proof -
  have line: "line_address (le_rs env) a = a" using assms(1) by (simp add: env_ok_def)
  have "TBETable_lookup (TBEs (cx_c cx)) a \<noteq> None" using tracksD(4) [OF assms(2,3)] by auto
  from TBETable_deallocate_spec [OF tracksD(9) [OF assms(2)] line this] obtain t where
    t: "TBETable_deallocate (le_rs env) (TBEs (cx_c cx)) a = Inr t" "tbe_wf (le_rs env) t" "m_number_of_TBEs t = m_number_of_TBEs (TBEs (cx_c cx))"
      "Suc (length (tbe_map t)) = length (tbe_map (TBEs (cx_c cx)))" "TBETable_lookup t = (TBETable_lookup (TBEs (cx_c cx)))(a := None)" by blast
  have "int (length (tbe_map t)) < int (length (tbe_map (TBEs (cx_c cx))))" using t(4) by simp
  then have "tracks env p a c0 (sk\<lparr>sk_tbe := False\<rparr>) (cx\<lparr>cx_c := (cx_c cx)\<lparr>TBEs := t\<rparr>, cx_tbe := False\<rparr>)"
    using assms(2) t(2,3,5) by (auto simp: tracks_def l1_ok_def only_at_def)
  then show ?thesis using t(1) by (simp add: good_def)
qed

lemma arbit_latency_returns: "\<exists>l. getArbitLatency t n False = Some (Inr l)"
  by (auto simp: getArbitLatency_def Let_def Cycles_minus_def ensure_def)

lemma smallestNodeID_ok:
  assumes "net_dest_wf ct d" and "dests d \<noteq> {}"
  shows "\<exists>n. NetDest_smallestNodeID d = Inr n"
proof -
  obtain i j where "0 < NetDest_count d" "first_machine (m_bits d) 0 = Inr (Some (i, j))"
    using NetDest_smallestElement_spec [OF assms] by (auto simp: NetDest_smallestElement_def split: option.splits)
  then show ?thesis by (simp add: NetDest_smallestNodeID_def)
qed

lemma write_data_good:
  assumes "env_ok env a" and "tracks env p a c0 sk cx" and "port_ready env p (ac_buf (l1_ctl c0) p)" and "sk_head sk"
    and "p = responseNetwork_in" and "sk_entry sk" and "sk_tbe sk"
  shows "good env p a c0 sk cx [] (write_data env cx a)"
proof -
  have line: "line_address (le_rs env) a = a" using assms(1) by (simp add: env_ok_def)
  obtain m where m: "head_msg (ac_buf (l1_ctl c0) p) = ResponseMsg m" "net_dest_wf (le_ct env) (rp_Destination m)" "dests (rp_Destination m) \<noteq> {}"
    using port_ready_heap(3) [OF assms(3)] assms(5) by (auto simp: payload_ok_def split: coherence_msg.splits)
  obtain core where core: "NetDest_smallestNodeID (rp_Destination m) = Inr core" using smallestNodeID_ok [OF m(2,3)] by blast
  have peek: "peek_port cx responseNetwork_in = Inr (ResponseMsg m)" using peek_port_good [OF assms(2-4)] m(1) assms(5) by simp
  let ?f = "\<lambda>cx2. ensure (cx_tbe cx2) NullDereference (
     rbind (deref (TBETable_lookup (TBEs (cx_c cx2)) a)) (\<lambda>t.
     rbind (Cycles_minus (rp_SendTime m) (tbe_firstScheduledTime t)) (\<lambda>inter.
     rbind (NetDest_smallestNodeID (rp_Destination m)) (\<lambda>core.
     rbind (case getArbitLatency (tbe_startTime t) (int core) (tbe_zeroArb t) of None \<Rightarrow> Inl NoReturn | Some r \<Rightarrow> r) (\<lambda>arbit.
     with_tbe cx2 a (\<lambda>t. t\<lparr>tbe_interCoreCohLatency := inter, tbe_CoreID := int core, tbe_arbitLatency := arbit\<rparr>))))))"
  have last: "good env p a c0 sk cx2 [] (?f cx2)" if t2: "tracks env p a c0 sk cx2" for cx2
  proof -
    obtain t where t: "TBETable_lookup (TBEs (cx_c cx2)) a = Some t" "tbe_firstScheduledTime t = 0" "\<not> tbe_zeroArb t"
      using tracksD(4) [OF t2 assms(7)] by blast
    obtain l where l: "getArbitLatency (tbe_startTime t) (int core) False = Some (Inr l)" using arbit_latency_returns by blast
    have "?f cx2 = with_tbe cx2 a (\<lambda>b. b\<lparr>tbe_interCoreCohLatency := rp_SendTime m, tbe_CoreID := int core, tbe_arbitLatency := l\<rparr>)"
      using t l core tracksD(2) [OF t2] assms(7) by (simp add: Cycles_minus_def)
    then show ?thesis using with_tbe_good [OF t2 assms(7)] by simp
  qed
  have mid: "good env p a c0 sk cx1 [] (with_entry cx1 a (\<lambda>e. e\<lparr>ce_Dirty := rp_Dirty m\<rparr>))" if "tracks env p a c0 sk cx1" for cx1
    by (rule with_entry_same [OF that assms(6)]) simp_all
  have first: "good env p a c0 sk cx [] (cx_lift cx (modify_line env (cx_c cx) a (\<lambda>e. e\<lparr>DataBlk := rp_DataBlk m\<rparr>)))"
    by (rule modify_line_good [OF assms(2,6) line]) simp_all
  have "good env p a c0 sk cx1 [] (rbind (with_entry cx1 a (\<lambda>e. e\<lparr>ce_Dirty := rp_Dirty m\<rparr>)) ?f)" if "tracks env p a c0 sk cx1" for cx1
    by (rule good_bind [OF mid [OF that] last]) simp_all
  from good_bind [OF first this] have "good env p a c0 sk cx [] (rbind (cx_lift cx (modify_line env (cx_c cx) a (\<lambda>e. e\<lparr>DataBlk := rp_DataBlk m\<rparr>)))
    (\<lambda>cx1. rbind (with_entry cx1 a (\<lambda>e. e\<lparr>ce_Dirty := rp_Dirty m\<rparr>)) ?f))" by simp
  then show ?thesis using peek tracksD(3) [OF assms(2)] assms(6) by (simp add: write_data_def)
qed

lemma l1_entry_new_Inr: "env_ok env a \<Longrightarrow> \<exists>e. l1_entry_new env = Inr e \<and> \<not> ce_isAtomic e \<and> net_dest_wf (le_ct env) (ce_finalDestinationSet e)"
  using NetDest_new_spec [of "le_ct env"] by (auto simp: env_ok_def l1_entry_new_def)

lemma allocate_good:
  assumes "env_ok env a" and "tracks env p a c0 sk cx" and "\<not> sk_entry sk"
  shows "sk_roomD sk \<Longrightarrow> good env p a c0 (sk\<lparr>sk_entry := True, sk_atomic := False\<rparr>) cx [] (allocate_d env cx a)"
    and "sk_roomI sk \<Longrightarrow> good env p a c0 (sk\<lparr>sk_entry := True, sk_atomic := False\<rparr>) cx [] (allocate_i env cx a)"
proof -
  have line: "a = line_address (le_rs env) a" using assms(1) by (simp add: env_ok_def)
  obtain e where e: "l1_entry_new env = Inr e" "\<not> ce_isAtomic e" "net_dest_wf (le_ct env) (ce_finalDestinationSet e)" using l1_entry_new_Inr [OF assms(1)] by blast
  have none: "cache_map (Dcache (cx_c cx)) a = None" "cache_map (Icache (cx_c cx)) a = None" and entry: "\<not> cx_entry cx"
    using assms(2,3) by (auto simp: tracks_def l1_line_def split: option.splits)
  have inv: "cache_inv (le_rs env) (Dcache (cx_c cx))" "cache_inv (le_rs env) (Icache (cx_c cx))"
    "\<And>b. cache_map (Dcache (cx_c cx)) b = None \<or> cache_map (Icache (cx_c cx)) b = None"
    using tracksD(8) [OF assms(2)] by (auto simp: caches_ok_def)
  let ?sk = "sk\<lparr>sk_entry := True, sk_atomic := False\<rparr>"
  have wf: "\<forall>b x. ((l1_entries (cx_c cx))(a \<mapsto> e)) b = Some x \<longrightarrow> net_dest_wf (le_ct env) (ce_finalDestinationSet x)"
    using tracksD(1) [OF assms(2)] e(3) by (auto simp: l1_ok_def)
  have tr: "tracks env p a c0 ?sk (cx\<lparr>cx_c := (cx_c cx)\<lparr>Dcache := d, Icache := i, l1_entries := (l1_entries (cx_c cx))(a \<mapsto> e)\<rparr>, cx_entry := True\<rparr>)"
    if "caches_ok (le_rs env) ((cx_c cx)\<lparr>Dcache := d, Icache := i\<rparr>)" "l1_line ((cx_c cx)\<lparr>Dcache := d, Icache := i\<rparr>) = (l1_line (cx_c cx))(a \<mapsto> l)" for d i l
    using assms(2) that e(2) wf by (simp add: tracks_def l1_ok_def only_at_def)
  { assume "sk_roomD sk"
    then have "free_way (Dcache (cx_c cx)) a" using assms(2,3) by (simp add: tracks_def)
    from CacheMemory_allocate_Inr [OF inv(1) line none(1) this, of "le_now env" "AbstractCacheEntry_new (le_block0 env)"] obtain e' d where
      d: "CacheMemory_allocate (le_now env) (le_rs env) (Dcache (cx_c cx)) a (AbstractCacheEntry_new (le_block0 env)) = Inr (e', d)"
        "cache_inv (le_rs env) d" "cache_map d = (cache_map (Dcache (cx_c cx)))(a \<mapsto> e')" by blast
    have "caches_ok (le_rs env) ((cx_c cx)\<lparr>Dcache := d, Icache := Icache (cx_c cx)\<rparr>)" using inv d(2,3) none by (simp add: caches_ok_def)
    moreover have "l1_line ((cx_c cx)\<lparr>Dcache := d, Icache := Icache (cx_c cx)\<rparr>) = (l1_line (cx_c cx))(a \<mapsto> e')"
      using d(3) by (intro ext) (simp add: l1_line_def split: option.split)
    ultimately have "tracks env p a c0 ?sk (cx\<lparr>cx_c := (cx_c cx)\<lparr>Dcache := d, Icache := Icache (cx_c cx), l1_entries := (l1_entries (cx_c cx))(a \<mapsto> e)\<rparr>, cx_entry := True\<rparr>)"
      by (rule tr)
    then show "good env p a c0 ?sk cx [] (allocate_d env cx a)" using d(1) e(1) entry by (simp add: good_def allocate_d_def) }
  { assume "sk_roomI sk"
    then have "free_way (Icache (cx_c cx)) a" using assms(2,3) by (simp add: tracks_def)
    from CacheMemory_allocate_Inr [OF inv(2) line none(2) this, of "le_now env" "AbstractCacheEntry_new (le_block0 env)"] obtain e' i where
      i: "CacheMemory_allocate (le_now env) (le_rs env) (Icache (cx_c cx)) a (AbstractCacheEntry_new (le_block0 env)) = Inr (e', i)"
        "cache_inv (le_rs env) i" "cache_map i = (cache_map (Icache (cx_c cx)))(a \<mapsto> e')" by blast
    have "caches_ok (le_rs env) ((cx_c cx)\<lparr>Dcache := Dcache (cx_c cx), Icache := i\<rparr>)" using inv i(2,3) none by (simp add: caches_ok_def)
    moreover have "l1_line ((cx_c cx)\<lparr>Dcache := Dcache (cx_c cx), Icache := i\<rparr>) = (l1_line (cx_c cx))(a \<mapsto> e')"
      using i(3) none by (intro ext) (simp add: l1_line_def split: option.split)
    ultimately have "tracks env p a c0 ?sk (cx\<lparr>cx_c := (cx_c cx)\<lparr>Dcache := Dcache (cx_c cx), Icache := i, l1_entries := (l1_entries (cx_c cx))(a \<mapsto> e)\<rparr>, cx_entry := True\<rparr>)"
      by (rule tr)
    then show "good env p a c0 ?sk cx [] (allocate_i env cx a)" using i(1) e(1) entry by (simp add: good_def allocate_i_def) }
qed

lemma deallocate_line_good:
  assumes "env_ok env a" and "tracks env p a c0 sk cx" and "sk_entry sk"
  shows "good env p a c0 (sk\<lparr>sk_entry := False, sk_atomic := False, sk_roomD := False, sk_roomI := False\<rparr>) cx [] (deallocate_line env cx a)"
proof -
  have line: "a = line_address (le_rs env) a" using assms(1) by (simp add: env_ok_def)
  have inv: "cache_inv (le_rs env) (Dcache (cx_c cx))" "cache_inv (le_rs env) (Icache (cx_c cx))"
    "\<And>b. cache_map (Dcache (cx_c cx)) b = None \<or> cache_map (Icache (cx_c cx)) b = None"
    using tracksD(8) [OF assms(2)] by (auto simp: caches_ok_def)
  note tp = isTagPresent_Inr [OF inv(1) line]
  let ?sk = "sk\<lparr>sk_entry := False, sk_atomic := False, sk_roomD := False, sk_roomI := False\<rparr>"
  have wf: "\<forall>b x. ((l1_entries (cx_c cx))(a := None)) b = Some x \<longrightarrow> net_dest_wf (le_ct env) (ce_finalDestinationSet x)"
    using tracksD(1) [OF assms(2)] by (auto simp: l1_ok_def)
  have tr: "tracks env p a c0 ?sk (cx\<lparr>cx_c := (cx_c cx)\<lparr>Dcache := d, Icache := i, l1_entries := (l1_entries (cx_c cx))(a := None)\<rparr>, cx_entry := False\<rparr>)"
    if "caches_ok (le_rs env) ((cx_c cx)\<lparr>Dcache := d, Icache := i\<rparr>)" "l1_line ((cx_c cx)\<lparr>Dcache := d, Icache := i\<rparr>) = (l1_line (cx_c cx))(a := None)" for d i
    using assms(2) that wf by (simp add: tracks_def l1_ok_def only_at_def)
  show ?thesis
  proof (cases "cache_map (Dcache (cx_c cx)) a")
    case None
    then have "cache_map (Icache (cx_c cx)) a \<noteq> None" using tracksD(5) [OF assms(2,3)] by (auto simp: l1_line_def)
    from CacheMemory_deallocate_Inr [OF inv(2) line this] obtain i where
      i: "CacheMemory_deallocate (le_rs env) (Icache (cx_c cx)) a = Inr i" "cache_inv (le_rs env) i"
        "cache_map i = (cache_map (Icache (cx_c cx)))(a := None)" by blast
    have "caches_ok (le_rs env) ((cx_c cx)\<lparr>Dcache := Dcache (cx_c cx), Icache := i\<rparr>)" using inv i(2,3) by (simp add: caches_ok_def)
    moreover have "l1_line ((cx_c cx)\<lparr>Dcache := Dcache (cx_c cx), Icache := i\<rparr>) = (l1_line (cx_c cx))(a := None)"
      using i(3) None by (intro ext) (simp add: l1_line_def split: option.split)
    ultimately have "tracks env p a c0 ?sk (cx\<lparr>cx_c := (cx_c cx)\<lparr>Dcache := Dcache (cx_c cx), Icache := i, l1_entries := (l1_entries (cx_c cx))(a := None)\<rparr>, cx_entry := False\<rparr>)"
      by (rule tr)
    then show ?thesis using i(1) tp None by (simp add: good_def deallocate_line_def)
  next
    case (Some e)
    then have "cache_map (Dcache (cx_c cx)) a \<noteq> None" by simp
    from CacheMemory_deallocate_Inr [OF inv(1) line this] obtain d where
      d: "CacheMemory_deallocate (le_rs env) (Dcache (cx_c cx)) a = Inr d" "cache_inv (le_rs env) d"
        "cache_map d = (cache_map (Dcache (cx_c cx)))(a := None)" by blast
    have "cache_map (Icache (cx_c cx)) a = None" using inv(3) [of a] Some by simp
    then have "l1_line ((cx_c cx)\<lparr>Dcache := d, Icache := Icache (cx_c cx)\<rparr>) = (l1_line (cx_c cx))(a := None)"
      using d(3) by (intro ext) (simp add: l1_line_def split: option.split)
    moreover have "caches_ok (le_rs env) ((cx_c cx)\<lparr>Dcache := d, Icache := Icache (cx_c cx)\<rparr>)" using inv d(2,3) by (simp add: caches_ok_def)
    ultimately have "tracks env p a c0 ?sk (cx\<lparr>cx_c := (cx_c cx)\<lparr>Dcache := d, Icache := Icache (cx_c cx), l1_entries := (l1_entries (cx_c cx))(a := None)\<rparr>, cx_entry := False\<rparr>)"
      by (intro tr)
    then show ?thesis using d(1) tp Some by (simp add: good_def deallocate_line_def)
  qed
qed

text \<open>Ports: taking the message, stalling it, waking others.\<close>

lemma tracks_ctl:
  assumes "tracks env p a c0 sk cx" and "waiting_sound l1_rank k" and "m_in_ports k = 5" and "m_cur_in_port k = l1_rank p"
    and "\<And>q. all_payloads (ac_buf k q) = all_payloads (ac_buf (l1_ctl c0) q) -
        (if q = p \<and> sk_popped sk' then {#head_msg (ac_buf (l1_ctl c0) p)#} else {#})"
    and "sk' = sk\<lparr>sk_head := False, sk_popped := pop\<rparr>"
  shows "tracks env p a c0 sk' (cx\<lparr>cx_c := (cx_c cx)\<lparr>l1_ctl := k\<rparr>\<rparr>)"
  using assms by (simp add: tracks_def l1_ok_def only_at_def)

lemma dequeue_port_good:
  assumes "tracks env p a c0 sk cx" and "port_ready env p (ac_buf (l1_ctl c0) p)" and "sk_head sk"
  shows "\<exists>t cx'. dequeue_port env p cx = Inr (t, cx') \<and> tracks env p a c0 (sk\<lparr>sk_head := False, sk_popped := True\<rparr>) cx' \<and>
    cx_effects cx' = cx_effects cx"
proof -
  let ?k = "l1_ctl (cx_c cx)" and ?b = "ac_buf (l1_ctl c0) p"
  have buf: "ac_buf ?k p = ?b" using tracksD(7) [OF assms(1,3)] by (simp add: l1_buf_def)
  have ok: "buf_ok ?b" using waiting_soundD(2) [OF tracksD(10) [OF assms(1)], of p] buf by simp
  obtain t m b where d: "MessageBuffer_dequeue (le_now env) ?b = Inr (t, m, b)" "buf_ok b" "m_stall_msg_map b = m_stall_msg_map ?b"
    "all_payloads b = all_payloads ?b - {#head_msg ?b#}" using dequeue_ready [OF ok assms(2)] by blast
  let ?k' = "set_buf ?k p b"
  have "waiting_sound l1_rank ?k'"
    using waiting_sound_cong [OF tracksD(10) [OF assms(1)], of ?k'] waiting_soundD(2) [OF tracksD(10) [OF assms(1)]] d(2,3) buf
    by (simp add: set_buf_def)
  moreover have "all_payloads (ac_buf ?k q) = all_payloads (ac_buf (l1_ctl c0) q)" for q
    using assms(1,3) by (simp add: tracks_def)
  moreover have "m_in_ports ?k = 5" "m_cur_in_port ?k = l1_rank p" using assms(1) by (simp_all add: tracks_def l1_ok_def)
  ultimately have "tracks env p a c0 (sk\<lparr>sk_head := False, sk_popped := True\<rparr>) (cx\<lparr>cx_c := (cx_c cx)\<lparr>l1_ctl := ?k'\<rparr>\<rparr>)"
    using d(4) by (intro tracks_ctl [OF assms(1)]) (simp_all add: set_buf_def)
  then show ?thesis using d(1) buf by (simp add: dequeue_port_def l1_buf_def)
qed

lemma stall_port_good:
  assumes "env_ok env a" and "tracks env p a c0 sk cx" and "port_ready env p (ac_buf (l1_ctl c0) p)" and "sk_head sk"
  shows "good env p a c0 (sk\<lparr>sk_head := False\<rparr>) cx [] (stall_port env p cx a)"
proof -
  let ?k = "l1_ctl (cx_c cx)" and ?b = "ac_buf (l1_ctl c0) p"
  have buf: "ac_buf ?k p = ?b" using tracksD(7) [OF assms(2,4)] by (simp add: l1_buf_def)
  have ok: "buf_ok ?b" using waiting_soundD(2) [OF tracksD(10) [OF assms(2)], of p] buf by simp
  obtain t m b where d: "MessageBuffer_dequeue (le_now env) ?b = Inr (t, m, b)" using dequeue_ready [OF ok assms(3)] by blast
  have wf: "ruby_system_wf (le_rs env)" "0 < m_block_size_bits (le_rs env)" and line: "line_address (le_rs env) a = a"
    using assms(1) by (simp_all add: env_ok_def)
  have "\<not> bit a n" if "n < m_block_size_bits (le_rs env)" for n using bit_line_address [OF wf(1), of a n] line that by simp
  then have "take_bit (m_block_size_bits (le_rs env)) a = 0" by (auto simp: bit_take_bit_iff intro!: bit_word_eqI)
  then have "getOffset (le_rs env) a = Inr 0" using getOffset_Inr [OF wf(2)] by simp
  then obtain b' where b': "stallMessage (le_now env) (le_rs env) (ac_buf ?k p) a = Inr b'" using d buf by (simp add: stallMessage_def)
  have fields: "m_in_ports ?k = 5" "m_cur_in_port ?k = l1_rank p" "l1_rank p < 5" using assms(2) by (cases p; simp add: tracks_def l1_ok_def)+
  have less: "stalled (ac_buf ?k p) < mb_budget (ac_buf ?k p)" using assms(3) buf by (simp add: port_ready_def)
  from stall_and_wait_sound [OF tracksD(10) [OF assms(2)] fields(2) _ less b'] fields obtain k where
    k: "stall_and_wait (le_now env) (le_rs env) ?k p a = Inr k" "waiting_sound l1_rank k" "ac_buf k = (ac_buf ?k)(p := b')" "m_in_ports k = 5"
      "m_cur_in_port k = l1_rank p" by auto
  have "all_payloads b' = all_payloads ?b"
    using stallMessage_buf_ok [OF waiting_soundD(2) [OF tracksD(10) [OF assms(2)], of p] less b'] buf by simp
  moreover have "all_payloads (ac_buf ?k q) = all_payloads (ac_buf (l1_ctl c0) q)" "\<not> sk_popped sk" for q
    using assms(2,4) by (simp_all add: tracks_def)
  ultimately have "tracks env p a c0 (sk\<lparr>sk_head := False\<rparr>) (cx\<lparr>cx_c := (cx_c cx)\<lparr>l1_ctl := k\<rparr>\<rparr>)"
    using k by (intro tracks_ctl [OF assms(2), of _ _ False]) simp_all
  then show ?thesis using k(1) by (simp add: good_def stall_port_def)
qed

lemma wake_with_good:
  assumes "env_ok env a" and "tracks env p a c0 sk cx" and "\<not> sk_atomic sk" and "\<not> sk_head sk"
    and "\<exists>k' calls. f (l1_ctl (cx_c cx)) = Inr (k', calls) \<and> waiting_sound l1_rank k' \<and> m_in_ports k' = m_in_ports (l1_ctl (cx_c cx)) \<and>
      m_cur_in_port k' = m_cur_in_port (l1_ctl (cx_c cx)) \<and> (\<forall>q. all_payloads (ac_buf k' q) = all_payloads (ac_buf (l1_ctl (cx_c cx)) q))"
  shows "good env p a c0 sk cx [] (wake_with env cx a f)"
proof -
  have line: "line_address (le_rs env) a = a" using assms(1) by (simp add: env_ok_def)
  note entry = getL1CacheEntry_Inr [OF tracksD(8) [OF assms(2)] line]
  have at: "isAtomic env (cx_c cx) a = Inr False"
  proof (cases "l1_line (cx_c cx) a")
    case None
    then show ?thesis using entry by (simp add: isAtomic_def)
  next
    case (Some e)
    then have "sk_entry sk" using assms(2) by (simp add: tracks_def)
    then obtain e' where "l1_entries (cx_c cx) a = Some e'" using tracksD(6) [OF assms(2)] by blast
    moreover have "\<not> ce_isAtomic e'" using calculation assms(2,3) by (auto simp: tracks_def)
    ultimately show ?thesis using entry Some by (simp add: isAtomic_def)
  qed
  obtain k' calls where k: "f (l1_ctl (cx_c cx)) = Inr (k', calls)" "waiting_sound l1_rank k'" "m_in_ports k' = m_in_ports (l1_ctl (cx_c cx))"
    "m_cur_in_port k' = m_cur_in_port (l1_ctl (cx_c cx))" "\<And>q. all_payloads (ac_buf k' q) = all_payloads (ac_buf (l1_ctl (cx_c cx)) q)"
    using assms(5) by blast
  have fields: "m_in_ports k' = 5" "m_cur_in_port k' = l1_rank p" using assms(2) k(3,4) by (simp_all add: tracks_def l1_ok_def)
  have pay: "all_payloads (ac_buf k' q) = all_payloads (ac_buf (l1_ctl c0) q) - (if q = p \<and> sk_popped sk then {#head_msg (ac_buf (l1_ctl c0) p)#} else {#})" for q
    using assms(2) k(5) by (simp add: tracks_def)
  have "sk = sk\<lparr>sk_head := False, sk_popped := sk_popped sk\<rparr>" using assms(4) by simp
  then have "tracks env p a c0 sk (cx\<lparr>cx_c := (cx_c cx)\<lparr>l1_ctl := k'\<rparr>\<rparr>)" by (rule tracks_ctl [OF assms(2) k(2) fields pay])
  then have "good env p a c0 sk (cx\<lparr>cx_c := (cx_c cx)\<lparr>l1_ctl := k'\<rparr>\<rparr>) [] (Inr (emit (map Wake calls) (cx\<lparr>cx_c := (cx_c cx)\<lparr>l1_ctl := k'\<rparr>\<rparr>)))"
    by (rule good_emit) simp
  then show ?thesis using at k(1) by (simp add: good_def wake_with_def)
qed

lemma pop_good:
  assumes "tracks env p a c0 sk cx" and "port_ready env p (ac_buf (l1_ctl c0) p)" and "sk_head sk"
    and "\<And>t cx'. tracks env p a c0 (sk\<lparr>sk_head := False, sk_popped := True\<rparr>) cx' \<Longrightarrow>
      good env p a c0 (sk\<lparr>sk_head := False, sk_popped := True\<rparr>) cx' [] (f t cx')"
  shows "good env p a c0 (sk\<lparr>sk_head := False, sk_popped := True\<rparr>) cx [] (rbind (dequeue_port env p cx) (\<lambda>(t, cx'). f t cx'))"
proof -
  obtain t cx' where d: "dequeue_port env p cx = Inr (t, cx')" "tracks env p a c0 (sk\<lparr>sk_head := False, sk_popped := True\<rparr>) cx'"
    "cx_effects cx' = cx_effects cx" using dequeue_port_good [OF assms(1-3)] by blast
  show ?thesis using assms(4) [OF d(2), of t] d(1,3) by (simp add: good_def)
qed

lemma copy_time_good:
  assumes "tracks env p a c0 sk cx" and "sk_entry sk" and "sk_tbe sk"
  shows "good env p a c0 sk cx [] (do_action env a copyStartTimeCETBE cx)"
proof -
  obtain e where "l1_entries (cx_c cx) a = Some e" using tracksD(6) [OF assms(1,2)] by blast
  then show ?thesis using with_tbe_good [OF assms(1,3)] tracksD(3) [OF assms(1)] assms(2) by simp
qed

lemma profile_inv_good:
  assumes "env_ok env a" and "tracks env p a c0 sk cx" and "port_ready env p (ac_buf (l1_ctl c0) p)" and "sk_head sk"
    and "p = requestNetwork_in"
  shows "good env p a c0 sk cx [] (do_action env a uu_profilecoherence_inv cx)"
proof -
  obtain r where r: "head_msg (ac_buf (l1_ctl c0) p) = RequestMsg r" "net_dest_wf (le_ct env) (rq_Destination r)"
    "(mach_type (le_machineID env), mach_num (le_machineID env)) \<in> dests (rq_Destination r)"
    using port_ready_heap(3) [OF assms(3)] assms(5) by (auto simp: payload_ok_def split: coherence_msg.splits)
  have len: "MachineType_L1Cache < length (le_ct env)" using assms(1) by (auto simp: env_ok_def MachineType_L1Cache_def)
  obtain n where n: "n < le_ct env ! MachineType_L1Cache" "le_machineID env = \<lparr>mach_type = MachineType_L1Cache, mach_num = n\<rparr>"
    using assms(1) by (auto simp: env_ok_def)
  have "NetDest_isElement (le_ct env) (rq_Destination r) (le_machineID env) = Inr True"
    using NetDest_isElement_spec [OF r(2) len n(1)] r(3) n(2) by simp
  moreover have "peek_port cx requestNetwork_in = Inr (RequestMsg r)" using peek_port_good [OF assms(2-4)] r(1) assms(5) by simp
  ultimately show ?thesis using assms(2) by (simp add: good_keep)
qed

lemma wake_good:
  assumes "env_ok env a" and "tracks env p a c0 sk cx" and "\<not> sk_atomic sk" and "\<not> sk_head sk"
  shows "good env p a c0 sk cx [] (do_action env a kd_wakeUpDependents cx)"
    and "good env p a c0 sk cx [] (do_action env a ka_wakeUpAllDependents cx)"
proof -
  note ws = tracksD(10) [OF assms(2)]
  have r: "m_cur_in_port (l1_ctl (cx_c cx)) \<le> m_in_ports (l1_ctl (cx_c cx))"
    using assms(2) by (cases p) (simp_all add: tracks_def l1_ok_def)
  show "good env p a c0 sk cx [] (do_action env a kd_wakeUpDependents cx)"
    using wake_with_good [OF assms, of "\<lambda>k. wakeUpBuffers (le_now env) k a"] wake_ranks_sound [OF ws r, of "le_now env" a]
    by (auto simp: wakeUpBuffers_def)
  show "good env p a c0 sk cx [] (do_action env a ka_wakeUpAllDependents cx)"
    using wake_with_good [OF assms, of "wakeUpAllBuffers (le_now env)"] wakeUpAllBuffers_sound [OF ws, of "le_now env"]
    by auto
qed

lemma guarded_Some: "guarded b sk = Some sk' \<longleftrightarrow> b \<and> sk' = sk"
  by (auto simp: guarded_def)

text \<open>Every action follows its abstraction.\<close>

lemma do_action_good:
  assumes "env_ok env a" and "port_ready env p (ac_buf (l1_ctl c0) p)" and "tracks env p a c0 sk cx"
    and "abs_action p act sk = Some sk'"
  shows "good env p a c0 sk' cx (out_needs act) (do_action env a act cx)"
proof -
  note issue = issue_good [OF assms(1,3,2)] and putm = issue_putm_good [OF assms(1,3)] and data = send_data_good [OF assms(1,3)]
  note peek = peek_port_good [OF assms(3,2)] and pay = port_ready_heap(3) [OF assms(2)]
  note stall = stall_port_good [OF assms(1,3,2)]
  have sends: "good env p a c0 sk cx [responseNetwork_out] (do_action env a cc_sendDataCacheToDir cx)" if "sk_entry sk"
    using entry_block_Inr [OF assms(1,3) that] data tracksD(3) [OF assms(3)] that by auto
  have sends': "good env p a c0 sk cx [responseNetwork_out] (do_action env a ct_sendDataTBEToDir cx)" if "sk_tbe sk"
    using tracksD(4) [OF assms(3) that] data tracksD(2) [OF assms(3)] that by auto
  have putms: "good env p a c0 sk cx [requestNetworkWB_out] (do_action env a bpm_issuePUTM cx)" if "p = mandatoryQueue_in" "sk_head sk" "sk_entry sk"
    using peek [OF that(2)] pay putm [OF that(3)] that(1) by (auto simp: payload_ok_def split: coherence_msg.splits)
  have putmr: "good env p a c0 sk cx [requestNetworkWB_out] (do_action env a bpm_issuePUTMR cx)" if "p = requestNetwork_in" "sk_head sk" "sk_entry sk"
    using peek [OF that(2)] pay putm [OF that(3)] that(1) by (auto simp: payload_ok_def split: coherence_msg.splits)
  have pop: "good env p a c0 (sk\<lparr>sk_head := False, sk_popped := True\<rparr>) cx [] (pop_port env p cx)" if "sk_head sk"
    unfolding pop_port_def by (rule pop_good [OF assms(3,2) that]) (rule good_keep)
  have startT: "good env p a c0 (sk\<lparr>sk_head := False, sk_popped := True\<rparr>) cx [] (do_action env a setStartTime cx)"
    if "p = mandatoryQueue_in" "sk_head sk" "sk_tbe sk"
    using pop_good [OF assms(3,2) that(2), of "\<lambda>t cx1. with_tbe cx1 a (\<lambda>b. b\<lparr>tbe_startTime := t\<rparr>)"] with_tbe_good that by simp
  have startE: "good env p a c0 (sk\<lparr>sk_head := False, sk_popped := True\<rparr>) cx [] (do_action env a setStartTimeCE cx)"
    if "p = mandatoryQueue_in" "sk_head sk" "sk_entry sk"
    using pop_good [OF assms(3,2) that(2), of "\<lambda>t cx1. with_entry cx1 a (\<lambda>e. e\<lparr>ce_startTime := t\<rparr>)"] with_entry_same that by simp
  have atomicD: "good env p a c0 (sk\<lparr>sk_entry := True, sk_atomic := True\<rparr>) cx [] (do_action env a oo_allocateAtomicL1DCacheBlock cx)"
    if "\<not> sk_entry sk" "sk_roomD sk"
    using good_bind [OF allocate_good(1) [OF assms(1,3) that] with_entry_good [of env p a c0 "sk\<lparr>sk_entry := True, sk_atomic := False\<rparr>" _ "\<lambda>e. e\<lparr>ce_isAtomic := True\<rparr>" True]]
    by simp
  have blocked: "tracks env p a c0 sk (cx\<lparr>cx_c := (cx_c cx)\<lparr>is_blocked := i\<rparr>\<rparr>)" for i
    using assms(3) by (simp add: tracks_def l1_ok_def only_at_def)
  have block: "good env p a c0 sk cx [] (do_action env a setBlocked cx)" "good env p a c0 sk cx [] (do_action env a setUnblocked cx)"
    using blocked by (simp_all add: good_def)
  have hit: "good env p a c0 sk cx [] (store_hit env cx a i (\<lambda>e. e))" if "sk_entry sk" for i
    using hit_good(2) [OF assms(1,3) that, of "\<lambda>e. e" "sk_atomic sk" i] by simp
  have hits: "good env p a c0 (sk\<lparr>sk_atomic := b\<rparr>) cx [] (store_hit env cx a i (\<lambda>e. e\<lparr>ce_isAtomic := b\<rparr>))" if "sk_entry sk" for i b
    using hit_good(2) [OF assms(1,3) that, of "\<lambda>e. e\<lparr>ce_isAtomic := b\<rparr>" b i] by simp
  note rest = issue putm sends sends' putms putmr pop startT startE atomicD block hit hits stall good_keep [OF assms(3)]
    hit_good(1) [OF assms(1,3)] allocate_tbe_good [OF assms(1,3)] deallocate_tbe_good [OF assms(1,3)] copy_time_good [OF assms(3)]
    write_data_good [OF assms(1,3,2)] deallocate_line_good [OF assms(1,3)] allocate_good [OF assms(1,3)]
    profile_inv_good [OF assms(1,3,2)] wake_good [OF assms(1,3)]
  show ?thesis
    using assms(4) rest
    by (cases act; simp only: abs_action_def Let_def l1_action.case guarded_Some out_needs_def do_action.simps option.inject simp_thms;
        auto simp only: simp_thms)
qed

section \<open>Whole transitions\<close>

text \<open>The actions that take the message out of its port.\<close>

definition takes_message :: "l1_action list \<Rightarrow> bool" where
  "takes_message acts = list_ex (\<lambda>act. act \<in> set [k_popMandatoryQueue, setStartTime, setStartTimeCE, l_popRequestQueue,
     l_popRequestWBQueue, l_popAtomicRequestQueue, o_popIncomingResponseQueue]) acts"

lemma abs_action_popped: "abs_action p act sk = Some sk' \<Longrightarrow> sk_popped sk' \<longleftrightarrow> sk_popped sk \<or> takes_message [act]"
  by (cases act) (auto simp: abs_action_def Let_def guarded_Some takes_message_def)

lemma abs_run_popped: "abs_run p acts sk = Some sk' \<Longrightarrow> sk_popped sk' \<longleftrightarrow> sk_popped sk \<or> takes_message acts"
proof (induction acts arbitrary: sk)
  case Nil
  then show ?case by (simp add: takes_message_def)
next
  case (Cons act acts)
  then obtain sk1 where "abs_action p act sk = Some sk1" "abs_run p acts sk1 = Some sk'" by (auto split: option.splits)
  from abs_action_popped [OF this(1)] Cons.IH [OF this(2)] show ?case by (auto simp: takes_message_def)
qed

lemma run_good:
  assumes "env_ok env a" and "port_ready env p (ac_buf (l1_ctl c0) p)" and "tracks env p a c0 sk cx" and "abs_run p acts sk = Some sk'"
  shows "good env p a c0 sk' cx (concat (map out_needs acts)) (rfold (\<lambda>cx act. do_action env a act cx) cx acts)"
  using assms(3,4)
proof (induction acts arbitrary: sk cx)
  case Nil
  then show ?case by (simp add: good_keep)
next
  case (Cons act acts)
  then obtain sk1 where sk1: "abs_action p act sk = Some sk1" "abs_run p acts sk1 = Some sk'" by (auto split: option.splits)
  have "good env p a c0 sk' cx (out_needs act @ concat (map out_needs acts))
      (rbind (do_action env a act cx) (\<lambda>cx1. rfold (\<lambda>cx act. do_action env a act cx) cx1 acts))"
    by (rule good_bind [OF do_action_good [OF assms(1,2) Cons.prems(1) sk1(1)] Cons.IH [OF _ sk1(2)]]) simp_all
  then show ?case by simp
qed

text \<open>The state of an address, and what it says about its transaction and its line.\<close>

definition l1_st :: "l1_ctrl \<Rightarrow> addr \<Rightarrow> l1_state" where
  "l1_st c a = (case TBETable_lookup (TBEs c) a of Some t \<Rightarrow> tbe_State t
     | None \<Rightarrow> (case l1_entries c a of Some e \<Rightarrow> ce_State e | None \<Rightarrow> L1_I))"

definition addr_ok :: "l1_ctrl \<Rightarrow> addr \<Rightarrow> bool" where
  "addr_ok c a \<longleftrightarrow> l1_st c a \<in> set live_states \<and> (TBETable_lookup (TBEs c) a \<noteq> None) = (l1_st c a \<in> set tbe_states) \<and>
     (\<forall>t. TBETable_lookup (TBEs c) a = Some t \<longrightarrow> tbe_firstScheduledTime t = 0 \<and> \<not> tbe_zeroArb t) \<and>
     (l1_line c a \<noteq> None) = (l1_st c a \<noteq> L1_I) \<and> (l1_entries c a \<noteq> None) = (l1_st c a \<noteq> L1_I) \<and>
     (\<forall>e. l1_entries c a = Some e \<longrightarrow> ce_State e = l1_st c a \<and> (ce_isAtomic e \<longrightarrow> l1_st c a \<in> set atomic_states)) \<and>
     (\<forall>l. l1_line c a = Some l \<longrightarrow> m_Permission l = L1Cache_State_to_permission (l1_st c a))"

definition l1_inv :: "l1_env \<Rightarrow> l1_ctrl \<Rightarrow> bool" where
  "l1_inv env c \<longleftrightarrow> l1_ok env c \<and> (\<forall>a. addr_ok c a)"

lemma live_permission: "s \<in> set live_states \<Longrightarrow> L1Cache_State_to_permission s \<noteq> AccessPermission_NotPresent"
proof -
  have "list_all (\<lambda>s. L1Cache_State_to_permission s \<noteq> AccessPermission_NotPresent) live_states" by code_simp
  then show "s \<in> set live_states \<Longrightarrow> ?thesis" unfolding list_all_iff by blast
qed

lemma getState_Inr:
  assumes "l1_inv env c" and "line_address (le_rs env) a = a"
  shows "getL1CacheEntry env c a = Inr (l1_st c a \<noteq> L1_I)" "getState env c (tbe_valid c a) (l1_st c a \<noteq> L1_I) a = Inr (l1_st c a)"
proof -
  have ok: "caches_ok (le_rs env) c" "addr_ok c a" using assms(1) by (simp_all add: l1_inv_def l1_ok_def)
  show "getL1CacheEntry env c a = Inr (l1_st c a \<noteq> L1_I)" using getL1CacheEntry_Inr [OF ok(1) assms(2)] ok(2) by (simp add: addr_ok_def)
  show "getState env c (tbe_valid c a) (l1_st c a \<noteq> L1_I) a = Inr (l1_st c a)"
  proof (cases "TBETable_lookup (TBEs c) a")
    case None
    then show ?thesis using one_cache_Inr [OF ok(1) assms(2)] ok(2)
      by (cases "l1_entries c a") (simp_all add: getState_def tbe_valid_def addr_ok_def l1_st_def)
  next
    case (Some t)
    then show ?thesis using one_cache_Inr [OF ok(1) assms(2)] by (simp add: getState_def tbe_valid_def l1_st_def)
  qed
qed

text \<open>The end of a transition: state and permission are written.\<close>

lemma setState_Inr:
  assumes "env_ok env a" and "tracks env p a c0 sk cx"
  shows "\<exists>T E. setState env (cx_c cx) (cx_tbe cx) (cx_entry cx) a s = Inr ((cx_c cx)\<lparr>TBEs := T, l1_entries := E\<rparr>) \<and> tbe_wf (le_rs env) T \<and>
    TBETable_lookup T = (if sk_tbe sk then (TBETable_lookup (TBEs (cx_c cx)))(a := map_option (\<lambda>t. t\<lparr>tbe_State := s\<rparr>) (TBETable_lookup (TBEs (cx_c cx)) a))
      else TBETable_lookup (TBEs (cx_c cx))) \<and>
    E = (l1_entries (cx_c cx))(a := map_option (\<lambda>e. e\<lparr>ce_State := s\<rparr>) (l1_entries (cx_c cx) a))"
proof -
  have line: "line_address (le_rs env) a = a" using assms(1) by (simp add: env_ok_def)
  note one = one_cache_Inr [OF tracksD(8) [OF assms(2)] line]
  note td = tracksD [OF assms(2)]
  let ?c = "cx_c cx"
  obtain T where T: "(if cx_tbe cx then modify_tbe ?c a (\<lambda>t. t\<lparr>tbe_State := s\<rparr>) else Inr ?c) = Inr (?c\<lparr>TBEs := T\<rparr>)" "tbe_wf (le_rs env) T"
    "TBETable_lookup T = (if sk_tbe sk then (TBETable_lookup (TBEs ?c))(a := map_option (\<lambda>t. t\<lparr>tbe_State := s\<rparr>) (TBETable_lookup (TBEs ?c) a))
      else TBETable_lookup (TBEs ?c))"
  proof (cases "sk_tbe sk")
    case True
    then obtain t where t: "TBETable_lookup (TBEs ?c) a = Some t" using td(4) by blast
    show thesis
      by (rule that [of "(TBEs ?c)\<lparr>tbe_map := AList.update a (t\<lparr>tbe_State := s\<rparr>) (tbe_map (TBEs ?c))\<rparr>"])
        (use True t td(2) update_present [OF td(9) t] in \<open>simp_all add: modify_tbe_def TBETable_lookup_def update_conv' fun_eq_iff\<close>)
  next
    case False
    then show thesis using that [of "TBEs ?c"] td(2,9) by simp
  qed
  let ?c1 = "?c\<lparr>TBEs := T\<rparr>" and ?E = "(l1_entries ?c)(a := map_option (\<lambda>e. e\<lparr>ce_State := s\<rparr>) (l1_entries ?c a))"
  have "(if cx_entry cx then modify_entry ?c1 a (\<lambda>e. e\<lparr>ce_State := s\<rparr>) else Inr ?c1) = Inr (?c1\<lparr>l1_entries := ?E\<rparr>)"
  proof (cases "sk_entry sk")
    case True
    then show ?thesis using td(3) td(6) by (auto simp: modify_entry_def)
  next
    case False
    then have "l1_entries ?c a = None" using assms(2) by (simp add: tracks_def)
    then have "?E = l1_entries ?c" by auto
    then show ?thesis using False td(3) by simp
  qed
  then have "setState env ?c (cx_tbe cx) (cx_entry cx) a s = Inr (?c1\<lparr>l1_entries := ?E\<rparr>)"
    using one T(1) by (simp add: setState_def)
  then show ?thesis using T(2,3) by blast
qed

lemma setAccessPermission_Inr:
  assumes "caches_ok (le_rs env) c" and "line_address (le_rs env) a = a" and "s \<in> set live_states" and "entry = (l1_line c a \<noteq> None)"
  shows "\<exists>d i f. setAccessPermission env c entry a s = Inr (c\<lparr>Dcache := d, Icache := i\<rparr>) \<and> caches_ok (le_rs env) (c\<lparr>Dcache := d, Icache := i\<rparr>) \<and>
    l1_line (c\<lparr>Dcache := d, Icache := i\<rparr>) = (l1_line c)(a := map_option f (l1_line c a)) \<and>
    (\<forall>e. m_Permission (f e) = L1Cache_State_to_permission s)"
proof (cases "l1_line c a")
  case None
  have "l1_line c = (l1_line c)(a := map_option f (l1_line c a))" for f using None by auto
  then show ?thesis using assms(1,4) None
    by (intro exI [of _ "Dcache c"] exI [of _ "Icache c"] exI [of _ "\<lambda>e. e\<lparr>m_Permission := L1Cache_State_to_permission s\<rparr>"])
      (simp add: setAccessPermission_def)
next
  case (Some e)
  let ?f = "\<lambda>e. AbstractCacheEntry_changePermission e (L1Cache_State_to_permission s)"
  have f: "m_Address (?f e) = m_Address e" "m_Permission (?f e) = L1Cache_State_to_permission s" for e
    by (simp_all add: AbstractCacheEntry_changePermission_def AbstractEntry_changePermission_def Let_def)
  have "m_Permission (?f e) \<noteq> AccessPermission_NotPresent" for e unfolding f(2) by (rule live_permission [OF assms(3)])
  from modify_line_Inr [OF assms(1,2) Some f(1) this] obtain d i where
    "modify_line env c a ?f = Inr (c\<lparr>Dcache := d, Icache := i\<rparr>)" "caches_ok (le_rs env) (c\<lparr>Dcache := d, Icache := i\<rparr>)"
    "l1_line (c\<lparr>Dcache := d, Icache := i\<rparr>) = (l1_line c)(a \<mapsto> ?f e)" by blast
  then show ?thesis using Some assms(4) f(2)
    by (intro exI [of _ d] exI [of _ i] exI [of _ ?f]) (simp add: setAccessPermission_def)
qed

lemma finish_good:
  assumes "env_ok env a" and "tracks env p a c0 sk cx" and "skel_fits sk s"
  shows "\<exists>c1 c2. setState env (cx_c cx) (cx_tbe cx) (cx_entry cx) a s = Inr c1 \<and> setAccessPermission env c1 (cx_entry cx) a s = Inr c2 \<and>
    l1_ok env c2 \<and> addr_ok c2 a \<and> l1_st c2 a = s \<and> only_at a c0 c2 \<and> l1_ctl c2 = l1_ctl (cx_c cx)"
proof -
  have line: "line_address (le_rs env) a = a" using assms(1) by (simp add: env_ok_def)
  note td = tracksD [OF assms(2)]
  have fit: "s \<in> set live_states" "sk_tbe sk = (s \<in> set tbe_states)" "sk_entry sk = (s \<noteq> L1_I)" "sk_atomic sk \<Longrightarrow> s \<in> set atomic_states"
    using assms(3) by (auto simp: skel_fits_def)
  let ?c = "cx_c cx"
  obtain T E where S: "setState env ?c (cx_tbe cx) (cx_entry cx) a s = Inr (?c\<lparr>TBEs := T, l1_entries := E\<rparr>)" "tbe_wf (le_rs env) T"
    "TBETable_lookup T = (if sk_tbe sk then (TBETable_lookup (TBEs ?c))(a := map_option (\<lambda>t. t\<lparr>tbe_State := s\<rparr>) (TBETable_lookup (TBEs ?c) a))
      else TBETable_lookup (TBEs ?c))" "E = (l1_entries ?c)(a := map_option (\<lambda>e. e\<lparr>ce_State := s\<rparr>) (l1_entries ?c a))"
    using setState_Inr [OF assms(1,2)] by blast
  let ?c1 = "?c\<lparr>TBEs := T, l1_entries := E\<rparr>"
  have ent: "cx_entry cx = (l1_line ?c1 a \<noteq> None)" using assms(2) by (simp add: tracks_def)
  have "caches_ok (le_rs env) ?c1" using td(8) by simp
  from setAccessPermission_Inr [OF this line fit(1) ent] obtain d i f where
    P: "setAccessPermission env ?c1 (cx_entry cx) a s = Inr (?c1\<lparr>Dcache := d, Icache := i\<rparr>)" "caches_ok (le_rs env) (?c1\<lparr>Dcache := d, Icache := i\<rparr>)"
      "l1_line (?c1\<lparr>Dcache := d, Icache := i\<rparr>) = (l1_line ?c1)(a := map_option f (l1_line ?c1 a))"
      "\<And>e. m_Permission (f e) = L1Cache_State_to_permission s" by blast
  let ?c2 = "?c1\<lparr>Dcache := d, Icache := i\<rparr>"
  have fields: "TBEs ?c2 = T" "l1_entries ?c2 = E" "l1_ctl ?c2 = l1_ctl ?c" by simp_all
  have ok: "l1_ok env ?c2" using P(2) S(2,4) td(1) by (auto simp: l1_ok_def)
  have st: "l1_st ?c2 a = s"
  proof (cases "sk_tbe sk")
    case True
    then show ?thesis using td(4) S(3) by (auto simp: l1_st_def fields)
  next
    case False
    then have "TBETable_lookup (TBEs ?c) a = None" using assms(2) by (simp add: tracks_def)
    then have no: "TBETable_lookup T a = None" using False S(3) by simp
    have "(l1_entries ?c a \<noteq> None) = (s \<noteq> L1_I)" using assms(2) fit(3) by (simp add: tracks_def)
    then show ?thesis using no S(4) by (cases "l1_entries ?c a") (simp_all add: l1_st_def fields)
  qed
  have tr: "(TBETable_lookup (TBEs ?c) a \<noteq> None) = sk_tbe sk" "(l1_line ?c a \<noteq> None) = sk_entry sk" "(l1_entries ?c a \<noteq> None) = sk_entry sk"
    "\<And>t. TBETable_lookup (TBEs ?c) a = Some t \<Longrightarrow> tbe_firstScheduledTime t = 0 \<and> \<not> tbe_zeroArb t"
    "\<And>e. l1_entries ?c a = Some e \<Longrightarrow> ce_isAtomic e \<Longrightarrow> sk_atomic sk" using assms(2) by (simp_all add: tracks_def)
  have T: "(TBETable_lookup T a \<noteq> None) = sk_tbe sk" "\<And>t. TBETable_lookup T a = Some t \<Longrightarrow> tbe_firstScheduledTime t = 0 \<and> \<not> tbe_zeroArb t"
    using tr(1,4) S(3) by (cases "TBETable_lookup (TBEs ?c) a"; auto)+
  have E: "(E a \<noteq> None) = sk_entry sk" "\<And>e. E a = Some e \<Longrightarrow> ce_State e = s \<and> (ce_isAtomic e \<longrightarrow> s \<in> set atomic_states)"
    using tr(3,5) S(4) fit(4) by (cases "l1_entries ?c a"; auto)+
  have L: "(map_option f (l1_line ?c1 a) \<noteq> None) = sk_entry sk" "\<And>l. map_option f (l1_line ?c1 a) = Some l \<Longrightarrow> m_Permission l = L1Cache_State_to_permission s"
    using tr(2) P(4) by auto
  have "addr_ok ?c2 a" unfolding addr_ok_def st fields P(3) fun_upd_same
    using fit(1) T [unfolded fit(2)] E [unfolded fit(3)] L [unfolded fit(3)] by blast
  moreover have "only_at a c0 ?c2" unfolding only_at_def fields P(3)
    using assms(2) S(3,4) by (simp add: tracks_def only_at_def)
  ultimately show ?thesis using S(1) P(1) ok st fields(3) by blast
qed

lemma row_needs_one_tbe:
  assumes "l1_row s e = Some (acts, n)" and "sum_list (map tbe_needs acts) \<noteq> 0"
  shows "sum_list (map tbe_needs acts) = 1"
proof -
  have "list_all (\<lambda>(ss, es, acts, n). sum_list (map tbe_needs acts) \<le> 1) l1_transitions" by code_simp
  moreover obtain ss es n' where "(ss, es, acts, n') \<in> set l1_transitions" using l1_row_decl [OF assms(1)] by blast
  ultimately have "sum_list (map tbe_needs acts) \<le> 1" unfolding list_all_iff by blast
  then show ?thesis using assms(2) by linarith
qed

lemma trigger_safe:
  assumes "env_ok env a" and "l1_inv env c" and "port_ready env (event_port e) (ac_buf (l1_ctl c) (event_port e))"
    and "m_cur_in_port (l1_ctl c) = l1_rank (event_port e)"
    and "l1_st c a = L1_I \<Longrightarrow> e \<in> {Ev_Load, Ev_Store, Ev_RMW_Read} \<Longrightarrow> free_way (Dcache c) a"
    and "l1_st c a = L1_I \<Longrightarrow> e = Ev_Ifetch \<Longrightarrow> free_way (Icache c) a"
    and "l1_row (l1_st c a) e = Some (acts, s)" and "resources_available env c acts"
  shows "\<exists>c' es. trigger env e a c = Inr (TransitionResult_Valid, c', es) \<and> l1_inv env c' \<and> l1_st c' a = s \<and> only_at a c c' \<and>
    sent_ports es = concat (map out_needs acts) \<and>
    (\<forall>q. all_payloads (ac_buf (l1_ctl c') q) = all_payloads (ac_buf (l1_ctl c) q) -
       (if q = event_port e \<and> takes_message acts then {#head_msg (ac_buf (l1_ctl c) q)#} else {#}))"
proof -
  let ?p = "event_port e" and ?s = "l1_st c a"
  have line: "line_address (le_rs env) a = a" using assms(1) by (simp add: env_ok_def)
  have ok: "l1_ok env c" "addr_ok c a" using assms(2) by (simp_all add: l1_inv_def)
  have live: "?s \<in> set live_states" using ok(2) by (simp add: addr_ok_def)
  obtain sk where sk: "abs_run ?p acts (skel_of ?s e acts) = Some sk" "skel_fits sk s" using l1_row_ok [OF assms(7) live] by blast
  let ?cx = "\<lparr>cx_c = c, cx_tbe = tbe_valid c a, cx_entry = (?s \<noteq> L1_I), cx_effects = []\<rparr>"
  have slot: "int (length (tbe_map (TBEs c))) < m_number_of_TBEs (TBEs c)" if "sum_list (map tbe_needs acts) \<noteq> 0"
    using assms(8) that row_needs_one_tbe [OF assms(7) that] TBETable_areNSlotsAvailable_iff [of "le_rs env" "TBEs c" 1] ok(1)
    by (simp add: resources_available_def Let_def l1_ok_def)
  have "tracks env ?p a c (skel_of ?s e acts) ?cx"
    using ok assms(4-6) slot by (simp add: tracks_def skel_of_def only_at_def addr_ok_def tbe_valid_def)
  from run_good [OF assms(1,3) this sk(1)] obtain cx where
    cx: "rfold (\<lambda>cx act. do_action env a act cx) ?cx acts = Inr cx" "tracks env ?p a c sk cx"
      "sent_ports (cx_effects cx) = concat (map out_needs acts)" by (auto simp: good_def)
  obtain c1 c2 where fin: "setState env (cx_c cx) (cx_tbe cx) (cx_entry cx) a s = Inr c1" "setAccessPermission env c1 (cx_entry cx) a s = Inr c2"
    "l1_ok env c2" "addr_ok c2 a" "l1_st c2 a = s" "only_at a c c2" "l1_ctl c2 = l1_ctl (cx_c cx)"
    using finish_good [OF assms(1) cx(2) sk(2)] by blast
  have run: "trigger env e a c = Inr (TransitionResult_Valid, c2, cx_effects cx)"
    using getState_Inr [OF assms(2) line] assms(7,8) cx(1) fin(1,2) by (simp add: trigger_def doTransition_def doTransitionWorker_def)
  have same: "l1_line c2 b = l1_line c b \<and> l1_entries c2 b = l1_entries c b \<and> TBETable_lookup (TBEs c2) b = TBETable_lookup (TBEs c) b"
    if "b \<noteq> a" for b using fin(6) that by (simp add: only_at_def)
  have others: "addr_ok c2 b" if "b \<noteq> a" for b
  proof -
    have "l1_st c2 b = l1_st c b" unfolding l1_st_def using same [OF that] by (simp split: option.split)
    then show ?thesis using same [OF that] assms(2) by (simp add: l1_inv_def addr_ok_def)
  qed
  have "addr_ok c2 b" for b using others [of b] fin(4) by (cases "b = a") simp_all
  then have inv: "l1_inv env c2" using fin(3) by (simp add: l1_inv_def)
  have "sk_popped sk = takes_message acts" using abs_run_popped [OF sk(1)] by (simp add: skel_of_def)
  then have "all_payloads (ac_buf (l1_ctl c2) q) = all_payloads (ac_buf (l1_ctl c) q) -
       (if q = ?p \<and> takes_message acts then {#head_msg (ac_buf (l1_ctl c) q)#} else {#})" for q
    using cx(2) fin(7) by (auto simp: tracks_def)
  then show ?thesis using run inv fin(5,6) cx(3) by blast
qed

end
